(* ===== verification/Go_Prelude.thy ===== *)
theory Go_Prelude
  imports Main "HOL-Library.Word" "HOL-Library.Multiset" "HOL-Library.Sublist"
begin

text \<open>
  What the model uses of the Go language and its standard library: machine integers,
  the loop construct, strings, decimal formatting, slice sorting, and the lists of
  consecutive block numbers that the specifications of the sync paths speak about.

  Conventions shared by all theories:
  \<^item> \<open>uint64\<close> is a \<open>64 word\<close> (its arithmetic wraps as Go's does);
  \<^item> \<open>int\<close>, \<open>int64\<close> and \<open>time.Duration\<close> are \<open>int\<close>; an addition or subtraction that could
    leave the 64-bit range is passed through \<open>i64\<close>;
  \<^item> \<open>time.Time\<close> is an \<open>int\<close>, nanoseconds since the zero \<open>Time\<close>, so \<open>IsZero\<close> is \<open>= 0\<close>;
  \<^item> a function that mutates its receiver takes the state and returns the new one; an
    effect outside the package acts on an opaque world that is threaded through.
\<close>

named_theorems go_defs \<open>definitions unfolded by symbolic execution of the model\<close>
named_theorems u64_simps \<open>facts about 64-bit unsigned block numbers\<close>

section \<open>Machine integers\<close>

type_synonym u64 = "64 word"
type_synonym gotime = int
type_synonym duration = int

definition i64 :: "int \<Rightarrow> int" where
  "i64 x = (x + 2 ^ 63) mod 2 ^ 64 - 2 ^ 63"

definition in_i64 :: "int \<Rightarrow> bool" where
  "in_i64 x \<longleftrightarrow> - (2 ^ 63) \<le> x \<and> x < 2 ^ 63"

lemma i64_id [simp]: "in_i64 x \<Longrightarrow> i64 x = x"
  by (simp add: i64_def in_i64_def)

lemma i64_range: "in_i64 (i64 x)"
proof -
  have "0 \<le> (x + 2 ^ 63) mod 2 ^ 64" and "(x + 2 ^ 63) mod 2 ^ 64 < (2 ^ 64 :: int)"
    by (rule pos_mod_sign pos_mod_bound, simp)+
  then show ?thesis by (simp add: i64_def in_i64_def)
qed

text \<open>Conversion \<open>uint64(x)\<close> of a signed integer keeps the bits.\<close>

definition to_u64 :: "int \<Rightarrow> u64" where
  "to_u64 x = word_of_int x"

lemma unat_to_u64 [u64_simps]: "0 \<le> x \<Longrightarrow> x < 2 ^ 64 \<Longrightarrow> unat (to_u64 x) = nat x"
  unfolding to_u64_def by (simp add: unat_eq_nat_uint uint_word_of_int)

lemma u64_less [u64_simps]: "(a :: u64) < b \<longleftrightarrow> unat a < unat b"
  by (rule word_less_nat_alt)

lemma u64_le [u64_simps]: "(a :: u64) \<le> b \<longleftrightarrow> unat a \<le> unat b"
  by (rule word_le_nat_alt)

lemma unat_u64_bound: "unat (a :: u64) < 2 ^ 64"
  using unsigned_less [of a] by simp

lemma unat_u64_Suc [u64_simps]: "(a :: u64) < b \<Longrightarrow> unat (a + 1) = Suc (unat a)"
  using unat_u64_bound [of b] by (simp add: word_less_nat_alt unat_word_ariths)

lemma unat_u64_add [u64_simps]:
  "unat (a :: u64) + unat b < 2 ^ 64 \<Longrightarrow> unat (a + b) = unat a + unat b"
  by (simp add: unat_word_ariths)

lemma unat_u64_sub [u64_simps]: "(b :: u64) \<le> a \<Longrightarrow> unat (a - b) = unat a - unat b"
  by (rule unat_sub)

section \<open>Loops\<close>

text \<open>
  A Go \<open>for\<close> loop: the body either leaves the loop (\<open>break\<close> or \<open>return\<close>, with the value \<open>Inl r\<close>) or
  goes on to the next iteration with a new state (\<open>Inr a\<close>). A loop that never leaves is \<open>None\<close>.
\<close>

partial_function (option) go_for :: "('a \<Rightarrow> 'r + 'a) \<Rightarrow> 'a \<Rightarrow> 'r option" where
  "go_for body a = (case body a of Inl r \<Rightarrow> Some r | Inr a' \<Rightarrow> go_for body a')"

declare go_for.simps [code]

lemma go_for_step:
  "body a = Inl r \<Longrightarrow> go_for body a = Some r"
  "body a = Inr a' \<Longrightarrow> go_for body a = go_for body a'"
  by (simp_all add: go_for.simps [of body a])

text \<open>Total correctness: an invariant and a well-founded relation that every iteration decreases.\<close>

lemma go_for_total:
  assumes "wf R" and "I a"
    and "\<And>a r. I a \<Longrightarrow> body a = Inl r \<Longrightarrow> Q r"
    and "\<And>a a'. I a \<Longrightarrow> body a = Inr a' \<Longrightarrow> I a' \<and> (a', a) \<in> R"
  shows "\<exists>r. go_for body a = Some r \<and> Q r"
  using assms(1,2)
proof (induction a rule: wf_induct_rule)
  case (less a)
  show ?case
  proof (cases "body a")
    case (Inl r)
    with less.prems assms(3) show ?thesis by (auto simp: go_for_step)
  next
    case (Inr a')
    with less assms(4) [OF less.prems Inr] show ?thesis by (auto simp: go_for_step)
  qed
qed

text \<open>Partial correctness: what the loop returns, if it returns.\<close>

lemma go_for_partial:
  assumes ret: "go_for body a = Some r" and start: "I a"
    and exits: "\<And>a r. I a \<Longrightarrow> body a = Inl r \<Longrightarrow> Q r"
    and keeps: "\<And>a a'. I a \<Longrightarrow> body a = Inr a' \<Longrightarrow> I a'"
  shows "Q r"
proof -
  have "I a \<longrightarrow> Q r"
  proof (rule go_for.raw_induct [where P = "\<lambda>b a r. b = body \<longrightarrow> I a \<longrightarrow> Q r", OF _ ret, simplified])
    fix f b a r
    assume IH: "\<And>b a r. f b a = Some r \<Longrightarrow> b = body \<longrightarrow> I a \<longrightarrow> Q r"
      and eq: "(case b a of Inl r \<Rightarrow> Some r | Inr a' \<Rightarrow> f b a') = Some r"
    show "b = body \<longrightarrow> I a \<longrightarrow> Q r"
      using eq IH exits keeps by (cases "b a") auto
  qed
  with start show ?thesis by simp
qed

text \<open>Two loops whose bodies are related step by step return related results.\<close>

lemma go_for_sim:
  assumes ret: "go_for f a = Some r" and start: "I a b" and step: "\<And>a b. I a b \<Longrightarrow> rel_sum Q I (f a) (g b)"
  shows "\<exists>r'. go_for g b = Some r' \<and> Q r r'"
proof -
  have "\<forall>b. I a b \<longrightarrow> (\<exists>r'. go_for g b = Some r' \<and> Q r r')"
  proof (rule go_for.raw_induct [where P = "\<lambda>h a r. h = f \<longrightarrow> (\<forall>b. I a b \<longrightarrow> (\<exists>r'. go_for g b = Some r' \<and> Q r r'))", OF _ ret, simplified])
    fix k h a r
    assume IH: "\<And>h a r. k h a = Some r \<Longrightarrow> h = f \<longrightarrow> (\<forall>b. I a b \<longrightarrow> (\<exists>r'. go_for g b = Some r' \<and> Q r r'))"
      and eq: "(case h a of Inl r \<Rightarrow> Some r | Inr a' \<Rightarrow> k h a') = Some r"
    show "h = f \<longrightarrow> (\<forall>b. I a b \<longrightarrow> (\<exists>r'. go_for g b = Some r' \<and> Q r r'))"
    proof (intro impI allI)
      fix b
      assume h: "h = f" and I: "I a b"
      from step [OF I] show "\<exists>r'. go_for g b = Some r' \<and> Q r r'"
      proof (cases rule: rel_sum.cases)
        case (1 r1 r2)
        with eq h show ?thesis by (auto simp: go_for_step)
      next
        case (2 a' b')
        then have "go_for g b = go_for g b'" by (simp add: go_for_step)
        with 2 eq h IH [of h a' r] show ?thesis by auto
      qed
    qed
  qed
  with start show ?thesis by blast
qed

lemma go_for_rel:
  assumes "I a b" and step: "\<And>a b. I a b \<Longrightarrow> rel_sum Q I (f a) (g b)"
  shows "rel_option Q (go_for f a) (go_for g b)"
proof (cases "go_for f a")
  case (Some r)
  from go_for_sim [where I = I and Q = Q and g = g, OF Some assms] show ?thesis using Some by auto
next
  case None
  have conv: "rel_sum Q\<inverse>\<inverse> I\<inverse>\<inverse> (g b) (f a)" if "I\<inverse>\<inverse> b a" for a b
    using step [of a b] that by (auto elim!: rel_sum.cases)
  show ?thesis
  proof (cases "go_for g b")
    case (Some r)
    from go_for_sim [where I = "I\<inverse>\<inverse>" and Q = "Q\<inverse>\<inverse>" and g = f, OF Some _ conv, of a] None assms(1)
    show ?thesis by simp
  qed (use None in simp)
qed

section \<open>Strings\<close>

text \<open>
  \<open>strings.Contains\<close> and \<open>strings.ToLower\<close>. A Go string is a sequence of bytes and so is a \<open>string\<close>
  here; the case mapping is the one of the ASCII letters, which all keywords of the package
  consist of.
\<close>

definition strings_Contains :: "string \<Rightarrow> string \<Rightarrow> bool" where
  "strings_Contains s sub \<longleftrightarrow> sublist sub s"

definition lower_char :: "char \<Rightarrow> char" where
  "lower_char c = (let n = of_char c :: nat in if 65 \<le> n \<and> n \<le> 90 then char_of (n + 32) else c)"

definition strings_ToLower :: "string \<Rightarrow> string" where
  "strings_ToLower s = map lower_char s"

lemma lower_char_idem [simp]: "lower_char (lower_char c) = lower_char c"
  by (simp add: lower_char_def Let_def)

lemma strings_ToLower_idem [simp]: "strings_ToLower (strings_ToLower s) = strings_ToLower s"
  by (simp add: strings_ToLower_def)

lemma strings_ToLower_append [simp]:
  "strings_ToLower (s @ t) = strings_ToLower s @ strings_ToLower t"
  by (simp add: strings_ToLower_def)

lemma strings_Contains_appendI:
  "strings_Contains s sub \<Longrightarrow> strings_Contains (pre @ s) sub"
  "strings_Contains s sub \<Longrightarrow> strings_Contains (s @ post) sub"
  by (auto simp: strings_Contains_def sublist_append)

lemma strings_Contains_lower:
  "strings_Contains s sub \<Longrightarrow> strings_Contains (strings_ToLower s) (strings_ToLower sub)"
  by (auto simp: strings_Contains_def strings_ToLower_def intro: map_mono_sublist)

lemma sublist_separator:
  assumes "c \<notin> set xs"
  shows "sublist xs (a @ c # b) \<longleftrightarrow> sublist xs a \<or> sublist xs b"
proof
  assume "sublist xs (a @ c # b)"
  then consider "sublist xs a" | "sublist xs (c # b)"
    | xs1 xs2 where "xs = xs1 @ xs2" "suffix xs1 a" "prefix xs2 (c # b)"
    by (auto simp: sublist_append)
  then show "sublist xs a \<or> sublist xs b"
  proof cases
    case 2
    with assms show ?thesis by (auto simp: sublist_Cons_right prefix_Cons)
  next
    case 3
    with assms have "xs2 = []" by (cases xs2) auto
    with 3 show ?thesis by auto
  qed simp
qed (auto simp: sublist_append sublist_Cons_right)

text \<open>The verb \<open>%d\<close> of \<open>fmt\<close>.\<close>

fun fmt_nat :: "nat \<Rightarrow> string" where
  "fmt_nat n = (if n < 10 then [char_of (48 + n)] else fmt_nat (n div 10) @ [char_of (48 + n mod 10)])"

declare fmt_nat.simps [simp del]

definition fmt_d :: "int \<Rightarrow> string" where
  "fmt_d i = (if i < 0 then ''-'' @ fmt_nat (nat (- i)) else fmt_nat (nat i))"

definition fmt_u64 :: "u64 \<Rightarrow> string" where
  "fmt_u64 w = fmt_nat (unat w)"

lemma fmt_nat_no_y: "CHR ''y'' \<notin> set (fmt_nat n)"
proof (induction n rule: fmt_nat.induct)
  case (1 n)
  have d: "char_of (48 + k) \<noteq> CHR ''y''" if "k < 10" for k :: nat
  proof
    assume "char_of (48 + k) = CHR ''y''"
    then have "of_char (char_of (48 + k) :: char) = (of_char CHR ''y'' :: nat)" by simp
    with that show False by simp
  qed
  show ?case
  proof (cases "n < 10")
    case True
    with d [of n] show ?thesis by (subst fmt_nat.simps) auto
  next
    case False
    with 1 d [of "n mod 10"] show ?thesis by (subst fmt_nat.simps) auto
  qed
qed

section \<open>Slice sorting\<close>

text \<open>
  \<open>sort.Slice(xs, less)\<close>, as the insertion sort the Go library uses on short slices. What the
  package relies on is only the contract of \<open>sort.Slice\<close>: a permutation, in ascending order
  whenever \<open>less\<close> is a strict weak order.
\<close>

fun insert_by :: "('a \<Rightarrow> 'a \<Rightarrow> bool) \<Rightarrow> 'a \<Rightarrow> 'a list \<Rightarrow> 'a list" where
  "insert_by lt x [] = [x]"
| "insert_by lt x (y # ys) = (if lt y x then y # insert_by lt x ys else x # y # ys)"

definition sort_Slice :: "('a \<Rightarrow> 'a \<Rightarrow> bool) \<Rightarrow> 'a list \<Rightarrow> 'a list" where
  "sort_Slice lt xs = foldr (insert_by lt) xs []"

lemma mset_insert_by [simp]: "mset (insert_by lt x ys) = add_mset x (mset ys)"
  by (induction ys) auto

lemma mset_sort_Slice [simp]: "mset (sort_Slice lt xs) = mset xs"
  by (induction xs) (auto simp: sort_Slice_def)

lemma set_sort_Slice [simp]: "set (sort_Slice lt xs) = set xs"
  by (metis mset_sort_Slice set_mset_mset)

lemma length_sort_Slice [simp]: "length (sort_Slice lt xs) = length xs"
  by (metis mset_sort_Slice size_mset)

lemma distinct_sort_Slice [simp]: "distinct (sort_Slice lt xs) = distinct xs"
  by (metis mset_sort_Slice mset_eq_imp_distinct_iff)

lemma sorted_wrt_unique:
  assumes "mset xs = mset ys" and "sorted_wrt P xs" and "sorted_wrt P ys"
    and "\<And>a b. a \<in> set xs \<Longrightarrow> b \<in> set xs \<Longrightarrow> P a b \<Longrightarrow> P b a \<Longrightarrow> a = b"
  shows "xs = ys"
  using assms
proof (induction xs arbitrary: ys)
  case Nil
  then show ?case by simp
next
  case (Cons x xs)
  then obtain y ys' where ys: "ys = y # ys'" by (cases ys) auto
  have same: "set (x # xs) = set ys" using Cons.prems(1) by (metis set_mset_mset)
  have "x = y"
  proof (rule ccontr)
    assume ne: "x \<noteq> y"
    with same ys have "y \<in> set xs" and "x \<in> set ys'" by auto
    with Cons.prems(2,3) ys have "P x y" and "P y x" by auto
    with Cons.prems(4) [of x y] \<open>y \<in> set xs\<close> ne show False by auto
  qed
  moreover have "xs = ys'"
    by (rule Cons.IH) (use Cons.prems ys \<open>x = y\<close> in auto)
  ultimately show ?case using ys by simp
qed

text \<open>
  The contract a comparison function owes to \<open>sort.Slice\<close>, on the carrier its arguments range
  over, and what the call then returns. The elements are compared through a key \<open>f\<close>.
\<close>

locale slice_order =
  fixes lt :: "'a \<Rightarrow> 'a \<Rightarrow> bool" and carrier :: "'a set"
  assumes lt_asym: "a \<in> carrier \<Longrightarrow> b \<in> carrier \<Longrightarrow> lt a b \<Longrightarrow> \<not> lt b a"
    and lt_neg_trans: "a \<in> carrier \<Longrightarrow> b \<in> carrier \<Longrightarrow> c \<in> carrier \<Longrightarrow>
          \<not> lt a b \<Longrightarrow> \<not> lt b c \<Longrightarrow> \<not> lt a c"
begin

lemma sorted_insert_by:
  assumes "f x \<in> carrier" and "f ` set ys \<subseteq> carrier"
    and "sorted_wrt (\<lambda>a b. \<not> lt (f b) (f a)) ys"
  shows "sorted_wrt (\<lambda>a b. \<not> lt (f b) (f a)) (insert_by (\<lambda>a b. lt (f a) (f b)) x ys)"
  using assms
proof (induction ys)
  case Nil
  then show ?case by simp
next
  case (Cons y ys)
  have "set (insert_by (\<lambda>a b. lt (f a) (f b)) x ys) = insert x (set ys)"
    by (metis mset_insert_by set_mset_add_mset_insert set_mset_mset)
  moreover have "\<not> lt (f z) (f x)" if "\<not> lt (f y) (f x)" "z \<in> set ys" for z
    using that Cons.prems by (intro lt_neg_trans [of "f z" "f y" "f x"]) auto
  ultimately show ?case using Cons by (auto dest: lt_asym)
qed

lemma sorted_sort_Slice:
  "f ` set xs \<subseteq> carrier \<Longrightarrow>
   sorted_wrt (\<lambda>a b. \<not> lt (f b) (f a)) (sort_Slice (\<lambda>a b. lt (f a) (f b)) xs)"
proof (induction xs)
  case Nil
  then show ?case by (simp add: sort_Slice_def)
next
  case (Cons x xs)
  have "set (foldr (insert_by (\<lambda>a b. lt (f a) (f b))) xs []) = set xs"
    using set_sort_Slice [of "\<lambda>a b. lt (f a) (f b)" xs] by (simp add: sort_Slice_def)
  with Cons show ?case by (auto simp: sort_Slice_def intro!: sorted_insert_by)
qed

lemma sort_Slice_cong:
  assumes "mset xs = mset ys" and "f ` set xs \<subseteq> carrier"
    and "\<And>a b. a \<in> set xs \<Longrightarrow> b \<in> set xs \<Longrightarrow> a \<noteq> b \<Longrightarrow> lt (f a) (f b) \<or> lt (f b) (f a)"
  shows "sort_Slice (\<lambda>a b. lt (f a) (f b)) xs = sort_Slice (\<lambda>a b. lt (f a) (f b)) ys"
proof (rule sorted_wrt_unique [where P = "\<lambda>a b. \<not> lt (f b) (f a)"])
  have "set xs = set ys" using assms(1) by (metis set_mset_mset)
  then show "sorted_wrt (\<lambda>a b. \<not> lt (f b) (f a)) (sort_Slice (\<lambda>a b. lt (f a) (f b)) ys)"
    using assms(2) by (intro sorted_sort_Slice) simp
qed (use assms sorted_sort_Slice in auto)

end

section \<open>Sums over a list with one entry replaced\<close>

lemma sum_list_map_update:
  "i < length xs \<Longrightarrow>
   sum_list (map f (xs[i := y])) + f (xs ! i) = sum_list (map f xs) + (f y :: 'b :: comm_monoid_add)"
proof (induction xs arbitrary: i)
  case (Cons x xs)
  then show ?case
  proof (cases i)
    case 0
    then show ?thesis by (simp add: ac_simps)
  next
    case (Suc k)
    with Cons.prems Cons.IH [of k]
    have "sum_list (map f (xs[k := y])) + f (xs ! k) = sum_list (map f xs) + f y" by simp
    with Suc show ?thesis by (simp add: add.assoc)
  qed
qed simp

section \<open>Ranges of block numbers\<close>

definition blocks :: "u64 \<Rightarrow> u64 \<Rightarrow> u64 list" where
  "blocks a b = map word_of_nat [unat a ..< Suc (unat b)]"

lemma set_blocks [simp]: "set (blocks a b) = {a..b}"
proof -
  have "x \<in> word_of_nat ` {unat a ..< Suc (unat b)}" if "a \<le> x" and "x \<le> b" for x :: u64
    using that by (intro image_eqI [of _ _ "unat x"]) (auto simp: word_le_nat_alt)
  moreover have "a \<le> word_of_nat n \<and> word_of_nat n \<le> b" if "unat a \<le> n" and "n \<le> unat b" for n
  proof -
    have "n < 2 ^ 64" using that unat_u64_bound [of b] by linarith
    then have "unat (word_of_nat n :: u64) = n" by (simp add: unat_of_nat)
    with that show ?thesis by (simp add: word_le_nat_alt)
  qed
  ultimately show ?thesis by (auto simp: blocks_def simp del: upt_Suc)
qed

lemma length_blocks: "length (blocks a b) = Suc (unat b) - unat a"
  by (simp add: blocks_def del: upt_Suc)

lemma blocks_empty: "b < a \<Longrightarrow> blocks a b = []"
  by (simp add: blocks_def word_less_nat_alt)

lemma blocks_single [simp]: "blocks a a = [a]"
  by (simp add: blocks_def)

lemma blocks_split:
  assumes "a \<le> Suc (unat m)" and "m < b" and "a = unat a'"
  shows "blocks a' b = blocks a' m @ blocks (m + 1) b"
proof -
  have "unat (m + 1) = Suc (unat m)" using assms(2) by (rule unat_u64_Suc)
  moreover have "[a ..< Suc (unat b)] = [a ..< Suc (unat m)] @ [Suc (unat m) ..< Suc (unat b)]"
    using assms(1,2) upt_add_eq_append [of a "Suc (unat m)" "unat b - unat m"]
    by (simp add: word_less_nat_alt del: upt_Suc)
  ultimately show ?thesis using assms(3) by (simp add: blocks_def del: upt_Suc)
qed

lemma blocks_append: "a \<le> m \<Longrightarrow> m < b \<Longrightarrow> blocks a m @ blocks (m + 1) b = blocks a b"
  by (rule blocks_split [symmetric]) (auto simp: word_le_nat_alt)

lemma blocks_Cons: "a < b \<Longrightarrow> blocks a b = a # blocks (a + 1) b"
  using blocks_append [of a a b] by simp

lemma blocks_snoc: "a \<le> b \<Longrightarrow> b < b + 1 \<Longrightarrow> blocks a (b + 1) = blocks a b @ [b + 1]"
  using blocks_append [of a b "b + 1"] by simp

lemma blocks_prefix:
  assumes "blocks a b = ns @ ms" and "ns \<noteq> []"
  shows "ns = blocks a (last ns)"
proof -
  define k where "k = length ns"
  have k: "0 < k" "k \<le> Suc (unat b) - unat a" using assms length_blocks [of a b] by (auto simp: k_def)
  have "ns = take k (blocks a b)" using assms(1) by (simp add: k_def)
  also have "\<dots> = map word_of_nat [unat a ..< unat a + k]" using k by (simp add: blocks_def take_map take_upt del: upt_Suc)
  finally have ns: "ns = map word_of_nat [unat a ..< unat a + k]" .
  have u: "unat (word_of_nat m :: u64) = m" if "m < 2 ^ 64" for m
    using that by (simp add: unsigned_of_nat take_bit_nat_eq_self)
  have "last ns = word_of_nat (last [unat a ..< unat a + k])" using k(1) unfolding ns by (intro last_map) simp
  also have "last [unat a ..< unat a + k] = unat a + k - 1" using k(1) by simp
  finally have "unat (last ns) = unat a + k - 1" using u [of "unat a + k - 1"] k unsigned_less [of b, where 'a = nat] by simp
  then show ?thesis using k(1) by (subst ns) (simp add: blocks_def del: upt_Suc)
qed

end
