(* ===== verification/Errors.thy ===== *)
theory Errors
  imports Go_Prelude
begin

text \<open>
  \<^verbatim>\<open>errors.go\<close>. A Go \<open>error\<close> is a value with a message
  (\<open>Error()\<close>) and, for errors built by \<open>fmt.Errorf\<close> with \<open>%w\<close>, the errors it wraps, which
  \<open>errors.Is\<close> searches. The package classifies errors only through substrings of the message, so
  the model keeps the messages.
\<close>

section \<open>Error values\<close>

text \<open>
  The exported sentinels, the two errors of package \<open>context\<close>, and the error \<open>NewPool\<close>,
  \<open>NewIndexer\<close> and the storages build with \<open>fmt.Errorf\<close> and no \<open>%w\<close> (\<open>ErrNew\<close>).
\<close>

datatype sentinel =
    ErrAlreadyRunning | ErrIndexerStopped | ErrNoAvailableProvider | ErrQuotaExceeded
  | ErrRetriesExhausted | ErrProviderPoolExhausted
  | ContextCanceled | ContextDeadlineExceeded

fun sentinel_msg :: "sentinel \<Rightarrow> string" where
  "sentinel_msg ErrAlreadyRunning = ''idx: indexer already running''"
| "sentinel_msg ErrIndexerStopped = ''idx: indexer already stopped''"
| "sentinel_msg ErrNoAvailableProvider = ''idx: no available provider''"
| "sentinel_msg ErrQuotaExceeded = ''idx: provider quota exceeded''"
| "sentinel_msg ErrRetriesExhausted = ''idx: retry attempts exhausted''"
| "sentinel_msg ErrProviderPoolExhausted = ''idx: provider pool exhausted''"
| "sentinel_msg ContextCanceled = ''context canceled''"
| "sentinel_msg ContextDeadlineExceeded = ''context deadline exceeded''"

datatype goerr = Sentinel sentinel | ErrNew string | ErrWrap string "goerr list"

fun err_Error :: "goerr \<Rightarrow> string" where
  "err_Error (Sentinel s) = sentinel_msg s"
| "err_Error (ErrNew m) = m"
| "err_Error (ErrWrap m es) = m"

fun errors_Is :: "goerr \<Rightarrow> sentinel \<Rightarrow> bool" where
  "errors_Is (Sentinel s) t = (s = t)"
| "errors_Is (ErrNew m) t = False"
| "errors_Is (ErrWrap m es) t = list_ex (\<lambda>e. errors_Is e t) es"

text \<open>\<open>fmt.Errorf(pre + "%w", e)\<close>, the only shape of wrapping the package uses with one \<open>%w\<close>.\<close>

definition errorf_w :: "string \<Rightarrow> goerr \<Rightarrow> goerr" where
  "errorf_w pre e = ErrWrap (pre @ err_Error e) [e]"

lemma err_Error_errorf_w [simp]: "err_Error (errorf_w pre e) = pre @ err_Error e"
  by (simp add: errorf_w_def)

lemma errors_Is_errorf_w [simp]: "errors_Is (errorf_w pre e) t = errors_Is e t"
  by (simp add: errorf_w_def)

section \<open>Classifiers\<close>

text \<open>A nil \<open>error\<close> is \<open>None\<close>.\<close>

definition isLocalDecodeError :: "goerr option \<Rightarrow> bool" where
  "isLocalDecodeError err = (case err of None \<Rightarrow> False
     | Some e \<Rightarrow> strings_Contains (err_Error e) ''transaction type not supported'')"

definition defaultRangeTooLargeFilters :: "string list" where
  "defaultRangeTooLargeFilters = [''large'', ''limit'', ''exceed'', ''too many'']"

definition isRangeTooLargeErrorWithFilters :: "goerr option \<Rightarrow> string list \<Rightarrow> bool" where
  "isRangeTooLargeErrorWithFilters err extraFilters = (case err of None \<Rightarrow> False
     | Some e \<Rightarrow>
        let s = strings_ToLower (err_Error e) in
        if \<not> strings_Contains s ''range'' then False
        else if list_ex (\<lambda>kw. strings_Contains s kw) defaultRangeTooLargeFilters then True
        else list_ex (\<lambda>kw. strings_Contains s (strings_ToLower kw)) extraFilters)"

definition isRangeTooLargeError :: "goerr option \<Rightarrow> bool" where
  "isRangeTooLargeError err = isRangeTooLargeErrorWithFilters err []"

lemmas classifier_defs = isLocalDecodeError_def isRangeTooLargeErrorWithFilters_def
  isRangeTooLargeError_def defaultRangeTooLargeFilters_def

lemma isLocalDecodeError_None [simp]: "\<not> isLocalDecodeError None"
  by (simp add: isLocalDecodeError_def)

lemma isLocalDecodeError_wrap:
  "isLocalDecodeError (Some e) \<Longrightarrow> isLocalDecodeError (Some (errorf_w pre e))"
  by (simp add: isLocalDecodeError_def strings_Contains_appendI)

lemma isRangeTooLarge_wrap:
  "isRangeTooLargeErrorWithFilters (Some e) fs \<Longrightarrow>
   isRangeTooLargeErrorWithFilters (Some (errorf_w pre e)) fs"
  by (fastforce simp: isRangeTooLargeErrorWithFilters_def Let_def list_ex_iff
      intro: strings_Contains_appendI split: if_splits)

lemma isRangeTooLarge_mono:
  "isRangeTooLargeErrorWithFilters err fs \<Longrightarrow> set fs \<subseteq> set gs \<Longrightarrow>
   isRangeTooLargeErrorWithFilters err gs"
  by (fastforce simp: isRangeTooLargeErrorWithFilters_def Let_def list_ex_iff
      split: if_splits option.splits)

lemma isRangeTooLarge_ignore_case:
  "strings_ToLower (err_Error e) = strings_ToLower (err_Error e') \<Longrightarrow>
   isRangeTooLargeErrorWithFilters (Some e) fs = isRangeTooLargeErrorWithFilters (Some e') fs"
  by (simp add: isRangeTooLargeErrorWithFilters_def)

end
