(* ===== verification/Eth_Types.thy ===== *)
theory Eth_Types
  imports Go_Prelude
begin

text \<open>
  The data of go-ethereum that passes through the package. The package reads the block number of
  a log, the time and the hash of a header, and the fields of the filter queries it builds; the
  rest of each value is carried along unread.
\<close>

type_synonym hash = "256 word"
type_synonym address = "160 word"

record log =
  log_BlockNumber :: u64
  log_Data :: string

text \<open>\<open>types.Header\<close>: the \<open>Time\<close> field and the result of the method \<open>Hash()\<close>.\<close>

record header =
  hdr_Time :: u64
  hdr_Hash :: hash

text \<open>\<open>ethereum.FilterQuery\<close>: the fields \<open>Pool.logFilterQuery\<close> sets. The bounds are \<open>big.Int\<close>s.\<close>

record FilterQuery =
  fq_FromBlock :: int
  fq_ToBlock :: int
  fq_Addresses :: "address list"
  fq_Topics :: "hash list list"

text \<open>\<open>new(big.Int).SetUint64(x)\<close>.\<close>

definition big_SetUint64 :: "u64 \<Rightarrow> int" where
  "big_SetUint64 x = uint x"

lemma big_SetUint64_inj [simp]: "big_SetUint64 x = big_SetUint64 y \<longleftrightarrow> x = y"
  by (simp add: big_SetUint64_def word_uint_eq_iff)

text \<open>Values the package only hands through to its caller.\<close>

datatype block = Block nat
datatype transaction = Transaction nat
datatype receipt = Receipt nat
datatype callmsg = CallMsg nat
type_synonym bytes = "8 word list"

end
