(* ===== verification/Go_Float.thy ===== *)
theory Go_Float
  imports Complex_Main "HOL-Library.Log_Nat" Go_Prelude
begin

text \<open>
  Go's \<open>float64\<close>: IEEE 754 binary64 with rounding to nearest, ties to even. A finite value is the
  rational number it denotes (the two zeros are one value, which no comparison of the package
  tells apart); an operation computes the exact result and rounds it.
\<close>

section \<open>Rounding\<close>

definition round_half_even :: "rat \<Rightarrow> int" where
  "round_half_even q = (let f = \<lfloor>q\<rfloor>; r = q - of_int f in
     if r < 1 / 2 then f else if 1 / 2 < r then f + 1 else if even f then f else f + 1)"

definition pow2 :: "int \<Rightarrow> rat" where
  "pow2 e = (if 0 \<le> e then 2 ^ nat e else 1 / 2 ^ nat (- e))"

text \<open>The exponent \<open>e\<close> of a non-zero number: \<open>2 ^ e \<le> \<bar>x\<bar> < 2 ^ (e + 1)\<close>.\<close>

definition f64_exponent :: "rat \<Rightarrow> int" where
  "f64_exponent x = (let (n, d) = quotient_of \<bar>x\<bar>;
       k = bitlen n - bitlen d
     in if pow2 k \<le> \<bar>x\<bar> then k else k - 1)"

text \<open>The distance of neighbouring values around \<open>x\<close>: 53 bits of precision, \<open>2 ^ -1074\<close> at least.\<close>

definition f64_ulp :: "rat \<Rightarrow> rat" where
  "f64_ulp x = pow2 (max (f64_exponent x - 52) (- 1074))"

definition to_grid :: "rat \<Rightarrow> rat \<Rightarrow> rat" where
  "to_grid u x = of_int (round_half_even (x / u)) * u"

definition f64_round :: "rat \<Rightarrow> rat" where
  "f64_round x = (if x = 0 then 0 else to_grid (f64_ulp x) x)"

lemma pow2_powi: "pow2 e = 2 powi e"
  by (simp add: pow2_def power_int_def inverse_eq_divide power_divide)

lemma pow2_pos [simp]: "0 < pow2 e" "pow2 e \<noteq> 0" "0 \<le> pow2 e"
  by (simp_all add: pow2_def)

lemma pow2_add: "pow2 (a + b) = pow2 a * pow2 b"
  by (simp add: pow2_powi power_int_add)

lemma pow2_strict_mono: "a < b \<Longrightarrow> pow2 a < pow2 b"
  unfolding pow2_powi by (rule power_int_strict_increasing) simp_all

lemma pow2_less: "pow2 a < pow2 b \<longleftrightarrow> a < b"
  by (metis linorder_cases not_less_iff_gr_or_eq pow2_strict_mono)

lemma pow2_le: "pow2 a \<le> pow2 b \<longleftrightarrow> a \<le> b"
  by (simp add: linorder_not_less [symmetric] pow2_less)

lemma pow2_nat: "pow2 (int n) = 2 ^ n"
  by (simp add: pow2_def)

lemma pow2_multiple: "b \<le> a \<Longrightarrow> \<exists>k. pow2 a = of_int k * pow2 b"
proof -
  assume "b \<le> a"
  then have "pow2 a = 2 ^ nat (a - b) * pow2 b"
    using pow2_add [of "a - b" b] by (simp add: pow2_def)
  then have "pow2 a = of_int (2 ^ nat (a - b)) * pow2 b" by simp
  then show ?thesis by blast
qed

lemma round_half_even_bounds: "\<lfloor>q\<rfloor> \<le> round_half_even q" "round_half_even q \<le> \<lfloor>q\<rfloor> + 1"
  by (auto simp: round_half_even_def Let_def)

lemma round_half_even_of_int [simp]: "round_half_even (of_int k) = k"
  by (simp add: round_half_even_def)

lemma round_half_even_mono:
  assumes "p \<le> q"
  shows "round_half_even p \<le> round_half_even q"
proof (cases "\<lfloor>p\<rfloor> = \<lfloor>q\<rfloor>")
  case True
  with assms show ?thesis by (auto simp: round_half_even_def Let_def)
next
  case False
  with floor_mono [OF assms] have "\<lfloor>p\<rfloor> + 1 \<le> \<lfloor>q\<rfloor>" by simp
  with round_half_even_bounds [of p] round_half_even_bounds [of q] show ?thesis by linarith
qed

lemma round_half_even_minus: "round_half_even (- q) = - round_half_even q"
proof (cases "q = of_int \<lfloor>q\<rfloor>")
  case True
  then obtain k where k: "q = of_int k" by blast
  then have "- q = of_int (- k)" by simp
  then have "round_half_even (- q) = - k" by (simp only: round_half_even_of_int)
  with k show ?thesis by simp
next
  case False
  have fl: "\<lfloor>- q\<rfloor> = - \<lfloor>q\<rfloor> - 1"
    using False by (intro floor_unique) (linarith | simp)+
  show ?thesis unfolding round_half_even_def Let_def fl by (auto simp: field_simps)
qed

lemma round_half_even_error: "\<bar>of_int (round_half_even q) - q\<bar> \<le> 1 / 2"
proof -
  have "of_int \<lfloor>q\<rfloor> \<le> q" "q < of_int \<lfloor>q\<rfloor> + 1" by linarith+
  then show ?thesis by (auto simp: round_half_even_def Let_def abs_le_iff)
qed

lemma to_grid_mono: "0 < u \<Longrightarrow> x \<le> y \<Longrightarrow> to_grid u x \<le> to_grid u y"
  by (simp add: to_grid_def round_half_even_mono divide_right_mono)

lemma to_grid_multiple [simp]: "u \<noteq> 0 \<Longrightarrow> to_grid u (of_int k * u) = of_int k * u"
  by (simp add: to_grid_def)

lemma to_grid_error: "0 < u \<Longrightarrow> \<bar>to_grid u x - x\<bar> \<le> u / 2"
proof -
  assume u: "0 < u"
  have "to_grid u x - x = u * (of_int (round_half_even (x / u)) - x / u)"
    using u by (simp add: to_grid_def field_simps)
  then have "\<bar>to_grid u x - x\<bar> = u * \<bar>of_int (round_half_even (x / u)) - x / u\<bar>"
    using u by (simp add: abs_mult)
  also have "\<dots> \<le> u * (1 / 2)"
    using u round_half_even_error by (intro mult_left_mono) auto
  finally show ?thesis by simp
qed

lemma floorlog2_bounds:
  fixes m :: int
  assumes "0 < m"
  shows "pow2 (int (floorlog 2 (nat m)) - 1) \<le> of_int m" and "of_int m < pow2 (int (floorlog 2 (nat m)))"
proof -
  define k where "k = floorlog 2 (nat m)"
  have b: "2 ^ (k - 1) \<le> nat m \<and> nat m < 2 ^ k"
    unfolding k_def using assms by (intro floorlog_bounds) auto
  then have "0 < k" using assms by (cases k) auto
  then have "int k - 1 = int (k - 1)" by simp
  then have lo: "pow2 (int k - 1) = 2 ^ (k - 1)" by (simp only: pow2_nat)
  have "(2 :: rat) ^ (k - 1) = of_nat (2 ^ (k - 1))" by simp
  also have "\<dots> \<le> of_nat (nat m)" using b by (subst of_nat_le_iff) simp
  finally show "pow2 (int (floorlog 2 (nat m)) - 1) \<le> of_int m" using assms lo by (simp add: k_def)
  have "rat_of_nat (nat m) < of_nat (2 ^ k)" using b by (subst of_nat_less_iff) simp
  then show "of_int m < pow2 (int (floorlog 2 (nat m)))" using assms by (simp add: k_def pow2_nat)
qed

lemma f64_exponent_bounds:
  assumes "x \<noteq> 0"
  shows "pow2 (f64_exponent x) \<le> \<bar>x\<bar>" and "\<bar>x\<bar> < pow2 (f64_exponent x + 1)"
proof -
  obtain n d where q: "quotient_of \<bar>x\<bar> = (n, d)" by (cases "quotient_of \<bar>x\<bar>")
  then have d: "0 < d" and x: "\<bar>x\<bar> = of_int n / of_int d"
    using quotient_of_denom_pos quotient_of_div by blast+
  have "0 < rat_of_int n / of_int d" using assms x by (metis zero_less_abs_iff)
  with d have n: "0 < n" by (simp add: zero_less_divide_iff)
  define a b where "a = int (floorlog 2 (nat n))" and "b = int (floorlog 2 (nat d))"
  have na: "pow2 (a - 1) \<le> of_int n" "of_int n < pow2 a" unfolding a_def by (rule floorlog2_bounds [OF n])+
  have db: "pow2 (b - 1) \<le> of_int d" "of_int d < pow2 b" unfolding b_def by (rule floorlog2_bounds [OF d])+
  have "pow2 (a - b - 1) * of_int d \<le> pow2 (a - b - 1) * pow2 b"
    using db by (intro mult_left_mono) auto
  also have "\<dots> = pow2 (a - 1)" by (simp flip: pow2_add)
  finally have lo: "pow2 (a - b - 1) \<le> \<bar>x\<bar>" using na(1) d by (simp add: x field_simps)
  have "pow2 a = pow2 (a - b + 1) * pow2 (b - 1)" by (simp flip: pow2_add)
  also have "\<dots> \<le> pow2 (a - b + 1) * of_int d" using db by (intro mult_left_mono) auto
  finally have hi: "\<bar>x\<bar> < pow2 (a - b + 1)" using na(2) d by (simp add: x field_simps)
  have e: "f64_exponent x = (if pow2 (a - b) \<le> \<bar>x\<bar> then a - b else a - b - 1)"
    by (simp add: f64_exponent_def q a_def b_def bitlen_def Let_def)
  from lo show "pow2 (f64_exponent x) \<le> \<bar>x\<bar>" by (simp add: e)
  from hi show "\<bar>x\<bar> < pow2 (f64_exponent x + 1)" by (simp add: e)
qed

lemma f64_exponent_unique:
  assumes "x \<noteq> 0" and "pow2 e \<le> \<bar>x\<bar>" and "\<bar>x\<bar> < pow2 (e + 1)"
  shows "f64_exponent x = e"
proof -
  have "pow2 e < pow2 (f64_exponent x + 1)" and "pow2 (f64_exponent x) < pow2 (e + 1)"
    using assms f64_exponent_bounds [OF assms(1)] by (blast intro: le_less_trans)+
  then show ?thesis by (simp add: pow2_less)
qed

lemma f64_exponent_mono: "x \<noteq> 0 \<Longrightarrow> \<bar>x\<bar> \<le> \<bar>y\<bar> \<Longrightarrow> f64_exponent x \<le> f64_exponent y"
proof -
  assume x: "x \<noteq> 0" and le: "\<bar>x\<bar> \<le> \<bar>y\<bar>"
  then have y: "y \<noteq> 0" by auto
  have "pow2 (f64_exponent x) < pow2 (f64_exponent y + 1)"
    using f64_exponent_bounds(1) [OF x] f64_exponent_bounds(2) [OF y] le by linarith
  then show ?thesis by (simp add: pow2_less)
qed

lemma f64_ulp_pos [simp]: "0 < f64_ulp x" "f64_ulp x \<noteq> 0"
  by (simp_all add: f64_ulp_def)

lemma f64_exponent_minus [simp]: "f64_exponent (- x) = f64_exponent x"
  by (simp add: f64_exponent_def)

lemma f64_round_minus: "f64_round (- x) = - f64_round x"
  by (simp add: f64_round_def f64_ulp_def to_grid_def round_half_even_minus)

lemma f64_round_mono_pos:
  assumes "0 < x" and "x \<le> y"
  shows "f64_round x \<le> f64_round y"
proof (cases "f64_ulp x = f64_ulp y")
  case True
  with assms show ?thesis by (simp add: f64_round_def to_grid_mono)
next
  case False
  define a b where "a = f64_exponent x" and "b = f64_exponent y"
  have ab: "a \<le> b" unfolding a_def b_def using assms by (intro f64_exponent_mono) auto
  have ulps: "f64_ulp x = pow2 (max (a - 52) (- 1074))" "f64_ulp y = pow2 (max (b - 52) (- 1074))"
    by (simp_all add: f64_ulp_def a_def b_def)
  have "a \<noteq> b" using False ulps by auto
  with False ab ulps have lt: "a < b" "- 1074 < b - 52" by (auto simp: max_def split: if_splits)
  have "x \<le> pow2 b" using f64_exponent_bounds(2) [of x] assms lt pow2_le [of "a + 1" b]
    by (simp add: a_def)
  obtain k where k: "pow2 b = of_int k * f64_ulp x"
    unfolding ulps using pow2_multiple [of "max (a - 52) (- 1074)" b] lt by auto
  obtain l where l: "pow2 b = of_int l * f64_ulp y"
    unfolding ulps using pow2_multiple [of "max (b - 52) (- 1074)" b] lt by auto
  have "f64_round x \<le> to_grid (f64_ulp x) (pow2 b)"
    using assms \<open>x \<le> pow2 b\<close> by (simp add: f64_round_def to_grid_mono)
  also have "\<dots> = pow2 b" unfolding k by simp
  also have "pow2 b = to_grid (f64_ulp y) (pow2 b)" unfolding l by simp
  also have "\<dots> \<le> f64_round y"
    using assms f64_exponent_bounds(1) [of y] by (auto simp: f64_round_def b_def intro!: to_grid_mono)
  finally show ?thesis .
qed

lemma f64_round_0 [simp]: "f64_round 0 = 0"
  by (simp add: f64_round_def)

lemma f64_round_nonneg: "0 \<le> x \<Longrightarrow> 0 \<le> f64_round x"
proof -
  assume "0 \<le> x"
  then have "0 \<le> x / f64_ulp x" by (simp add: less_imp_le)
  then have "0 \<le> round_half_even (x / f64_ulp x)"
    using round_half_even_mono [of 0] round_half_even_of_int [of 0] by simp
  then show ?thesis by (simp add: f64_round_def to_grid_def less_imp_le)
qed

lemma f64_round_mono: "x \<le> y \<Longrightarrow> f64_round x \<le> f64_round y"
proof (cases "0 < x")
  case True
  then show "x \<le> y \<Longrightarrow> ?thesis" by (rule f64_round_mono_pos)
next
  case False
  assume le: "x \<le> y"
  show ?thesis
  proof (cases "0 \<le> y")
    case True
    have "0 \<le> f64_round (- x)" using False by (intro f64_round_nonneg) simp
    then have "f64_round x \<le> 0" by (simp add: f64_round_minus)
    with f64_round_nonneg [OF True] show ?thesis by simp
  next
    case False
    with le have "f64_round (- y) \<le> f64_round (- x)" by (intro f64_round_mono_pos) auto
    then show ?thesis by (simp add: f64_round_minus)
  qed
qed

text \<open>Numbers with at most 53 significant bits are exact.\<close>

lemma f64_round_exact:
  assumes "\<bar>m\<bar> \<le> 2 ^ 53" and "- 1074 \<le> e"
  shows "f64_round (of_int m * pow2 e) = of_int m * pow2 e"
proof (cases "m = 0")
  case False
  define x where "x = of_int m * pow2 e"
  have x: "x \<noteq> 0" using False by (simp add: x_def)
  obtain j i where ji: "x = of_int j * pow2 i" "\<bar>j\<bar> < 2 ^ 53" "- 1074 \<le> i"
  proof (cases "\<bar>m\<bar> = 2 ^ 53")
    case True
    then have m: "m = sgn m * 2 ^ 53" by (simp add: abs_if sgn_if split: if_splits)
    have "pow2 (e + 53) = pow2 e * 2 ^ 53" by (simp add: pow2_add) (simp add: pow2_def)
    then have "x = of_int (sgn m) * pow2 (e + 53)"
      unfolding x_def by (subst m) simp
    with that [of "sgn m" "e + 53"] assms(2) show ?thesis by (simp add: sgn_if)
  next
    case False
    with assms that show ?thesis by (auto simp: x_def)
  qed
  have "of_int \<bar>j\<bar> < (of_int (2 ^ 53) :: rat)" using ji(2) by (simp only: of_int_less_iff)
  moreover have "pow2 53 = of_int (2 ^ 53)" by (simp add: pow2_def)
  ultimately have "\<bar>x\<bar> < pow2 53 * pow2 i" by (simp add: ji(1) abs_mult)
  then have "pow2 (f64_exponent x) < pow2 (53 + i)"
    using f64_exponent_bounds(1) [OF x] by (simp add: pow2_add)
  then have "max (f64_exponent x - 52) (- 1074) \<le> i" using ji(3) by (simp add: pow2_less)
  then obtain k where "pow2 i = of_int k * f64_ulp x"
    unfolding f64_ulp_def using pow2_multiple by blast
  then have "x = of_int (j * k) * f64_ulp x" using ji(1) by simp
  then have "to_grid (f64_ulp x) x = x" by (metis f64_ulp_pos(2) to_grid_multiple)
  then show ?thesis using x by (simp add: f64_round_def flip: x_def)
qed simp

lemma f64_round_of_int: "\<bar>m\<bar> \<le> 2 ^ 53 \<Longrightarrow> f64_round (of_int m) = of_int m"
  using f64_round_exact [of m 0] by (simp add: pow2_def)

section \<open>The type and its operations\<close>

datatype f64 = Fin rat | PInf | NInf | NaN

definition f64_of_rat :: "rat \<Rightarrow> f64" where
  "f64_of_rat x = (let y = f64_round x in
     if 2 ^ 1024 \<le> y then PInf else if y \<le> - (2 ^ 1024) then NInf else Fin y)"

text \<open>Conversion \<open>float64(i)\<close> of an integer.\<close>

definition f64_of_int :: "int \<Rightarrow> f64" where
  "f64_of_int i = f64_of_rat (of_int i)"

fun f64_add :: "f64 \<Rightarrow> f64 \<Rightarrow> f64" where
  "f64_add NaN _ = NaN"
| "f64_add _ NaN = NaN"
| "f64_add PInf NInf = NaN"
| "f64_add NInf PInf = NaN"
| "f64_add PInf _ = PInf"
| "f64_add _ PInf = PInf"
| "f64_add NInf _ = NInf"
| "f64_add _ NInf = NInf"
| "f64_add (Fin x) (Fin y) = f64_of_rat (x + y)"

fun f64_neg :: "f64 \<Rightarrow> f64" where
  "f64_neg NaN = NaN"
| "f64_neg PInf = NInf"
| "f64_neg NInf = PInf"
| "f64_neg (Fin x) = Fin (- x)"

definition f64_sub :: "f64 \<Rightarrow> f64 \<Rightarrow> f64" where
  "f64_sub a b = f64_add a (f64_neg b)"

fun f64_sgn :: "f64 \<Rightarrow> rat" where
  "f64_sgn NaN = 0"
| "f64_sgn PInf = 1"
| "f64_sgn NInf = - 1"
| "f64_sgn (Fin x) = sgn x"

definition f64_inf :: "rat \<Rightarrow> f64" where
  "f64_inf s = (if 0 < s then PInf else if s < 0 then NInf else NaN)"

fun f64_mul :: "f64 \<Rightarrow> f64 \<Rightarrow> f64" where
  "f64_mul NaN _ = NaN"
| "f64_mul _ NaN = NaN"
| "f64_mul (Fin x) (Fin y) = f64_of_rat (x * y)"
| "f64_mul a b = f64_inf (f64_sgn a * f64_sgn b)"

text \<open>Division, of finite operands and a non-zero divisor.\<close>

fun f64_div :: "f64 \<Rightarrow> f64 \<Rightarrow> f64" where
  "f64_div (Fin x) (Fin y) = (if y = 0 then f64_inf (sgn x) else f64_of_rat (x / y))"
| "f64_div _ _ = NaN"

fun f64_lt :: "f64 \<Rightarrow> f64 \<Rightarrow> bool" where
  "f64_lt NaN _ = False"
| "f64_lt _ NaN = False"
| "f64_lt (Fin x) (Fin y) = (x < y)"
| "f64_lt NInf b = (b \<noteq> NInf)"
| "f64_lt a PInf = (a \<noteq> PInf)"
| "f64_lt _ _ = False"

fun f64_le :: "f64 \<Rightarrow> f64 \<Rightarrow> bool" where
  "f64_le NaN _ = False"
| "f64_le _ NaN = False"
| "f64_le (Fin x) (Fin y) = (x \<le> y)"
| "f64_le NInf _ = True"
| "f64_le _ PInf = True"
| "f64_le _ _ = False"

definition f64_finite :: "f64 \<Rightarrow> bool" where
  "f64_finite a \<longleftrightarrow> (\<exists>x. a = Fin x)"

text \<open>
  \<open>int64(x)\<close> truncates towards zero; for a value outside the range the language leaves the
  result to the implementation, which \<open>oor\<close> stands for.
\<close>

definition f64_trunc :: "rat \<Rightarrow> int" where
  "f64_trunc x = (if 0 \<le> x then \<lfloor>x\<rfloor> else \<lceil>x\<rceil>)"

definition f64_to_i64 :: "(f64 \<Rightarrow> int) \<Rightarrow> f64 \<Rightarrow> int" where
  "f64_to_i64 oor a = (case a of
      Fin x \<Rightarrow> if in_i64 (f64_trunc x) then f64_trunc x else oor a
    | _ \<Rightarrow> oor a)"

text \<open>\<open>math.Pow(2, n)\<close> for a non-negative integer \<open>n\<close>.\<close>

definition math_Pow2 :: "nat \<Rightarrow> f64" where
  "math_Pow2 n = (if n < 1024 then Fin (2 ^ n) else PInf)"

lemma f64_of_rat_cases:
  obtains (pinf) "f64_of_rat x = PInf" "2 ^ 1024 \<le> f64_round x"
  | (ninf) "f64_of_rat x = NInf" "f64_round x \<le> - (2 ^ 1024)"
  | (fin) "f64_of_rat x = Fin (f64_round x)" "f64_round x < 2 ^ 1024" "- (2 ^ 1024) < f64_round x"
  by (cases "2 ^ 1024 \<le> f64_round x"; cases "f64_round x \<le> - (2 ^ 1024)") (auto simp: f64_of_rat_def)

lemma f64_of_rat_mono: "x \<le> y \<Longrightarrow> f64_le (f64_of_rat x) (f64_of_rat y)"
  using f64_round_mono [of x y]
  by (auto simp: f64_of_rat_def Let_def)

lemma f64_of_rat_exact:
  "f64_round x = x \<Longrightarrow> \<bar>x\<bar> < 2 ^ 1024 \<Longrightarrow> f64_of_rat x = Fin x"
  by (simp add: f64_of_rat_def abs_less_iff)

lemma f64_of_int_exact: "\<bar>m\<bar> \<le> 2 ^ 53 \<Longrightarrow> f64_of_int m = Fin (of_int m)"
proof -
  assume m: "\<bar>m\<bar> \<le> 2 ^ 53"
  then have "rat_of_int \<bar>m\<bar> \<le> of_int (2 ^ 53)" by (simp only: of_int_le_iff)
  also have "\<dots> < 2 ^ 1024" by simp
  finally show ?thesis using m by (simp add: f64_of_int_def f64_of_rat_exact f64_round_of_int)
qed

lemma f64_lt_irrefl [simp]: "\<not> f64_lt a a"
  by (cases a) auto

lemma f64_lt_asym: "f64_lt a b \<Longrightarrow> \<not> f64_lt b a"
  by (cases a; cases b) auto

lemma f64_lt_neg_trans: "b \<noteq> NaN \<Longrightarrow> \<not> f64_lt a b \<Longrightarrow> \<not> f64_lt b c \<Longrightarrow> \<not> f64_lt a c"
  by (cases a; cases b; cases c) auto

lemma f64_not_lt: "a \<noteq> NaN \<Longrightarrow> b \<noteq> NaN \<Longrightarrow> \<not> f64_lt a b \<longleftrightarrow> f64_le b a"
  by (cases a; cases b) auto

lemma f64_le_refl [simp]: "f64_le a a \<longleftrightarrow> a \<noteq> NaN"
  by (cases a) auto

lemma f64_le_trans: "f64_le a b \<Longrightarrow> f64_le b c \<Longrightarrow> f64_le a c"
  by (cases a; cases b; cases c) auto

lemma f64_of_rat_not_NaN [simp]: "f64_of_rat x \<noteq> NaN"
  by (simp add: f64_of_rat_def Let_def)

lemma f64_of_rat_between:
  assumes "a \<le> x" and "x \<le> b" and "f64_round a = a" and "f64_round b = b" and "0 \<le> a" and "b \<le> 2 ^ 64"
  obtains y where "f64_of_rat x = Fin y" "a \<le> y" "y \<le> b"
proof -
  have r: "a \<le> f64_round x" "f64_round x \<le> b" using f64_round_mono [OF assms(1)] f64_round_mono [OF assms(2)] assms(3,4) by simp_all
  have "(2 :: rat) ^ 64 < 2 ^ 1024" by (rule power_strict_increasing) simp_all
  then have "f64_round x < 2 ^ 1024" using r(2) assms(6) by linarith
  moreover have "- (2 ^ 1024) < f64_round x" using r(1) assms(5) by (rule_tac order.strict_trans2 [of _ 0]) simp_all
  ultimately have "f64_of_rat x = Fin (f64_round x)" by (simp add: f64_of_rat_def)
  with r that show ?thesis by blast
qed

end
