(* ===== verification/Memory_Chain.thy ===== *)
theory Memory_Chain
  imports Errors
begin

text \<open>
  \<^verbatim>\<open>memorychain.go\<close> and the interface \<open>ChainStorage\<close> of \<^verbatim>\<open>ports.go\<close>: sync progress per chain and
  the indexed events, keyed by (chain, block number, log index).
\<close>

section \<open>The interface\<close>

text \<open>
  What an \<open>Indexer\<close> and idempotent listeners rely on. \<open>ls_save\<close> takes the current time beside the
  event, because an implementation stamps the row it inserts.
\<close>

locale chain_storage =
  fixes ls_get :: "string \<Rightarrow> 'st \<Rightarrow> goerr + u64"
    and ls_set :: "string \<Rightarrow> u64 \<Rightarrow> 'st \<Rightarrow> goerr option \<times> 'st"
    and ls_save :: "gotime \<Rightarrow> 'ev \<Rightarrow> 'st \<Rightarrow> goerr option \<times> 'st"
    and ls_indexed :: "'key \<Rightarrow> 'st \<Rightarrow> bool"
    and ls_key :: "'ev \<Rightarrow> 'key"
  assumes get_set_same: "ls_set c n st = (None, st') \<Longrightarrow> ls_get c st' = Inr n"
    and get_set_other: "ls_set c n st = (None, st') \<Longrightarrow> c' \<noteq> c \<Longrightarrow> ls_get c' st' = ls_get c' st"
    and indexed_set: "ls_set c n st = (r, st') \<Longrightarrow> ls_indexed k st' = ls_indexed k st"
    and get_save: "ls_save t e st = (r, st') \<Longrightarrow> ls_get c st' = ls_get c st"
    and save_new: "ls_save t e st = (None, st') \<Longrightarrow> ls_indexed k st' \<longleftrightarrow> k = ls_key e \<or> ls_indexed k st"
    and save_duplicate: "ls_indexed (ls_key e) st \<Longrightarrow> ls_save t e st = (None, st)"
begin

fun save_all :: "(gotime \<times> 'ev) list \<Rightarrow> 'st \<Rightarrow> goerr option \<times> 'st" where
  "save_all [] st = (None, st)"
| "save_all ((t, e) # es) st = (case ls_save t e st of
     (Some err, st') \<Rightarrow> (Some err, st') | (None, st') \<Rightarrow> save_all es st')"

lemma save_all_indexed:
  "save_all es st = (None, st') \<Longrightarrow>
   ls_indexed k st' \<longleftrightarrow> k \<in> (ls_key \<circ> snd) ` set es \<or> ls_indexed k st"
proof (induction es arbitrary: st)
  case Nil
  then show ?case by simp
next
  case (Cons te es)
  obtain t e where te: "te = (t, e)" by (cases te)
  with Cons.prems obtain st1 where "ls_save t e st = (None, st1)" "save_all es st1 = (None, st')"
    by (auto split: prod.splits option.splits)
  with Cons.IH te show ?case by (auto simp: save_new)
qed

lemma save_all_duplicates:
  "\<forall>te \<in> set es. ls_indexed (ls_key (snd te)) st \<Longrightarrow> save_all es st = (None, st)"
  by (induction es arbitrary: st) (auto simp: save_duplicate)

text \<open>
  Re-delivery is harmless: once a batch has been saved, saving any of its events again, at any
  later time and in any order and number, changes nothing.
\<close>

lemma save_all_replay:
  assumes "save_all es st = (None, st')" and "(ls_key \<circ> snd) ` set es' \<subseteq> (ls_key \<circ> snd) ` set es"
  shows "save_all es' st' = (None, st')"
proof (rule save_all_duplicates, rule ballI)
  fix te
  assume "te \<in> set es'"
  with assms(2) have "ls_key (snd te) \<in> (ls_key \<circ> snd) ` set es" by auto
  with save_all_indexed [OF assms(1)] show "ls_indexed (ls_key (snd te)) st'" by blast
qed

end

section \<open>The in-memory implementation\<close>

record IndexedEvent =
  ev_ID :: int
  ev_Chain :: string
  ev_BlockNumber :: u64
  ev_TxHash :: string
  ev_Address :: string
  ev_Topics :: string
  ev_Data :: string
  ev_LogIndex :: u64
  ev_IndexedAt :: gotime

record eventKey =
  ek_chain :: string
  ek_blockNumber :: u64
  ek_logIndex :: u64

text \<open>
  The map of events is an association list with distinct keys; its order is that of the
  insertions, while Go's \<open>range\<close> visits a map in an arbitrary order.
\<close>

record MemoryChainStorage =
  lastBlocks :: "string \<rightharpoonup> u64"
  events :: "(eventKey \<times> IndexedEvent) list"
  nextEventID :: int

definition NewMemoryChainStorage :: MemoryChainStorage where
  "NewMemoryChainStorage = \<lparr>lastBlocks = Map.empty, events = [], nextEventID = 0\<rparr>"

definition GetLastBlock :: "string \<Rightarrow> MemoryChainStorage \<Rightarrow> goerr + u64" where
  "GetLastBlock chain m = Inr (case lastBlocks m chain of None \<Rightarrow> 0 | Some n \<Rightarrow> n)"

definition SetLastBlock ::
  "string \<Rightarrow> u64 \<Rightarrow> MemoryChainStorage \<Rightarrow> goerr option \<times> MemoryChainStorage" where
  "SetLastBlock chain blockNum m = (None, m\<lparr>lastBlocks := (lastBlocks m)(chain \<mapsto> blockNum)\<rparr>)"

definition event_key :: "IndexedEvent \<Rightarrow> eventKey" where
  "event_key e = \<lparr>ek_chain = ev_Chain e, ek_blockNumber = ev_BlockNumber e, ek_logIndex = ev_LogIndex e\<rparr>"

text \<open>The event is \<open>None\<close> for a nil pointer; \<open>now\<close> is the value of \<open>time.Now().UTC()\<close>.\<close>

definition SaveIndexedEvent ::
  "gotime \<Rightarrow> IndexedEvent option \<Rightarrow> MemoryChainStorage \<Rightarrow> goerr option \<times> MemoryChainStorage" where
  "SaveIndexedEvent now event m = (case event of
      None \<Rightarrow> (Some (ErrNew ''idx: event is nil''), m)
    | Some e \<Rightarrow>
        let key = event_key e in
        if map_of (events m) key \<noteq> None then (None, m)
        else let n = i64 (nextEventID m + 1);
                 stored = e\<lparr>ev_ID := n, ev_IndexedAt := now\<rparr>
             in (None, m\<lparr>nextEventID := n, events := events m @ [(key, stored)]\<rparr>))"

definition event_less :: "IndexedEvent \<Rightarrow> IndexedEvent \<Rightarrow> bool" where
  "event_less a b = (if ev_BlockNumber a \<noteq> ev_BlockNumber b then ev_BlockNumber a < ev_BlockNumber b
                     else ev_LogIndex a < ev_LogIndex b)"

definition event_in :: "string \<Rightarrow> u64 \<Rightarrow> u64 \<Rightarrow> IndexedEvent \<Rightarrow> bool" where
  "event_in chain fromBlock toBlock e \<longleftrightarrow>
     ev_Chain e = chain \<and> fromBlock \<le> ev_BlockNumber e \<and> ev_BlockNumber e \<le> toBlock"

text \<open>\<open>es\<close> are the values of the map in the order in which \<open>range\<close> visits them.\<close>

definition collect_events :: "string \<Rightarrow> u64 \<Rightarrow> u64 \<Rightarrow> IndexedEvent list \<Rightarrow> IndexedEvent list" where
  "collect_events chain fromBlock toBlock es =
     sort_Slice event_less (filter (event_in chain fromBlock toBlock) es)"

definition GetIndexedEvents :: "string \<Rightarrow> u64 \<Rightarrow> u64 \<Rightarrow> MemoryChainStorage \<Rightarrow> goerr + IndexedEvent list" where
  "GetIndexedEvents chain fromBlock toBlock m =
     Inr (collect_events chain fromBlock toBlock (map snd (events m)))"

definition IsEventIndexed :: "string \<Rightarrow> u64 \<Rightarrow> u64 \<Rightarrow> MemoryChainStorage \<Rightarrow> goerr + bool" where
  "IsEventIndexed chain blockNumber logIndex m =
     Inr (map_of (events m) \<lparr>ek_chain = chain, ek_blockNumber = blockNumber, ek_logIndex = logIndex\<rparr> \<noteq> None)"

section \<open>Well-formed storages\<close>

definition chain_Close :: "MemoryChainStorage \<Rightarrow> goerr option \<times> MemoryChainStorage" where
  "chain_Close m = (None, m)"

definition chain_store_inv :: "MemoryChainStorage \<Rightarrow> bool" where
  "chain_store_inv m \<longleftrightarrow> distinct (map fst (events m)) \<and> (\<forall>(k, e) \<in> set (events m). k = event_key e)"

lemma chain_store_inv_New [simp]: "chain_store_inv NewMemoryChainStorage"
  by (simp add: chain_store_inv_def NewMemoryChainStorage_def)

lemma event_key_stamp [simp]: "event_key (e\<lparr>ev_ID := n, ev_IndexedAt := t\<rparr>) = event_key e"
  by (simp add: event_key_def)

lemma chain_store_inv_Save:
  "chain_store_inv m \<Longrightarrow> SaveIndexedEvent t e m = (r, m') \<Longrightarrow> chain_store_inv m'"
  by (auto simp: chain_store_inv_def SaveIndexedEvent_def Let_def map_of_eq_None_iff
      split: option.splits if_splits)

lemma chain_store_inv_Set:
  "chain_store_inv m \<Longrightarrow> SetLastBlock c n m = (r, m') \<Longrightarrow> chain_store_inv m'"
  by (auto simp: chain_store_inv_def SetLastBlock_def)

definition key_indexed :: "eventKey \<Rightarrow> MemoryChainStorage \<Rightarrow> bool" where
  "key_indexed k m \<longleftrightarrow> map_of (events m) k \<noteq> None"

interpretation memory_chain: chain_storage GetLastBlock SetLastBlock
  "\<lambda>t e. SaveIndexedEvent t (Some e)" key_indexed event_key
  by unfold_locales
    (auto simp: SetLastBlock_def GetLastBlock_def SaveIndexedEvent_def key_indexed_def Let_def
      map_add_def split: option.splits if_splits)

interpretation event_order: slice_order event_less UNIV
  by unfold_locales (auto simp: event_less_def split: if_splits)

lemma event_less_total:
  "event_key a \<noteq> event_key b \<Longrightarrow> ev_Chain a = ev_Chain b \<Longrightarrow> event_less a b \<or> event_less b a"
  by (auto simp: event_less_def event_key_def)

lemma store_events_keys_inj:
  assumes "chain_store_inv m" and "a \<in> set (map snd (events m))" and "b \<in> set (map snd (events m))"
    and "event_key a = event_key b"
  shows "a = b"
proof -
  from assms(1-3) have "(event_key a, a) \<in> set (events m)" and "(event_key b, b) \<in> set (events m)"
    by (auto simp: chain_store_inv_def)
  with assms(1,4) show ?thesis by (auto simp: chain_store_inv_def dest: eq_key_imp_eq_value)
qed

lemma collect_events_order_irrelevant:
  assumes "chain_store_inv m" and "mset es = mset (map snd (events m))"
  shows "collect_events c a b es = collect_events c a b (map snd (events m))"
  unfolding collect_events_def
proof (rule event_order.sort_Slice_cong [where f = "\<lambda>e. e"])
  show "mset (filter (event_in c a b) es) = mset (filter (event_in c a b) (map snd (events m)))"
    using assms(2) by (simp only: mset_filter)
  have "set es = set (map snd (events m))" using assms(2) by (metis set_mset_mset)
  then show "event_less x y \<or> event_less y x"
    if "x \<in> set (filter (event_in c a b) es)" "y \<in> set (filter (event_in c a b) es)" "x \<noteq> y" for x y
    using that store_events_keys_inj [OF assms(1), of x y]
    by (intro event_less_total) (auto simp: event_in_def)
qed simp

lemma collect_events_sorted:
  "sorted_wrt (\<lambda>x y. \<not> event_less y x) (collect_events c a b es)"
  unfolding collect_events_def by (rule event_order.sorted_sort_Slice [where f = "\<lambda>e. e"]) simp

lemma set_collect_events: "set (collect_events c a b es) = {e \<in> set es. event_in c a b e}"
  by (simp add: collect_events_def)

section \<open>Properties\<close>

text \<open>A batch of events saved one after the other, each at its own time, up to the first error.\<close>

definition save_events :: "(gotime \<times> IndexedEvent) list \<Rightarrow> MemoryChainStorage \<Rightarrow> goerr option \<times> MemoryChainStorage" where
  "save_events es m = memory_chain.save_all es m"

text \<open>An event for the examples below.\<close>

definition demo_event :: "u64 \<Rightarrow> u64 \<Rightarrow> IndexedEvent" where
  "demo_event n i = \<lparr>ev_ID = 0, ev_Chain = ''c'', ev_BlockNumber = n, ev_TxHash = [], ev_Address = [], ev_Topics = [],
     ev_Data = [], ev_LogIndex = i, ev_IndexedAt = 0\<rparr>"

text \<open>
  C31: Re-delivery is harmless. Saving a batch of events always succeeds, afterwards every one of them is
  indexed, and saving any of them again, at any later time, in any order and number, changes nothing.
\<close>

theorem event_store_replay:
  assumes "save_events es m = (r, m')" and "event_key ` snd ` set es' \<subseteq> event_key ` snd ` set es"
  shows "r = None \<and> save_events es' m' = (None, m') \<and>
         (\<forall>(t, e) \<in> set es. IsEventIndexed (ev_Chain e) (ev_BlockNumber e) (ev_LogIndex e) m' = Inr True)"
proof -
  have "fst (memory_chain.save_all es m) = None" for m
    by (induction es arbitrary: m) (auto simp: SaveIndexedEvent_def Let_def)
  then have r: "r = None" using assms(1) by (metis fst_conv save_events_def)
  note saved = assms(1) [unfolded save_events_def r]
  have "key_indexed (event_key e) m'" if "(t, e) \<in> set es" for t e
    using memory_chain.save_all_indexed [OF saved, of "event_key e"] that by force
  then have "IsEventIndexed (ev_Chain e) (ev_BlockNumber e) (ev_LogIndex e) m' = Inr True" if "(t, e) \<in> set es" for t e
    using that by (auto simp: IsEventIndexed_def key_indexed_def event_key_def)
  moreover have "save_events es' m' = (None, m')"
    using memory_chain.save_all_replay [OF saved, of es'] assms(2) by (simp add: save_events_def image_comp)
  ultimately show ?thesis using r by auto
qed

theorem event_store_replay_witness:
  "\<exists>m'. save_events [(7, demo_event 3 1), (8, demo_event 3 2)] NewMemoryChainStorage = (None, m') \<and>
     save_events [(9, demo_event 3 2), (9, demo_event 3 2)] m' = (None, m') \<and> IsEventIndexed ''c'' 3 1 m' = Inr True"
proof -
  let ?es = "[(7, demo_event 3 1), (8, demo_event 3 2)]"
  obtain r m' where s: "save_events ?es NewMemoryChainStorage = (r, m')" by (rule prod.exhaust)
  from event_store_replay [OF s, of "[(9, demo_event 3 2), (9, demo_event 3 2)]"] s show ?thesis
    by (auto simp: demo_event_def)
qed

text \<open>
  C32: \<open>GetIndexedEvents\<close> answers a range query correctly: it returns exactly the stored events of the
  chain in the closed block range, in ascending order of block and log index, and the result does not
  depend on the order in which Go visits the map.
\<close>

theorem indexed_events_query:
  assumes "chain_store_inv m" and "mset es = mset (map snd (events m))"
  shows "GetIndexedEvents c a b m = Inr (collect_events c a b es) \<and>
         set (collect_events c a b es) =
           {e \<in> snd ` set (events m). ev_Chain e = c \<and> a \<le> ev_BlockNumber e \<and> ev_BlockNumber e \<le> b} \<and>
         sorted_wrt (\<lambda>x y. ev_BlockNumber x < ev_BlockNumber y \<or>
           ev_BlockNumber x = ev_BlockNumber y \<and> ev_LogIndex x \<le> ev_LogIndex y) (collect_events c a b es)"
proof -
  have "set es = snd ` set (events m)" using assms(2) by (metis set_mset_mset set_map)
  moreover have "sorted_wrt (\<lambda>x y. ev_BlockNumber x < ev_BlockNumber y \<or>
      ev_BlockNumber x = ev_BlockNumber y \<and> ev_LogIndex x \<le> ev_LogIndex y) (collect_events c a b es)"
    by (rule sorted_wrt_mono_rel [OF _ collect_events_sorted]) (auto simp: event_less_def split: if_splits)
  ultimately show ?thesis
    using collect_events_order_irrelevant [OF assms, of c a b]
    by (auto simp: GetIndexedEvents_def set_collect_events event_in_def)
qed

theorem indexed_events_query_witness:
  "let m = snd (save_events [(7, demo_event 5 0), (8, demo_event 3 1)] NewMemoryChainStorage)
   in GetIndexedEvents ''c'' 3 5 m = Inr (collect_events ''c'' 3 5 (rev (map snd (events m)))) \<and>
      set (collect_events ''c'' 3 5 (rev (map snd (events m)))) = snd ` set (events m) \<and> length (events m) = 2"
proof -
  define m where "m = snd (save_events [(7, demo_event 5 0), (8, demo_event 3 1)] NewMemoryChainStorage)"
  have e: "events m = [(event_key (demo_event 5 0), (demo_event 5 0)\<lparr>ev_ID := 1, ev_IndexedAt := 7\<rparr>),
      (event_key (demo_event 3 1), (demo_event 3 1)\<lparr>ev_ID := 2, ev_IndexedAt := 8\<rparr>)]"
    by (simp add: m_def save_events_def SaveIndexedEvent_def NewMemoryChainStorage_def demo_event_def event_key_def Let_def i64_def)
  then have "chain_store_inv m" by (simp add: chain_store_inv_def event_key_def demo_event_def)
  note q = indexed_events_query [OF this, of "rev (map snd (events m))" "''c''" 3 5]
  have "{e \<in> snd ` set (events m). ev_Chain e = ''c'' \<and> 3 \<le> ev_BlockNumber e \<and> ev_BlockNumber e \<le> 5} = snd ` set (events m)"
    unfolding e by (auto simp: demo_event_def)
  with q have "GetIndexedEvents ''c'' 3 5 m = Inr (collect_events ''c'' 3 5 (rev (map snd (events m)))) \<and>
      set (collect_events ''c'' 3 5 (rev (map snd (events m)))) = snd ` set (events m)" by simp
  moreover have "length (events m) = 2" by (simp add: e)
  ultimately show ?thesis unfolding m_def Let_def by blast
qed

end
