(* ===== verification/Memory_Rows.thy ===== *)
theory Memory_Rows
  imports Errors Go_Float "HOL-Library.AList"
begin

text \<open>
  \<^verbatim>\<open>memoryscore.go\<close> and \<^verbatim>\<open>memoryquota.go\<close>: the two optional storages \<open>ScoreStorage\<close> and
  \<open>QuotaStorage\<close> of \<^verbatim>\<open>ports.go\<close>. Both keep one row per key and overwrite it in place, keeping
  the row's id; the interface below states that contract once.
\<close>

section \<open>The interface: one row per key, written in place\<close>

locale row_storage =
  fixes rs_get :: "'k \<Rightarrow> 'st \<Rightarrow> goerr + 'row option"
    and rs_put :: "gotime \<Rightarrow> 'k \<Rightarrow> 'v \<Rightarrow> 'st \<Rightarrow> goerr option \<times> 'st"
    and rs_written :: "'row \<Rightarrow> gotime \<times> 'k \<times> 'v"
    and rs_id :: "'row \<Rightarrow> int"
  assumes get_put_same: "\<exists>row. rs_get k (snd (rs_put t k v st)) = Inr (Some row) \<and> rs_written row = (t, k, v)"
    and get_put_other: "k' \<noteq> k \<Longrightarrow> rs_get k' (snd (rs_put t k v st)) = rs_get k' st"
    and put_keeps_id: "rs_get k st = Inr (Some row) \<Longrightarrow> rs_get k (snd (rs_put t k v st)) = Inr (Some row') \<Longrightarrow> rs_id row' = rs_id row"
begin

fun put_all :: "(gotime \<times> 'k \<times> 'v) list \<Rightarrow> 'st \<Rightarrow> 'st" where
  "put_all [] st = st"
| "put_all ((t, k, v) # ws) st = put_all ws (snd (rs_put t k v st))"

lemma put_all_snoc [simp]: "put_all (ws @ [(t, k, v)]) st = snd (rs_put t k v (put_all ws st))"
  by (induction ws arbitrary: st) auto

text \<open>Reading back: what the last write to the key has written, or what was there before.\<close>

lemma get_put_all:
  "case find (\<lambda>(t, k', v). k' = k) (rev ws) of
     Some w \<Rightarrow> \<exists>row. rs_get k (put_all ws st) = Inr (Some row) \<and> rs_written row = w
   | None \<Rightarrow> rs_get k (put_all ws st) = rs_get k st"
proof (induction ws rule: rev_induct)
  case (snoc w ws)
  obtain t k' v where w: "w = (t, k', v)" by (cases w)
  show ?case
  proof (cases "k' = k")
    case True
    with w get_put_same [of k t v "put_all ws st"] show ?thesis by simp
  next
    case False
    with w snoc get_put_other [of k k' t v "put_all ws st"] show ?thesis by (auto split: option.splits)
  qed
qed simp

lemma put_all_keeps_id:
  "rs_get k st = Inr (Some row) \<Longrightarrow> \<exists>row'. rs_get k (put_all ws st) = Inr (Some row') \<and> rs_id row' = rs_id row"
proof (induction ws rule: rev_induct)
  case (snoc w ws)
  obtain t k' v where w: "w = (t, k', v)" by (cases w)
  from snoc obtain row1 where r: "rs_get k (put_all ws st) = Inr (Some row1)" "rs_id row1 = rs_id row" by blast
  show ?case
  proof (cases "k' = k")
    case True
    with w r get_put_same [of k t v "put_all ws st"] put_keeps_id [OF r(1), of t v] show ?thesis by auto
  next
    case False
    with w r get_put_other [of k k' t v "put_all ws st"] show ?thesis by simp
  qed
qed simp

end

section \<open>Provider scores\<close>

record ProviderScore =
  ps_ID :: int
  ps_Provider :: string
  ps_Score :: f64
  ps_Penalty :: f64
  ps_UpdatedAt :: gotime

record MemoryScoreStorage =
  scores :: "(string \<times> ProviderScore) list"
  nextScoreID :: int

definition NewMemoryScoreStorage :: MemoryScoreStorage where
  "NewMemoryScoreStorage = \<lparr>scores = [], nextScoreID = 0\<rparr>"

definition GetProviderScore :: "string \<Rightarrow> MemoryScoreStorage \<Rightarrow> goerr + ProviderScore option" where
  "GetProviderScore provider m = Inr (map_of (scores m) provider)"

definition SetProviderScore ::
  "gotime \<Rightarrow> string \<Rightarrow> f64 \<Rightarrow> f64 \<Rightarrow> MemoryScoreStorage \<Rightarrow> goerr option \<times> MemoryScoreStorage" where
  "SetProviderScore now provider score penalty m =
     (let (id, next) = (case map_of (scores m) provider of
              Some existing \<Rightarrow> (ps_ID existing, nextScoreID m)
            | None \<Rightarrow> (i64 (nextScoreID m + 1), i64 (nextScoreID m + 1)))
      in (None, m\<lparr>nextScoreID := next,
                  scores := AList.update provider
                    \<lparr>ps_ID = id, ps_Provider = provider, ps_Score = score, ps_Penalty = penalty,
                     ps_UpdatedAt = now\<rparr> (scores m)\<rparr>))"

text \<open>Go compares strings byte by byte.\<close>

fun string_less :: "string \<Rightarrow> string \<Rightarrow> bool" where
  "string_less _ [] = False"
| "string_less [] (_ # _) = True"
| "string_less (c # cs) (d # ds) =
     ((of_char c :: nat) < of_char d \<or> c = d \<and> string_less cs ds)"

lemma string_less_lexord: "string_less a b \<longleftrightarrow> (a, b) \<in> lexord {(c, d). (of_char c :: nat) < of_char d}"
  by (induction a b rule: string_less.induct) auto

definition score_less :: "ProviderScore \<Rightarrow> ProviderScore \<Rightarrow> bool" where
  "score_less a b = string_less (ps_Provider a) (ps_Provider b)"

definition collect_scores :: "ProviderScore list \<Rightarrow> ProviderScore list" where
  "collect_scores rows = sort_Slice score_less rows"

definition GetAllProviderScores :: "MemoryScoreStorage \<Rightarrow> goerr + ProviderScore list" where
  "GetAllProviderScores m = Inr (collect_scores (map snd (scores m)))"

definition score_store_inv :: "MemoryScoreStorage \<Rightarrow> bool" where
  "score_store_inv m \<longleftrightarrow> distinct (map fst (scores m)) \<and> (\<forall>(k, r) \<in> set (scores m). k = ps_Provider r)"

interpretation score_table: row_storage GetProviderScore "\<lambda>t k (score, penalty). SetProviderScore t k score penalty"
  "\<lambda>r. (ps_UpdatedAt r, ps_Provider r, ps_Score r, ps_Penalty r)" ps_ID
  by unfold_locales
    (auto simp: GetProviderScore_def SetProviderScore_def Let_def update_conv' split: option.splits prod.splits)

lemma score_store_inv_New [simp]: "score_store_inv NewMemoryScoreStorage"
  by (simp add: score_store_inv_def NewMemoryScoreStorage_def)

lemma score_store_inv_Set:
  assumes "score_store_inv m" and "SetProviderScore t k s p m = (r, m')"
  shows "score_store_inv m'"
proof -
  from assms(1) have d: "distinct (map fst (scores m))" and k: "\<forall>(k, r) \<in> set (scores m). k = ps_Provider r"
    by (auto simp: score_store_inv_def)
  from assms(2) obtain row where m': "scores m' = AList.update k row (scores m)" "ps_Provider row = k"
    by (auto simp: SetProviderScore_def Let_def split: option.splits)
  have "x = ps_Provider y" if "(x, y) \<in> set (scores m')" for x y
  proof -
    have "map_of (scores m') x = Some y"
      using that m'(1) d by (simp add: distinct_update map_of_is_SomeI)
    then show ?thesis using m' k by (auto simp: update_conv' split: if_splits dest: map_of_SomeD)
  qed
  with d m' show ?thesis by (auto simp: score_store_inv_def distinct_update)
qed

interpretation score_order: slice_order score_less UNIV
proof unfold_locales
  have trans: "trans (lexord {(c, d). (of_char c :: nat) < of_char d})"
    by (rule lexord_transI) (auto simp: trans_def)
  have total: "string_less a b \<or> a = b \<or> string_less b a" for a b
    unfolding string_less_lexord
    by (rule lexord_linear) (use linorder_less_linear in fastforce)
  have irrefl: "\<not> string_less a a" for a
    unfolding string_less_lexord by (rule lexord_irreflexive) auto
  fix a b c
  show "score_less a b \<Longrightarrow> \<not> score_less b a"
    using trans irrefl unfolding score_less_def string_less_lexord by (meson transD)
  show "\<not> score_less a b \<Longrightarrow> \<not> score_less b c \<Longrightarrow> \<not> score_less a c"
    using trans total unfolding score_less_def string_less_lexord by (metis transD)
qed

lemma score_less_total: "ps_Provider a \<noteq> ps_Provider b \<Longrightarrow> score_less a b \<or> score_less b a"
  unfolding score_less_def string_less_lexord
  using lexord_linear [of "{(c, d). (of_char c :: nat) < of_char d}"] linorder_less_linear by fastforce

lemma collect_scores_order_irrelevant:
  assumes "score_store_inv m" and "mset rows = mset (map snd (scores m))"
  shows "collect_scores rows = collect_scores (map snd (scores m))"
  unfolding collect_scores_def
proof (rule score_order.sort_Slice_cong [where f = "\<lambda>r. r", OF assms(2)])
  have set_rows: "set rows = set (map snd (scores m))" using assms(2) by (metis set_mset_mset)
  fix a b
  assume ab: "a \<in> set rows" "b \<in> set rows" "a \<noteq> b"
  with set_rows assms(1) have "(ps_Provider a, a) \<in> set (scores m)" "(ps_Provider b, b) \<in> set (scores m)"
    by (auto simp: score_store_inv_def)
  with ab assms(1) have "ps_Provider a \<noteq> ps_Provider b"
    by (auto simp: score_store_inv_def dest: eq_key_imp_eq_value)
  then show "score_less a b \<or> score_less b a" by (rule score_less_total)
qed simp

section \<open>Quota usage\<close>

record QuotaUsage =
  qu_ID :: int
  qu_Provider :: string
  qu_QuotaType :: string
  qu_Used :: int
  qu_ResetAt :: gotime
  qu_UpdatedAt :: gotime

type_synonym quotaKey = "string \<times> string"

record MemoryQuotaStorage =
  quota_rows :: "quotaKey \<rightharpoonup> QuotaUsage"
  nextQuotaID :: int

definition NewMemoryQuotaStorage :: MemoryQuotaStorage where
  "NewMemoryQuotaStorage = \<lparr>quota_rows = Map.empty, nextQuotaID = 0\<rparr>"

definition GetQuotaUsage :: "string \<Rightarrow> string \<Rightarrow> MemoryQuotaStorage \<Rightarrow> goerr + QuotaUsage option" where
  "GetQuotaUsage provider quotaType m = Inr (quota_rows m (provider, quotaType))"

definition SetQuotaUsage ::
  "gotime \<Rightarrow> string \<Rightarrow> string \<Rightarrow> int \<Rightarrow> gotime \<Rightarrow> MemoryQuotaStorage \<Rightarrow> goerr option \<times> MemoryQuotaStorage" where
  "SetQuotaUsage now provider quotaType used resetAt m =
     (let key = (provider, quotaType);
          (id, next) = (case quota_rows m key of
              Some existing \<Rightarrow> (qu_ID existing, nextQuotaID m)
            | None \<Rightarrow> (i64 (nextQuotaID m + 1), i64 (nextQuotaID m + 1)))
      in (None, m\<lparr>nextQuotaID := next,
                  quota_rows := (quota_rows m)(key \<mapsto>
                    \<lparr>qu_ID = id, qu_Provider = provider, qu_QuotaType = quotaType, qu_Used = used,
                     qu_ResetAt = resetAt, qu_UpdatedAt = now\<rparr>)\<rparr>))"

interpretation quota_table: row_storage "\<lambda>(provider, quotaType). GetQuotaUsage provider quotaType"
  "\<lambda>t (provider, quotaType) (used, resetAt). SetQuotaUsage t provider quotaType used resetAt"
  "\<lambda>r. (qu_UpdatedAt r, (qu_Provider r, qu_QuotaType r), (qu_Used r, qu_ResetAt r))" qu_ID
  by unfold_locales
    (auto simp: GetQuotaUsage_def SetQuotaUsage_def Let_def split: option.splits prod.splits)

lemma find_hit: "find Q xs = Some x \<Longrightarrow> Q x"
  by (auto simp: find_Some_iff)

section \<open>Listing\<close>

lemma score_store_inv_put_all: "score_store_inv m \<Longrightarrow> score_store_inv (score_table.put_all ws m)"
proof (induction ws rule: rev_induct)
  case (snoc w ws)
  obtain t k x y where w: "w = (t, k, x, y)" by (cases w)
  from score_store_inv_Set [OF snoc.IH [OF snoc.prems] prod.collapse [symmetric], of t k x y] show ?case by (simp add: w)
qed simp

lemma score_store_row:
  assumes "score_store_inv m"
  shows "row \<in> snd ` set (scores m) \<longleftrightarrow> GetProviderScore (ps_Provider row) m = Inr (Some row)"
proof -
  have d: "distinct (map fst (scores m))" and k: "\<And>k r. (k, r) \<in> set (scores m) \<Longrightarrow> k = ps_Provider r"
    using assms by (auto simp: score_store_inv_def)
  have "GetProviderScore (ps_Provider row) m = Inr (Some row) \<longleftrightarrow> (ps_Provider row, row) \<in> set (scores m)"
    using d by (simp add: GetProviderScore_def)
  also have "\<dots> \<longleftrightarrow> row \<in> snd ` set (scores m)" using k by force
  finally show ?thesis by simp
qed

lemma distinct_keys: "distinct (map f xs) \<Longrightarrow> sorted_wrt (\<lambda>a b. f a \<noteq> f b) xs"
  by (induction xs) auto

lemma collect_scores_strict:
  assumes inv: "score_store_inv m"
  shows "sorted_wrt score_less (collect_scores (map snd (scores m)))"
proof -
  let ?rs = "collect_scores (map snd (scores m))"
  have sd: "sorted_wrt (\<lambda>a b. \<not> score_less b a) ?rs"
    unfolding collect_scores_def using score_order.sorted_sort_Slice [where f = "\<lambda>r. r"] by simp
  have "map fst (scores m) = map ps_Provider (map snd (scores m))" using inv by (auto simp: score_store_inv_def)
  then have "distinct (map ps_Provider (map snd (scores m)))" using inv unfolding score_store_inv_def by (metis (no_types))
  moreover have "mset ?rs = mset (map snd (scores m))" by (simp add: collect_scores_def)
  then have "mset (map ps_Provider ?rs) = mset (map ps_Provider (map snd (scores m)))" by (metis mset_map)
  ultimately have "distinct (map ps_Provider ?rs)" by (metis mset_eq_imp_distinct_iff)
  then have "sorted_wrt (\<lambda>a b. ps_Provider a \<noteq> ps_Provider b) ?rs"
    by (rule distinct_keys)
  with sd show ?thesis unfolding sorted_wrt_iff_nth_less using score_less_total by blast
qed

section \<open>Properties\<close>

text \<open>
  C33: The score and quota tables are read back as written. After any sequence of writes, \<open>GetProviderScore\<close> and
  \<open>GetQuotaUsage\<close> return for a key the row of the last write to it, with its values, key and time, and if there was none
  exactly what they returned before (nothing, in a new storage); a row keeps the ID it was created with.
\<close>

theorem rows_read_back:
  fixes m :: MemoryScoreStorage and ws :: "(gotime \<times> string \<times> f64 \<times> f64) list"
    and q :: MemoryQuotaStorage and qs :: "(gotime \<times> quotaKey \<times> int \<times> gotime) list"
  defines "m' \<equiv> score_table.put_all ws m" and "q' \<equiv> quota_table.put_all qs q"
  shows "(case find (\<lambda>(t, k, v). k = p) (rev ws) of
       Some (t, k, score, penalty) \<Rightarrow> \<exists>row. GetProviderScore p m' = Inr (Some row) \<and>
         ps_Provider row = p \<and> ps_Score row = score \<and> ps_Penalty row = penalty \<and> ps_UpdatedAt row = t
     | None \<Rightarrow> GetProviderScore p m' = GetProviderScore p m) \<and>
   (case find (\<lambda>(t, k, v). k = (p, ty)) (rev qs) of
       Some (t, k, used, resetAt) \<Rightarrow> \<exists>row. GetQuotaUsage p ty q' = Inr (Some row) \<and> qu_Provider row = p \<and>
         qu_QuotaType row = ty \<and> qu_Used row = used \<and> qu_ResetAt row = resetAt \<and> qu_UpdatedAt row = t
     | None \<Rightarrow> GetQuotaUsage p ty q' = GetQuotaUsage p ty q) \<and>
   (\<forall>row. GetProviderScore p m = Inr (Some row) \<longrightarrow>
      (\<exists>row'. GetProviderScore p m' = Inr (Some row') \<and> ps_ID row' = ps_ID row)) \<and>
   (\<forall>row. GetQuotaUsage p ty q = Inr (Some row) \<longrightarrow>
      (\<exists>row'. GetQuotaUsage p ty q' = Inr (Some row') \<and> qu_ID row' = qu_ID row))"
proof (intro conjI)
  show "case find (\<lambda>(t, k, v). k = p) (rev ws) of
       Some (t, k, score, penalty) \<Rightarrow> \<exists>row. GetProviderScore p m' = Inr (Some row) \<and>
         ps_Provider row = p \<and> ps_Score row = score \<and> ps_Penalty row = penalty \<and> ps_UpdatedAt row = t
     | None \<Rightarrow> GetProviderScore p m' = GetProviderScore p m"
    using score_table.get_put_all [of p ws m] by (auto simp: m'_def split: option.splits dest: find_hit)
  show "case find (\<lambda>(t, k, v). k = (p, ty)) (rev qs) of
       Some (t, k, used, resetAt) \<Rightarrow> \<exists>row. GetQuotaUsage p ty q' = Inr (Some row) \<and> qu_Provider row = p \<and>
         qu_QuotaType row = ty \<and> qu_Used row = used \<and> qu_ResetAt row = resetAt \<and> qu_UpdatedAt row = t
     | None \<Rightarrow> GetQuotaUsage p ty q' = GetQuotaUsage p ty q"
    using quota_table.get_put_all [of "(p, ty)" qs q] by (auto simp: q'_def split: option.splits dest: find_hit)
qed (use score_table.put_all_keeps_id [of p m _ ws] quota_table.put_all_keeps_id [of "(p, ty)" q _ qs] in \<open>auto simp: m'_def q'_def\<close>)

theorem rows_read_back_witness:
  "(\<exists>row. GetProviderScore ''a'' (score_table.put_all [(1, ''a'', (Fin 1, Fin 0)), (2, ''b'', (Fin 2, Fin 0)), (3, ''a'', (Fin 3, Fin 0))]
        NewMemoryScoreStorage) = Inr (Some row) \<and> ps_Score row = Fin 3 \<and> ps_UpdatedAt row = 3) \<and>
   GetQuotaUsage ''a'' ''credits'' (quota_table.put_all [(1, (''a'', ''requests''), (5, 9))] NewMemoryQuotaStorage) = Inr None"
  using rows_read_back [where ws = "[(1, ''a'', (Fin 1, Fin 0)), (2, ''b'', (Fin 2, Fin 0)), (3, ''a'', (Fin 3, Fin 0))]"
      and m = NewMemoryScoreStorage and p = "''a''" and ty = "''credits''" and qs = "[(1, (''a'', ''requests''), (5, 9))]" and q = NewMemoryQuotaStorage]
  by (auto simp: GetQuotaUsage_def NewMemoryQuotaStorage_def)

text \<open>
  C34: The list of all scores. After any sequence of writes to a new storage \<open>GetAllProviderScores\<close> returns exactly the rows
  \<open>GetProviderScore\<close> returns for some provider, each once, in the byte order of the providers' names, whatever the order
  in which Go visits the map.
\<close>

theorem all_scores_query:
  fixes ws :: "(gotime \<times> string \<times> f64 \<times> f64) list"
  defines "m \<equiv> score_table.put_all ws NewMemoryScoreStorage"
  assumes visit: "mset rows = mset (map snd (scores m))"
  shows "GetAllProviderScores m = Inr (collect_scores rows) \<and>
    (\<forall>row. row \<in> set (collect_scores rows) \<longleftrightarrow> GetProviderScore (ps_Provider row) m = Inr (Some row)) \<and>
    sorted_wrt (\<lambda>a b. (ps_Provider a, ps_Provider b) \<in> lexord {(c, d). (of_char c :: nat) < of_char d}) (collect_scores rows)"
proof -
  have inv: "score_store_inv m" unfolding m_def by (rule score_store_inv_put_all) simp
  have eq: "collect_scores rows = collect_scores (map snd (scores m))" by (rule collect_scores_order_irrelevant [OF inv visit])
  moreover have "set (collect_scores (map snd (scores m))) = snd ` set (scores m)" by (simp add: collect_scores_def)
  ultimately show ?thesis
    using score_store_row [OF inv] collect_scores_strict [OF inv, unfolded score_less_def string_less_lexord]
    by (simp add: GetAllProviderScores_def)
qed

theorem all_scores_query_witness:
  "\<exists>rows. GetAllProviderScores (score_table.put_all [(1, ''b'', (Fin 1, Fin 0)), (2, ''a'', (Fin 2, Fin 0))] NewMemoryScoreStorage) = Inr rows \<and>
     map ps_Provider rows = [''a'', ''b'']"
proof -
  let ?m = "score_table.put_all [(1, ''b'', (Fin 1, Fin 0)), (2, ''a'', (Fin 2, Fin 0))] NewMemoryScoreStorage"
  let ?row = "\<lambda>i p x. \<lparr>ps_ID = i, ps_Provider = p, ps_Score = Fin x, ps_Penalty = Fin 0, ps_UpdatedAt = i\<rparr>"
  have m: "map snd (scores ?m) = [?row 1 ''b'' 1, ?row 2 ''a'' 2]"
    by (simp add: SetProviderScore_def NewMemoryScoreStorage_def i64_def)
  then have "mset [?row 2 ''a'' 2, ?row 1 ''b'' 1] = mset (map snd (scores ?m))" by simp
  from all_scores_query [OF this] show ?thesis by (simp add: collect_scores_def sort_Slice_def score_less_def)
qed

end
