(* ===== verification/Ports.thy ===== *)
theory Ports
  imports Errors Eth_Types Go_Float Memory_Chain Memory_Rows
begin

text \<open>
  The interfaces of \<^verbatim>\<open>ports.go\<close>. A value of an interface type is the
  record of its methods, as functions on the state \<open>'s\<close> of everything behind the interfaces (pool,
  storage, dispatcher, listeners, network, clock). An optional capability, which the code tests by a
  type assertion, is an \<open>option\<close>.
\<close>

text \<open>Two interfaces with a single method: \<open>RestoreQuotaUsage\<close> and \<open>IsRangeTooLargeError\<close>.\<close>

type_synonym 's QuotaRestorer = "int \<Rightarrow> gotime \<Rightarrow> 's \<Rightarrow> 's"

type_synonym 's RangeTooLargeClassifier = "'s \<Rightarrow> goerr option \<Rightarrow> bool"

text \<open>
  \<open>RPCProvider\<close>: a provider, as its methods on the state of the pool that owns it. The last field is
  the method of \<open>QuotaRestorer\<close>, if the provider implements that too. The result of \<open>Close\<close> is a
  panic, if any.
\<close>

record 's RPCProvider =
  rp_Name :: "'s \<Rightarrow> string"
  rp_Priority :: "'s \<Rightarrow> int"
  rp_Score :: "'s \<Rightarrow> f64"
  rp_SetScore :: "f64 \<Rightarrow> 's \<Rightarrow> 's"
  rp_IsAvailable :: "'s \<Rightarrow> bool \<times> 's"
  rp_RecordSuccess :: "'s \<Rightarrow> 's"
  rp_RecordFailure :: "goerr \<Rightarrow> 's \<Rightarrow> 's"
  rp_Close :: "'s \<Rightarrow> goerr option \<times> 's"
  rp_MaxLogBlockRange :: "'s \<Rightarrow> int"
  rp_BlockByNumber :: "u64 \<Rightarrow> 's \<Rightarrow> (goerr + block) \<times> 's"
  rp_BlockByHash :: "hash \<Rightarrow> 's \<Rightarrow> (goerr + block) \<times> 's"
  rp_TransactionByHash :: "hash \<Rightarrow> 's \<Rightarrow> (goerr + transaction \<times> bool) \<times> 's"
  rp_TransactionReceipt :: "hash \<Rightarrow> 's \<Rightarrow> (goerr + receipt) \<times> 's"
  rp_FilterLogs :: "FilterQuery \<Rightarrow> 's \<Rightarrow> (goerr + log list) \<times> 's"
  rp_SubscribeNewHead :: "'s \<Rightarrow> (goerr + nat) \<times> 's"
  rp_HeaderByNumber :: "int \<Rightarrow> 's \<Rightarrow> (goerr + header) \<times> 's"
  rp_BlockNumber :: "'s \<Rightarrow> (goerr + u64) \<times> 's"
  rp_BalanceAt :: "address \<Rightarrow> 's \<Rightarrow> (goerr + int) \<times> 's"
  rp_Call :: "callmsg \<Rightarrow> 's \<Rightarrow> (goerr + bytes) \<times> 's"
  rp_CodeAt :: "address \<Rightarrow> 's \<Rightarrow> (goerr + bytes) \<times> 's"
  rp_RestoreQuotaUsage :: "'s QuotaRestorer option"

text \<open>\<open>ParallelBackfiller\<close>. A call that does not return is \<open>None\<close>.\<close>

record 's ParallelBackfiller =
  pb_ParallelLogPlan :: "'s \<Rightarrow> (int \<times> int) \<times> 's"
  pb_LogsByBlockRangeParallel :: "u64 \<Rightarrow> u64 \<Rightarrow> 's \<Rightarrow> ((goerr + log list) \<times> 's) option"

record 's ScoreStorage =
  ss_GetProviderScore :: "string \<Rightarrow> 's \<Rightarrow> (goerr + ProviderScore option) \<times> 's"
  ss_SetProviderScore :: "string \<Rightarrow> f64 \<Rightarrow> f64 \<Rightarrow> 's \<Rightarrow> goerr option \<times> 's"
  ss_GetAllProviderScores :: "'s \<Rightarrow> (goerr + ProviderScore list) \<times> 's"

record 's QuotaStorage =
  qs_GetQuotaUsage :: "string \<Rightarrow> string \<Rightarrow> 's \<Rightarrow> (goerr + QuotaUsage option) \<times> 's"
  qs_SetQuotaUsage :: "string \<Rightarrow> string \<Rightarrow> int \<Rightarrow> gotime \<Rightarrow> 's \<Rightarrow> goerr option \<times> 's"

text \<open>
  \<open>ProviderPool\<close>. A nil provider is \<open>None\<close>. The map \<open>GetScores\<close> returns is listed in the order in which
  \<open>range\<close> visits it. The last two fields are the capabilities \<open>ParallelBackfiller\<close> and
  \<open>RangeTooLargeClassifier\<close>.
\<close>

record 's ProviderPool =
  pp_GetProvider :: "'s \<Rightarrow> 's RPCProvider option \<times> 's"
  pp_GetAllProviders :: "'s \<Rightarrow> 's RPCProvider option list"
  pp_RecordSuccess :: "'s RPCProvider \<Rightarrow> 's \<Rightarrow> 's"
  pp_RecordFailure :: "'s RPCProvider \<Rightarrow> goerr \<Rightarrow> 's \<Rightarrow> 's"
  pp_GetScores :: "'s \<Rightarrow> (string \<times> f64) list \<times> 's"
  pp_PersistQuotaUsage :: "'s QuotaStorage \<Rightarrow> 's \<Rightarrow> goerr option \<times> 's"
  pp_Close :: "'s \<Rightarrow> goerr option \<times> 's"
  pp_BlockByNumber :: "u64 \<Rightarrow> 's \<Rightarrow> (goerr + block) \<times> 's"
  pp_BlockByHash :: "hash \<Rightarrow> 's \<Rightarrow> (goerr + block) \<times> 's"
  pp_TransactionByHash :: "hash \<Rightarrow> 's \<Rightarrow> (goerr + transaction \<times> bool) \<times> 's"
  pp_TransactionReceipt :: "hash \<Rightarrow> 's \<Rightarrow> (goerr + receipt) \<times> 's"
  pp_FilterLogs :: "FilterQuery \<Rightarrow> 's \<Rightarrow> (goerr + log list) \<times> 's"
  pp_LogsByBlockNumber :: "u64 \<Rightarrow> 's \<Rightarrow> (goerr + log list) \<times> 's"
  pp_LogsByBlockRange :: "u64 \<Rightarrow> u64 \<Rightarrow> 's \<Rightarrow> (goerr + log list) \<times> 's"
  pp_SubscribeNewHead :: "'s \<Rightarrow> (goerr + nat) \<times> 's"
  pp_HeaderByNumber :: "int \<Rightarrow> 's \<Rightarrow> (goerr + header) \<times> 's"
  pp_BlockNumber :: "'s \<Rightarrow> (goerr + u64) \<times> 's"
  pp_BalanceAt :: "address \<Rightarrow> 's \<Rightarrow> (goerr + int) \<times> 's"
  pp_CodeAt :: "address \<Rightarrow> 's \<Rightarrow> (goerr + bytes) \<times> 's"
  pp_MaxLogBlockRange :: "'s \<Rightarrow> int \<times> 's"
  pp_parallel :: "'s ParallelBackfiller option"
  pp_IsRangeTooLargeError :: "'s RangeTooLargeClassifier option"

text \<open>
  \<open>ChainStorage\<close>, with the optional capabilities \<open>ScoreStorage\<close> and \<open>QuotaStorage\<close>. A storage that has
  both is a \<open>Storage\<close>.
\<close>

record 's ChainStorage =
  cs_GetLastBlock :: "string \<Rightarrow> 's \<Rightarrow> (goerr + u64) \<times> 's"
  cs_SetLastBlock :: "string \<Rightarrow> u64 \<Rightarrow> 's \<Rightarrow> goerr option \<times> 's"
  cs_SaveIndexedEvent :: "IndexedEvent option \<Rightarrow> 's \<Rightarrow> goerr option \<times> 's"
  cs_GetIndexedEvents :: "string \<Rightarrow> u64 \<Rightarrow> u64 \<Rightarrow> 's \<Rightarrow> (goerr + IndexedEvent list) \<times> 's"
  cs_IsEventIndexed :: "string \<Rightarrow> u64 \<Rightarrow> u64 \<Rightarrow> 's \<Rightarrow> (goerr + bool) \<times> 's"
  cs_Close :: "'s \<Rightarrow> goerr option \<times> 's"
  cs_scores :: "'s ScoreStorage option"
  cs_quotas :: "'s QuotaStorage option"

definition is_Storage :: "'s ChainStorage \<Rightarrow> bool" where
  "is_Storage st \<longleftrightarrow> cs_scores st \<noteq> None \<and> cs_quotas st \<noteq> None"

record 's BlockchainEventDispatcher =
  bd_Dispatch :: "log \<Rightarrow> u64 \<Rightarrow> 's \<Rightarrow> goerr option \<times> 's"
  bd_Close :: "'s \<Rightarrow> 's"

text \<open>
  The runtime as the sync loop sees it: \<open>rs_After\<close> is the \<open>select\<close> between \<open>ctx.Done()\<close>, \<open>True\<close>, and
  \<open>time.After(d)\<close>, \<open>False\<close>; \<open>rs_OnExhausted\<close> is the callback of \<open>WithOnExhausted\<close>.
\<close>

record 's sync_runtime =
  rs_After :: "duration \<Rightarrow> 's \<Rightarrow> bool \<times> 's"
  rs_OnExhausted :: "goerr \<Rightarrow> 's \<Rightarrow> 's"

record 's ports =
  pt_pool :: "'s ProviderPool"
  pt_storage :: "'s ChainStorage"
  pt_dispatcher :: "'s BlockchainEventDispatcher"
  pt_runtime :: "'s sync_runtime"

end
