(* ===== verification/Config.thy ===== *)
theory Config
  imports Errors Go_Float Eth_Types
begin

text \<open>
  \<^verbatim>\<open>config.go\<close> and \<^verbatim>\<open>ethclient.go\<close>: the configuration structs and the client interface value.
\<close>

section \<open>Client interface values\<close>

text \<open>
  A value of the interface type \<open>EthClient\<close>: the nil interface, a non-nil interface that holds a
  nil \<open>*ethclient.Client\<close>, or a usable client, which lives in the world under a handle.
\<close>

datatype EthClient = NilIface | NilPtr | ClientPtr nat

type_synonym 'w DialFunc = "string \<Rightarrow> 'w \<Rightarrow> (EthClient \<times> goerr option) \<times> 'w"

text \<open>
  \<open>dialEthClient\<close> returns the pair of \<open>ethclient.DialContext\<close> (a pointer, \<open>None\<close> for nil, and an
  error) as \<open>(EthClient, error)\<close>. Go converts the pointer to the interface type, so a nil pointer
  becomes an interface value that is not nil.
\<close>

definition dialEthClient :: "(string \<Rightarrow> 'w \<Rightarrow> (nat option \<times> goerr option) \<times> 'w) \<Rightarrow> 'w DialFunc" where
  "dialEthClient DialContext rawurl w = (case DialContext rawurl w of
     ((ptr, err), w') \<Rightarrow> ((case ptr of None \<Rightarrow> NilPtr | Some h \<Rightarrow> ClientPtr h, err), w'))"

section \<open>Configuration structs\<close>

record RateLimitConfig =
  rlc_Enabled :: bool
  rlc_RPS :: f64
  rlc_Burst :: int

record CircuitBreakerConfig =
  cbc_Enabled :: bool
  cbc_Threshold :: int
  cbc_Timeout :: duration
  cbc_HalfOpenMaxCalls :: int
  cbc_FilterErrors :: "string list"

record RetryConfig =
  rc_MaxAttempts :: int
  rc_BaseDelay :: duration
  rc_MaxDelay :: duration
  rc_Jitter :: bool

record CreditsConfig =
  cc_Enabled :: bool
  cc_PerRequest :: int
  cc_Limit :: int
  cc_Period :: duration

record QuotaConfig =
  qc_Limit :: int
  qc_Period :: duration
  qc_Credits :: "CreditsConfig option"

record 'w ProviderConfig =
  pc_Name :: string
  pc_URL :: string
  pc_APIKey :: string
  pc_Priority :: int
  pc_Quota :: QuotaConfig
  pc_RateLimit :: RateLimitConfig
  pc_CircuitBreaker :: CircuitBreakerConfig
  pc_Retry :: RetryConfig
  pc_RequestTimeout :: duration
  pc_Dial :: "'w DialFunc option"
  pc_MaxLogBlockRange :: int

record 'w PoolConfig =
  plc_Providers :: "'w ProviderConfig list"
  plc_UpdateInterval :: duration
  plc_MaxLogBlockRange :: int
  plc_MaxParallelJobAttempts :: int
  plc_RangeTooLargeFilters :: "string list"
  plc_LogAddresses :: "address list"
  plc_LogTopics :: "hash list list"

record IndexerConfig =
  ic_Chain :: string
  ic_StartBlock :: u64
  ic_BlockInterval :: duration
  ic_MaxConsecutiveProviderExhaustion :: int
  ic_ProviderExhaustionRestartDelay :: duration
  ic_DebugMode :: bool
  ic_ReorgDepth :: int

end
