(* ===== verification/Exhaustion.thy ===== *)
theory Exhaustion
  imports Go_Prelude
begin

text \<open>
  \<^verbatim>\<open>exhaustion.go\<close>: the counter of consecutive sync attempts that found no available provider.
\<close>

record ExhaustionTracker =
  threshold :: int
  consecutive :: int

definition NewExhaustionTracker :: "int \<Rightarrow> ExhaustionTracker" where
  "NewExhaustionTracker t =
     \<lparr>threshold = (if t < 1 then 1 else t), consecutive = 0\<rparr>"

definition Observe :: "bool \<Rightarrow> ExhaustionTracker \<Rightarrow> bool \<times> ExhaustionTracker" where
  "Observe providerAvailable t =
     (if providerAvailable then (False, t\<lparr>consecutive := 0\<rparr>)
      else let t' = t\<lparr>consecutive := i64 (consecutive t + 1)\<rparr>
           in (threshold t' \<le> consecutive t', t'))"

definition Consecutive :: "ExhaustionTracker \<Rightarrow> int" where
  "Consecutive t = consecutive t"

text \<open>The tracker after a sequence of observations, oldest first.\<close>

fun observe_all :: "bool list \<Rightarrow> ExhaustionTracker \<Rightarrow> ExhaustionTracker" where
  "observe_all [] t = t"
| "observe_all (a # as) t = observe_all as (snd (Observe a t))"

text \<open>The specification: the number of observations since the last available provider.\<close>

definition streak :: "bool list \<Rightarrow> nat" where
  "streak as = length (takeWhile Not (rev as))"

lemma streak_simps [simp]:
  "streak [] = 0"
  "streak (as @ [True]) = 0"
  "streak (as @ [False]) = Suc (streak as)"
  by (simp_all add: streak_def)

lemma streak_le_length: "streak as \<le> length as"
  using length_takeWhile_le [of Not "rev as"] by (simp add: streak_def)

lemma threshold_Observe [simp]: "threshold (snd (Observe a t)) = threshold t"
  by (simp add: Observe_def Let_def)

lemma observe_all_append [simp]:
  "observe_all (as @ bs) t = observe_all bs (observe_all as t)"
  by (induction as arbitrary: t) auto

lemma threshold_observe_all [simp]: "threshold (observe_all as t) = threshold t"
  by (induction as arbitrary: t) auto

lemma consecutive_observe_all:
  assumes "length as < 2 ^ 63" and "consecutive t = 0"
  shows "consecutive (observe_all as t) = int (streak as)"
  using assms(1)
proof (induction as rule: rev_induct)
  case Nil
  with assms(2) show ?case by simp
next
  case (snoc a as)
  then have bound: "int (streak as) + 1 < 2 ^ 63"
    using streak_le_length [of as] by simp
  from snoc bound show ?case
    by (cases a) (simp_all add: Observe_def Let_def in_i64_def)
qed

section \<open>Refinement\<close>

text \<open>
  The tracker refines its specification. After any sequence of observations, \<open>Consecutive\<close> is the number
  of observations since the last one that found a provider, and the next \<open>Observe\<close> reports exhaustion
  exactly when that number reaches the threshold (at least 1).
\<close>

lemma exhaustion_count:
  "length as < 2 ^ 63 \<Longrightarrow> Consecutive (observe_all as (NewExhaustionTracker n)) = int (streak as)"
  "length as < 2 ^ 63 - 1 \<Longrightarrow>
     fst (Observe a (observe_all as (NewExhaustionTracker n))) \<longleftrightarrow> max 1 n \<le> int (streak (as @ [a]))"
proof -
  have c: "consecutive (observe_all as (NewExhaustionTracker n)) = int (streak as)" if "length as < 2 ^ 63"
    using that by (intro consecutive_observe_all) (auto simp: NewExhaustionTracker_def)
  then show "Consecutive (observe_all as (NewExhaustionTracker n)) = int (streak as)" if "length as < 2 ^ 63"
    using that by (simp add: Consecutive_def)
  assume len: "length as < 2 ^ 63 - 1"
  then have "int (streak as) + 1 < 2 ^ 63" using streak_le_length [of as] by simp
  with c len show "fst (Observe a (observe_all as (NewExhaustionTracker n))) \<longleftrightarrow> max 1 n \<le> int (streak (as @ [a]))"
    by (cases a) (auto simp: Observe_def Let_def in_i64_def NewExhaustionTracker_def)
qed

end
