(* ===== verification/Nudge.thy ===== *)
theory Nudge
  imports Go_Prelude
begin

text \<open>
  \<^verbatim>\<open>nudge.go\<close>: the coalescing wake-up signal, a channel of capacity 1. The channel is the list
  of values it buffers; a send to a full channel takes the \<open>default\<close> branch of the \<open>select\<close>.
\<close>

record NudgeSignal =
  ch :: "unit list"

definition nudge_cap :: nat where
  "nudge_cap = 1"

definition NewNudgeSignal :: NudgeSignal where
  "NewNudgeSignal = \<lparr>ch = []\<rparr>"

definition Fire :: "NudgeSignal \<Rightarrow> NudgeSignal" where
  "Fire s = (if length (ch s) < nudge_cap then s\<lparr>ch := ch s @ [()]\<rparr> else s)"

text \<open>A receive from \<open>C()\<close>: \<open>None\<close> when it would block.\<close>

definition recv_C :: "NudgeSignal \<Rightarrow> NudgeSignal option" where
  "recv_C s = (case ch s of [] \<Rightarrow> None | _ # rest \<Rightarrow> Some (s\<lparr>ch := rest\<rparr>))"

definition nudge_inv :: "NudgeSignal \<Rightarrow> bool" where
  "nudge_inv s \<longleftrightarrow> length (ch s) \<le> nudge_cap"

lemma nudge_inv_New [simp]: "nudge_inv NewNudgeSignal"
  by (simp add: nudge_inv_def NewNudgeSignal_def)

lemma nudge_inv_Fire [simp]: "nudge_inv s \<Longrightarrow> nudge_inv (Fire s)"
  by (auto simp: nudge_inv_def Fire_def nudge_cap_def)

lemma nudge_inv_recv: "nudge_inv s \<Longrightarrow> recv_C s = Some s' \<Longrightarrow> nudge_inv s'"
  by (auto simp: nudge_inv_def recv_C_def split: list.splits)

lemma Fire_pending: "nudge_inv s \<Longrightarrow> ch (Fire s) = [()]"
  by (cases "ch s") (auto simp: nudge_inv_def Fire_def nudge_cap_def)

lemma Fire_many: "nudge_inv s \<Longrightarrow> ch ((Fire ^^ Suc n) s) = [()]"
proof (induction n)
  case 0
  then show ?case by (simp add: Fire_pending)
next
  case (Suc n)
  then have "nudge_inv ((Fire ^^ Suc n) s)" by (simp add: nudge_inv_def nudge_cap_def)
  then show ?case by (simp add: Fire_pending)
qed

section \<open>Properties\<close>

text \<open>
  Nudges coalesce. However often \<open>Fire\<close> is called on a signal the package can be in, exactly one
  wake-up is pending afterwards: one receive succeeds and leaves the signal empty.
\<close>

lemma nudges_coalesce:
  assumes "nudge_inv s"
  shows "recv_C ((Fire ^^ Suc n) s) = Some (s\<lparr>ch := []\<rparr>) \<and> recv_C (s\<lparr>ch := []\<rparr>) = None"
proof -
  have "(Fire ^^ Suc n) s = s\<lparr>ch := [()]\<rparr>" using Fire_many [OF assms, of n] by simp
  then show ?thesis by (simp add: recv_C_def)
qed

end
