(* ===== verification/Indexer.thy ===== *)
theory Indexer
  imports Ports Config Exhaustion Nudge
begin

text \<open>
  \<^verbatim>\<open>indexer.go\<close>: the sync engine. The methods take the interfaces (\<open>ports\<close>), the \<open>Indexer\<close> and the
  state behind the interfaces, and return the error, the updated \<open>Indexer\<close> and that state. A
  \<open>for\<close> loop over block numbers is a \<open>go_for\<close>, so a method that runs for ever is \<open>None\<close>. Logging has
  no effect on the state and is left out.
\<close>

section \<open>State\<close>

text \<open>
  \<open>ix_cancelled\<close> tells whether \<open>ctx\<close> has been cancelled, \<open>ix_running_loops\<close> is the counter of \<open>wg\<close>,
  and \<open>ix_stopPhase\<close> is how far the function of \<open>stopOnce\<close> has got. The fields \<open>pool\<close>, \<open>storage\<close>,
  \<open>dispatcher\<close> and \<open>onExhausted\<close>, which hold interfaces and a callback, are the \<open>ports\<close>.
\<close>

datatype logger = slog_Default | Logger nat

datatype stop_phase = NotStopped | Stopping | Waited | Flagged | Stopped

record Indexer =
  ix_config :: IndexerConfig
  ix_logger :: logger
  ix_isRunning :: bool
  ix_stopped :: bool
  ix_cancelled :: bool
  ix_running_loops :: nat
  ix_stopPhase :: stop_phase
  ix_exhaustion :: ExhaustionTracker
  ix_nudge :: NudgeSignal
  ix_reorgDepth :: int
  ix_recentHashes :: "u64 \<rightharpoonup> hash"
  ix_hashOrder :: "u64 list"

definition defaultMaxConsecutiveProviderExhaustion :: int where
  "defaultMaxConsecutiveProviderExhaustion = 5"

definition defaultProviderExhaustionRestartDelay :: duration where
  "defaultProviderExhaustionRestartDelay = 15000000000"

section \<open>Construction\<close>

definition restore_score :: "'s ports \<Rightarrow> 's RPCProvider \<Rightarrow> 's \<Rightarrow> 's" where
  "restore_score P p s = (case cs_scores (pt_storage P) of
      None \<Rightarrow> s
    | Some sc \<Rightarrow> (case ss_GetProviderScore sc (rp_Name p s) s of
          (Inl err, s') \<Rightarrow> s'
        | (Inr None, s') \<Rightarrow> s'
        | (Inr (Some row), s') \<Rightarrow> rp_SetScore p (ps_Score row) s'))"

definition restore_quota :: "'s ports \<Rightarrow> 's RPCProvider \<Rightarrow> 's \<Rightarrow> 's" where
  "restore_quota P p s = (case cs_quotas (pt_storage P) of
      None \<Rightarrow> s
    | Some qs \<Rightarrow>
        (case rp_RestoreQuotaUsage p of
           None \<Rightarrow> s
         | Some restorer \<Rightarrow>
             (case qs_GetQuotaUsage qs (rp_Name p s) ''requests'' s of
                (Inl err, s') \<Rightarrow> s'
              | (Inr None, s') \<Rightarrow> s'
              | (Inr (Some u), s') \<Rightarrow> restorer (qu_Used u) (qu_ResetAt u) s')))"

fun restore_all :: "'s ports \<Rightarrow> 's RPCProvider option list \<Rightarrow> 's \<Rightarrow> 's" where
  "restore_all P [] s = s"
| "restore_all P (None # ps) s = restore_all P ps s"
| "restore_all P (Some p # ps) s = restore_all P ps (restore_quota P p (restore_score P p s))"

definition restoreProviderState :: "'s ports \<Rightarrow> 's \<Rightarrow> 's" where
  "restoreProviderState P s =
     (if cs_scores (pt_storage P) = None \<and> cs_quotas (pt_storage P) = None then s
      else restore_all P (pp_GetAllProviders (pt_pool P) s) s)"

text \<open>
  An \<open>Option\<close> is a function on the indexer under construction; these are the ones the package makes. A
  nil argument is \<open>None\<close>.
\<close>

definition WithLogger :: "logger option \<Rightarrow> 's ports \<times> Indexer \<Rightarrow> 's ports \<times> Indexer" where
  "WithLogger logger = (\<lambda>(P, i). case logger of None \<Rightarrow> (P, i) | Some l \<Rightarrow> (P, i\<lparr>ix_logger := l\<rparr>))"

definition WithOnExhausted :: "(goerr \<Rightarrow> 's \<Rightarrow> 's) option \<Rightarrow> 's ports \<times> Indexer \<Rightarrow> 's ports \<times> Indexer" where
  "WithOnExhausted fn = (\<lambda>(P, i). case fn of None \<Rightarrow> (P, i)
     | Some f \<Rightarrow> (P\<lparr>pt_runtime := (pt_runtime P)\<lparr>rs_OnExhausted := f\<rparr>\<rparr>, i))"

datatype 's Option = OptLogger "logger option" | OptOnExhausted "(goerr \<Rightarrow> 's \<Rightarrow> 's) option"

fun apply_opts :: "'s Option list \<Rightarrow> 's ports \<times> Indexer \<Rightarrow> 's ports \<times> Indexer" where
  "apply_opts [] x = x"
| "apply_opts (OptLogger l # opts) x = apply_opts opts (WithLogger l x)"
| "apply_opts (OptOnExhausted f # opts) x = apply_opts opts (WithOnExhausted f x)"

lemma apply_opts_effect:
  "apply_opts opts (P, i) = (P', i') \<Longrightarrow>
   (\<exists>l. i' = i\<lparr>ix_logger := l\<rparr>) \<and> (\<exists>f. P' = P\<lparr>pt_runtime := (pt_runtime P)\<lparr>rs_OnExhausted := f\<rparr>\<rparr>)"
proof (induction opts arbitrary: P i)
  case Nil
  then have "i' = i\<lparr>ix_logger := ix_logger i\<rparr>"
    "P' = P\<lparr>pt_runtime := (pt_runtime P)\<lparr>rs_OnExhausted := rs_OnExhausted (pt_runtime P)\<rparr>\<rparr>" by simp_all
  then show ?case by blast
next
  case (Cons opt opts)
  show ?case
  proof (cases opt)
    case (OptLogger l)
    with Cons.prems have "apply_opts opts (P, case l of None \<Rightarrow> i | Some l \<Rightarrow> i\<lparr>ix_logger := l\<rparr>) = (P', i')"
      by (cases l) (simp_all add: WithLogger_def)
    from Cons.IH [OF this] show ?thesis by (cases l) auto
  next
    case (OptOnExhausted f)
    with Cons.prems have "apply_opts opts (case f of None \<Rightarrow> P
        | Some f \<Rightarrow> P\<lparr>pt_runtime := (pt_runtime P)\<lparr>rs_OnExhausted := f\<rparr>\<rparr>, i) = (P', i')"
      by (cases f) (simp_all add: WithOnExhausted_def)
    from Cons.IH [OF this] show ?thesis by (cases f) auto
  qed
qed

text \<open>\<open>after\<close> is the \<open>select\<close> between the new context and a timer.\<close>

definition NewIndexer :: "IndexerConfig \<Rightarrow> 's ProviderPool option \<Rightarrow> 's ChainStorage option \<Rightarrow>
    's BlockchainEventDispatcher option \<Rightarrow> 's Option list \<Rightarrow> (duration \<Rightarrow> 's \<Rightarrow> bool \<times> 's) \<Rightarrow> 's \<Rightarrow>
    (goerr + 's ports \<times> Indexer) \<times> 's" where
  "NewIndexer cfg pool storage dispatcher opts after s =
     (case pool of None \<Rightarrow> (Inl (ErrNew ''idx: pool is required''), s) | Some pl \<Rightarrow>
      case storage of None \<Rightarrow> (Inl (ErrNew ''idx: storage is required''), s) | Some st \<Rightarrow>
      case dispatcher of None \<Rightarrow> (Inl (ErrNew ''idx: dispatcher is required''), s) | Some d \<Rightarrow>
      if ic_Chain cfg = [] then (Inl (ErrNew ''idx: chain is required''), s)
      else if ic_BlockInterval cfg \<le> 0 then (Inl (ErrNew ''idx: BlockInterval must be positive''), s)
      else
        let n = (if ic_MaxConsecutiveProviderExhaustion cfg \<le> 0 then defaultMaxConsecutiveProviderExhaustion
                 else ic_MaxConsecutiveProviderExhaustion cfg);
            delay = (if ic_ProviderExhaustionRestartDelay cfg \<le> 0 then defaultProviderExhaustionRestartDelay
                     else ic_ProviderExhaustionRestartDelay cfg);
            cfg' = cfg\<lparr>ic_MaxConsecutiveProviderExhaustion := n, ic_ProviderExhaustionRestartDelay := delay\<rparr>;
            P = \<lparr>pt_pool = pl, pt_storage = st, pt_dispatcher = d,
                 pt_runtime = \<lparr>rs_After = after, rs_OnExhausted = (\<lambda>err s. s)\<rparr>\<rparr>;
            idx = \<lparr>ix_config = cfg', ix_logger = slog_Default, ix_isRunning = False, ix_stopped = False, ix_cancelled = False,
                   ix_running_loops = 0, ix_stopPhase = NotStopped,
                   ix_exhaustion = NewExhaustionTracker n, ix_nudge = NewNudgeSignal,
                   ix_reorgDepth = ic_ReorgDepth cfg', ix_recentHashes = Map.empty, ix_hashOrder = []\<rparr>;
            (P', idx') = apply_opts opts (P, idx)
        in (Inr (P', idx'), restoreProviderState P' s))"

section \<open>Progress and hash bookkeeping\<close>

definition getLastBlock :: "'s ports \<Rightarrow> Indexer \<Rightarrow> 's \<Rightarrow> (goerr + u64) \<times> 's" where
  "getLastBlock P idx s =
     (if ic_DebugMode (ix_config idx) then (Inr 0, s)
      else cs_GetLastBlock (pt_storage P) (ic_Chain (ix_config idx)) s)"

definition storeLastBlock :: "'s ports \<Rightarrow> Indexer \<Rightarrow> u64 \<Rightarrow> 's \<Rightarrow> goerr option \<times> 's" where
  "storeLastBlock P idx blockNum s =
     (if ic_DebugMode (ix_config idx) then (None, s)
      else cs_SetLastBlock (pt_storage P) (ic_Chain (ix_config idx)) blockNum s)"

text \<open>The trimming loop of \<open>recordBlockHash\<close>: the oldest entries go first.\<close>

fun trim_hashes :: "int \<Rightarrow> u64 list \<Rightarrow> (u64 \<rightharpoonup> hash) \<Rightarrow> u64 list \<times> (u64 \<rightharpoonup> hash)" where
  "trim_hashes depth [] m = ([], m)"
| "trim_hashes depth (b # bs) m =
     (if depth < int (length (b # bs)) then trim_hashes depth bs (m(b := None)) else (b # bs, m))"

definition recordBlockHash :: "u64 \<Rightarrow> hash \<Rightarrow> Indexer \<Rightarrow> Indexer" where
  "recordBlockHash blockNum hash idx =
     (if ix_reorgDepth idx \<le> 0 then idx
      else let order = (if ix_recentHashes idx blockNum = None then ix_hashOrder idx @ [blockNum]
                        else ix_hashOrder idx);
               (order', m') = trim_hashes (ix_reorgDepth idx) order ((ix_recentHashes idx)(blockNum \<mapsto> hash))
           in idx\<lparr>ix_hashOrder := order', ix_recentHashes := m'\<rparr>)"

fun prune :: "u64 \<Rightarrow> u64 list \<Rightarrow> u64 list \<Rightarrow> (u64 \<rightharpoonup> hash) \<Rightarrow> u64 list \<times> (u64 \<rightharpoonup> hash)" where
  "prune blockNum [] kept m = (kept, m)"
| "prune blockNum (b # bs) kept m =
     (if blockNum < b then prune blockNum bs kept (m(b := None)) else prune blockNum bs (kept @ [b]) m)"

definition pruneHashesAbove :: "u64 \<Rightarrow> Indexer \<Rightarrow> Indexer" where
  "pruneHashesAbove blockNum idx =
     (case prune blockNum (ix_hashOrder idx) [] (ix_recentHashes idx) of
        (kept, m) \<Rightarrow> idx\<lparr>ix_hashOrder := kept, ix_recentHashes := m\<rparr>)"

definition rewind_target :: "u64 \<Rightarrow> int \<Rightarrow> u64 \<Rightarrow> u64" where
  "rewind_target startBlock depth lastBlock =
     (if to_u64 depth < lastBlock \<and> startBlock < lastBlock - to_u64 depth
      then lastBlock - to_u64 depth else startBlock)"

definition detectReorgRewind :: "'s ports \<Rightarrow> u64 \<Rightarrow> Indexer \<Rightarrow> 's \<Rightarrow> (goerr + u64) \<times> Indexer \<times> 's" where
  "detectReorgRewind P lastBlock idx s =
     (if ix_reorgDepth idx \<le> 0 \<or> lastBlock = 0 then (Inr lastBlock, idx, s)
      else case ix_recentHashes idx lastBlock of
        None \<Rightarrow> (Inr lastBlock, idx, s)
      | Some wantHash \<Rightarrow>
          (case pp_HeaderByNumber (pt_pool P) (big_SetUint64 lastBlock) s of
             (Inl err, s1) \<Rightarrow> (Inl (errorf_w ''failed to verify chain tip for reorg check: '' err), idx, s1)
           | (Inr header, s1) \<Rightarrow>
               if hdr_Hash header = wantHash then (Inr lastBlock, idx, s1)
               else let rewindTo = rewind_target (ic_StartBlock (ix_config idx)) (ix_reorgDepth idx) lastBlock in
                 (case storeLastBlock P idx rewindTo s1 of
                    (Some err, s2) \<Rightarrow>
                      (Inl (errorf_w ''failed to persist rewound last block after reorg: '' err), idx, s2)
                  | (None, s2) \<Rightarrow> (Inr rewindTo, pruneHashesAbove rewindTo idx, s2))))"

fun save_scores :: "'s ScoreStorage \<Rightarrow> (string \<times> f64) list \<Rightarrow> 's \<Rightarrow> 's" where
  "save_scores sc [] s = s"
| "save_scores sc ((provider, score) # xs) s =
     save_scores sc xs (snd (ss_SetProviderScore sc provider score (Fin 0) s))"

definition persistProviderState :: "'s ports \<Rightarrow> 's \<Rightarrow> 's" where
  "persistProviderState P s =
     (let s1 = (case cs_scores (pt_storage P) of
                  None \<Rightarrow> s
                | Some sc \<Rightarrow> (case pp_GetScores (pt_pool P) s of (xs, s') \<Rightarrow> save_scores sc xs s'))
      in case cs_quotas (pt_storage P) of
           None \<Rightarrow> s1
         | Some qs \<Rightarrow> snd (pp_PersistQuotaUsage (pt_pool P) qs s1))"

section \<open>The sequential path\<close>

definition block_error :: "string \<Rightarrow> u64 \<Rightarrow> goerr \<Rightarrow> goerr" where
  "block_error what blockNum err = errorf_w (what @ fmt_u64 blockNum @ '': '') err"

fun dispatch_logs :: "'s ports \<Rightarrow> u64 \<Rightarrow> log list \<Rightarrow> 's \<Rightarrow> goerr option \<times> 's" where
  "dispatch_logs P blockTime [] s = (None, s)"
| "dispatch_logs P blockTime (l # ls) s = (case bd_Dispatch (pt_dispatcher P) l blockTime s of
      (Some err, s') \<Rightarrow> (Some err, s')
    | (None, s') \<Rightarrow> dispatch_logs P blockTime ls s')"

definition processBlock :: "'s ports \<Rightarrow> u64 \<Rightarrow> Indexer \<Rightarrow> 's \<Rightarrow> goerr option \<times> Indexer \<times> 's" where
  "processBlock P blockNum idx s =
     (case pp_HeaderByNumber (pt_pool P) (big_SetUint64 blockNum) s of
        (Inl err, s1) \<Rightarrow> (Some (block_error ''failed to get header for block '' blockNum err), idx, s1)
      | (Inr header, s1) \<Rightarrow>
          let idx1 = recordBlockHash blockNum (hdr_Hash header) idx in
          (case pp_LogsByBlockNumber (pt_pool P) blockNum s1 of
             (Inl err, s2) \<Rightarrow> (Some (block_error ''failed to get logs for block '' blockNum err), idx1, s2)
           | (Inr logs, s2) \<Rightarrow>
               (case dispatch_logs P (hdr_Time header) logs s2 of
                  (Some err, s3) \<Rightarrow>
                    (Some (block_error ''failed to dispatch log for block '' blockNum err), idx1, s3)
                | (None, s3) \<Rightarrow> (None, idx1, s3))))"

definition seq_body :: "'s ports \<Rightarrow> u64 \<Rightarrow> u64 \<times> Indexer \<times> 's \<Rightarrow>
    (goerr option \<times> Indexer \<times> 's) + (u64 \<times> Indexer \<times> 's)" where
  "seq_body P currentBlock = (\<lambda>(blockNum, idx, s).
     if \<not> blockNum \<le> currentBlock then Inl (None, idx, s)
     else case processBlock P blockNum idx s of (err, idx1, s1) \<Rightarrow>
       (case err of
          Some e \<Rightarrow>
            if \<not> isLocalDecodeError (Some e)
            then Inl (Some (block_error ''failed to process block '' blockNum e), idx1, s1)
            else (case storeLastBlock P idx1 blockNum s1 of
                    (Some e', s2) \<Rightarrow> Inl (Some (errorf_w ''failed to save last block: '' e'), idx1, s2)
                  | (None, s2) \<Rightarrow> Inr (blockNum + 1, idx1, persistProviderState P s2))
        | None \<Rightarrow>
            (case storeLastBlock P idx1 blockNum s1 of
               (Some e', s2) \<Rightarrow> Inl (Some (errorf_w ''failed to save last block: '' e'), idx1, s2)
             | (None, s2) \<Rightarrow> Inr (blockNum + 1, idx1, persistProviderState P s2))))"

definition syncBlocksSequential :: "'s ports \<Rightarrow> u64 \<Rightarrow> u64 \<Rightarrow> Indexer \<Rightarrow> 's \<Rightarrow>
    (goerr option \<times> Indexer \<times> 's) option" where
  "syncBlocksSequential P startBlock currentBlock idx s =
     go_for (seq_body P currentBlock) (startBlock, idx, s)"

section \<open>The batched path\<close>

text \<open>The loop of \<open>applyBatchChunk\<close> over the logs; \<open>btimes\<close> is the map \<open>blockTimes\<close>.\<close>

fun apply_logs :: "'s ports \<Rightarrow> log list \<Rightarrow> (u64 \<rightharpoonup> u64) \<Rightarrow> 's \<Rightarrow> goerr option \<times> 's" where
  "apply_logs P [] btimes s = (None, s)"
| "apply_logs P (l # ls) btimes s =
     (let n = log_BlockNumber l;
          deliver = (\<lambda>blockTime btimes s.
             if blockTime = 0 then apply_logs P ls btimes s
             else case bd_Dispatch (pt_dispatcher P) l blockTime s of
                    (Some err, s') \<Rightarrow> (Some (block_error ''failed to dispatch log for block '' n err), s')
                  | (None, s') \<Rightarrow> apply_logs P ls btimes s')
      in case btimes n of
           Some blockTime \<Rightarrow> deliver blockTime btimes s
         | None \<Rightarrow>
             (case pp_HeaderByNumber (pt_pool P) (big_SetUint64 n) s of
                (Inl err, s') \<Rightarrow>
                  if isLocalDecodeError (Some err) then apply_logs P ls (btimes(n \<mapsto> 0)) s'
                  else (Some (block_error ''failed to get header for block '' n err), s')
              | (Inr header, s') \<Rightarrow> deliver (hdr_Time header) (btimes(n \<mapsto> hdr_Time header)) s'))"

definition record_tip :: "'s ports \<Rightarrow> u64 \<Rightarrow> Indexer \<Rightarrow> 's \<Rightarrow> Indexer \<times> 's" where
  "record_tip P chunkEnd idx s =
     (if 0 < ix_reorgDepth idx
      then (case pp_HeaderByNumber (pt_pool P) (big_SetUint64 chunkEnd) s of
              (Inr header, s') \<Rightarrow> (recordBlockHash chunkEnd (hdr_Hash header) idx, s')
            | (Inl err, s') \<Rightarrow> (idx, s'))
      else (idx, s))"

definition applyBatchChunk :: "'s ports \<Rightarrow> log list \<Rightarrow> u64 \<Rightarrow> Indexer \<Rightarrow> 's \<Rightarrow> goerr option \<times> Indexer \<times> 's" where
  "applyBatchChunk P logs chunkEnd idx s =
     (case apply_logs P logs Map.empty s of
        (Some err, s1) \<Rightarrow> (Some err, idx, s1)
      | (None, s1) \<Rightarrow>
          (case record_tip P chunkEnd idx s1 of
             (idx1, s2) \<Rightarrow>
               (case storeLastBlock P idx1 chunkEnd s2 of
                  (Some err, s3) \<Rightarrow> (Some (errorf_w ''failed to save last block: '' err), idx1, s3)
                | (None, s3) \<Rightarrow> (None, idx1, persistProviderState P s3))))"

definition idx_isRangeTooLargeError :: "'s ports \<Rightarrow> goerr option \<Rightarrow> 's \<Rightarrow> bool" where
  "idx_isRangeTooLargeError P err s = (case pp_IsRangeTooLargeError (pt_pool P) of
      Some c \<Rightarrow> c s err
    | None \<Rightarrow> isRangeTooLargeError err)"

text \<open>
  The state of the loop of \<open>syncBlocksBatched\<close>: \<open>chunkStart\<close>, \<open>chunkSize\<close>, \<open>retrying\<close>. The first part
  of an iteration is the parallel round: it ends the iteration, or falls through to the second part.
\<close>

datatype ('r, 'a) flow = Return 'r | Continue 'a | Fallthrough 'a | Hang

definition range_error :: "string \<Rightarrow> u64 \<Rightarrow> u64 \<Rightarrow> goerr \<Rightarrow> goerr" where
  "range_error what a b err = errorf_w (what @ fmt_u64 a @ ''..'' @ fmt_u64 b @ '': '') err"

definition parallel_part :: "'s ports \<Rightarrow> u64 \<Rightarrow> u64 \<Rightarrow> Indexer \<Rightarrow> 's \<Rightarrow>
    (goerr option \<times> Indexer \<times> 's, u64 \<times> Indexer \<times> 's) flow" where
  "parallel_part P currentBlock chunkStart idx s = (case pp_parallel (pt_pool P) of
      None \<Rightarrow> Fallthrough (chunkStart, idx, s)
    | Some pb \<Rightarrow>
        (let remaining = currentBlock - chunkStart + 1 in
         case pb_ParallelLogPlan pb s of ((providers, pChunk), s1) \<Rightarrow>
           if 1 < providers \<and> 0 < pChunk \<and> to_u64 pChunk < remaining
           then let span = to_u64 pChunk * to_u64 providers;
                    span = (if remaining < span then remaining else span);
                    chunkEnd = chunkStart + span - 1 in
             (case pb_LogsByBlockRangeParallel pb chunkStart chunkEnd s1 of
                None \<Rightarrow> Hang
              | Some (Inl err, s2) \<Rightarrow>
                  if \<not> idx_isRangeTooLargeError P (Some err) s2
                  then Return (Some (range_error ''failed to get logs for parallel blocks '' chunkStart chunkEnd err), idx, s2)
                  else Fallthrough (chunkStart, idx, s2)
              | Some (Inr logs, s2) \<Rightarrow>
                  (case applyBatchChunk P logs chunkEnd idx s2 of
                     (Some err, idx1, s3) \<Rightarrow> Return (Some err, idx1, s3)
                   | (None, idx1, s3) \<Rightarrow> Continue (chunkEnd + 1, idx1, s3)))
           else Fallthrough (chunkStart, idx, s1)))"

definition single_part :: "'s ports \<Rightarrow> u64 \<Rightarrow> u64 \<Rightarrow> bool \<Rightarrow> u64 \<Rightarrow> Indexer \<Rightarrow> 's \<Rightarrow>
    (goerr option \<times> Indexer \<times> 's) + (u64 \<times> u64 \<times> bool \<times> Indexer \<times> 's)" where
  "single_part P currentBlock chunkSize retrying chunkStart idx s =
     (let (chunkSize, s1) =
            (if \<not> retrying
             then (case pp_MaxLogBlockRange (pt_pool P) s of
                     (r, s') \<Rightarrow> (if 0 < to_u64 r then to_u64 r else chunkSize, s'))
             else (chunkSize, s));
          chunkEnd = chunkStart + chunkSize - 1;
          chunkEnd = (if currentBlock < chunkEnd then currentBlock else chunkEnd)
      in case pp_LogsByBlockRange (pt_pool P) chunkStart chunkEnd s1 of
           (Inl err, s2) \<Rightarrow>
             if idx_isRangeTooLargeError P (Some err) s2 \<and> chunkStart < chunkEnd
             then let half = (chunkEnd - chunkStart + 1) div 2
                  in Inr (chunkStart, if half = 0 then 1 else half, True, idx, s2)
             else Inl (Some (range_error ''failed to get logs for blocks '' chunkStart chunkEnd err), idx, s2)
         | (Inr logs, s2) \<Rightarrow>
             (case applyBatchChunk P logs chunkEnd idx s2 of
                (Some err, idx1, s3) \<Rightarrow> Inl (Some err, idx1, s3)
              | (None, idx1, s3) \<Rightarrow> Inr (chunkEnd + 1, chunkSize, False, idx1, s3)))"

text \<open>A parallel round that never returns leaves the loop where it is, for ever.\<close>

definition batch_body :: "'s ports \<Rightarrow> u64 \<Rightarrow> u64 \<times> u64 \<times> bool \<times> Indexer \<times> 's \<Rightarrow>
    (goerr option \<times> Indexer \<times> 's) + (u64 \<times> u64 \<times> bool \<times> Indexer \<times> 's)" where
  "batch_body P currentBlock = (\<lambda>(chunkStart, chunkSize, retrying, idx, s).
     if \<not> chunkStart \<le> currentBlock then Inl (None, idx, s)
     else case parallel_part P currentBlock chunkStart idx s of
            Hang \<Rightarrow> Inr (chunkStart, chunkSize, retrying, idx, s)
          | Return r \<Rightarrow> Inl r
          | Continue (chunkStart', idx', s') \<Rightarrow> Inr (chunkStart', chunkSize, retrying, idx', s')
          | Fallthrough (chunkStart', idx', s') \<Rightarrow>
              single_part P currentBlock chunkSize retrying chunkStart' idx' s')"

definition syncBlocksBatched :: "'s ports \<Rightarrow> u64 \<Rightarrow> u64 \<Rightarrow> Indexer \<Rightarrow> 's \<Rightarrow>
    (goerr option \<times> Indexer \<times> 's) option" where
  "syncBlocksBatched P startBlock currentBlock idx s =
     (case pp_MaxLogBlockRange (pt_pool P) s of
        (r, s1) \<Rightarrow>
          (let chunkSize = (if to_u64 r = 0 then 1 else to_u64 r)
           in go_for (batch_body P currentBlock) (startBlock, chunkSize, False, idx, s1)))"

section \<open>One sync\<close>

definition exhausted_error :: "ExhaustionTracker \<Rightarrow> goerr" where
  "exhausted_error t = ErrWrap (sentinel_msg ErrProviderPoolExhausted @ '': no provider available for '' @
     fmt_d (Consecutive t) @ '' consecutive sync attempts'') [Sentinel ErrProviderPoolExhausted]"

text \<open>The debug log of the batched branch calls \<open>MaxLogBlockRange\<close> once more.\<close>

definition sync_range :: "'s ports \<Rightarrow> u64 \<Rightarrow> u64 \<Rightarrow> Indexer \<Rightarrow> 's \<Rightarrow> (goerr option \<times> Indexer \<times> 's) option" where
  "sync_range P lastBlock currentBlock idx s =
     (if currentBlock \<le> lastBlock then Some (None, idx, s)
      else let startBlock = (if lastBlock + 1 = 0 then 1 else lastBlock + 1) in
        case pp_MaxLogBlockRange (pt_pool P) s of (r, s1) \<Rightarrow>
          if 1 < r
          then syncBlocksBatched P startBlock currentBlock idx (snd (pp_MaxLogBlockRange (pt_pool P) s1))
          else syncBlocksSequential P startBlock currentBlock idx s1)"

definition sync_from :: "'s ports \<Rightarrow> u64 \<Rightarrow> Indexer \<Rightarrow> 's \<Rightarrow> (goerr option \<times> Indexer \<times> 's) option" where
  "sync_from P lastBlock0 idx s =
     (case detectReorgRewind P lastBlock0 idx s of
        (Inl err, idx1, s1) \<Rightarrow> Some (Some (errorf_w ''reorg check failed: '' err), idx1, s1)
      | (Inr lastBlock, idx1, s1) \<Rightarrow>
          (case pp_BlockNumber (pt_pool P) s1 of
             (Inl err, s2) \<Rightarrow> Some (Some (errorf_w ''failed to get latest block: '' err), idx1, s2)
           | (Inr currentBlock, s2) \<Rightarrow>
               if currentBlock < lastBlock
               then let startBlock = ic_StartBlock (ix_config idx1) in
                 (case storeLastBlock P idx1 startBlock s2 of
                    (Some err, s3) \<Rightarrow>
                      Some (Some (errorf_w ''failed to reset last block after chain reset: '' err), idx1, s3)
                  | (None, s3) \<Rightarrow> sync_range P startBlock currentBlock (pruneHashesAbove startBlock idx1) s3)
               else sync_range P lastBlock currentBlock idx1 s2))"

definition syncBlocks :: "'s ports \<Rightarrow> Indexer \<Rightarrow> 's \<Rightarrow> (goerr option \<times> Indexer \<times> 's) option" where
  "syncBlocks P idx s =
     (case pp_GetProvider (pt_pool P) s of
        (p, s1) \<Rightarrow>
          (case Observe (p \<noteq> None) (ix_exhaustion idx) of
             (exhausted, t) \<Rightarrow>
               (let idx1 = idx\<lparr>ix_exhaustion := t\<rparr> in
                if exhausted
                then (case rs_After (pt_runtime P) (ic_ProviderExhaustionRestartDelay (ix_config idx1)) s1 of
                        (True, s2) \<Rightarrow> Some (None, idx1, s2)
                      | (False, s2) \<Rightarrow> Some (None, idx1, rs_OnExhausted (pt_runtime P) (exhausted_error t) s2))
                else (case getLastBlock P idx1 s1 of
                        (Inl err, s2) \<Rightarrow> Some (Some (errorf_w ''failed to get last block: '' err), idx1, s2)
                      | (Inr lastBlock, s2) \<Rightarrow>
                          sync_from P (if lastBlock = 0 \<and> 0 < ic_StartBlock (ix_config idx1)
                                       then ic_StartBlock (ix_config idx1) - 1 else lastBlock) idx1 s2))))"

section \<open>Queries\<close>

definition idx_GetLastBlock :: "'s ports \<Rightarrow> Indexer \<Rightarrow> 's \<Rightarrow> (goerr + u64) \<times> 's" where
  "idx_GetLastBlock P idx s = cs_GetLastBlock (pt_storage P) (ic_Chain (ix_config idx)) s"

definition idx_GetProviderScores :: "'s ports \<Rightarrow> 's \<Rightarrow> (string \<times> f64) list \<times> 's" where
  "idx_GetProviderScores P s = pp_GetScores (pt_pool P) s"

definition idx_Pool :: "'s ports \<Rightarrow> 's ProviderPool" where
  "idx_Pool P = pt_pool P"

definition idx_Storage :: "'s ports \<Rightarrow> 's ChainStorage" where
  "idx_Storage P = pt_storage P"

definition idx_Dispatcher :: "'s ports \<Rightarrow> 's BlockchainEventDispatcher" where
  "idx_Dispatcher P = pt_dispatcher P"

definition idx_GetEvents :: "'s ports \<Rightarrow> Indexer \<Rightarrow> u64 \<Rightarrow> u64 \<Rightarrow> 's \<Rightarrow> (goerr + IndexedEvent list) \<times> 's" where
  "idx_GetEvents P idx fromBlock toBlock s =
     cs_GetIndexedEvents (pt_storage P) (ic_Chain (ix_config idx)) fromBlock toBlock s"

definition idx_IsRunning :: "Indexer \<Rightarrow> bool" where
  "idx_IsRunning idx = ix_isRunning idx"

section \<open>Wrapped decode errors\<close>

text \<open>The prefixes the indexer adds neither hide nor fake the unsupported-type message.\<close>

lemma isLocalDecodeError_block_error:
  assumes "CHR ''y'' \<notin> set what"
  shows "isLocalDecodeError (Some (block_error what n e)) = isLocalDecodeError (Some e)"
proof -
  let ?x = "''transaction type not supported''"
  have "\<not> sublist ?x (what @ fmt_u64 n)"
  proof
    assume "sublist ?x (what @ fmt_u64 n)"
    then have "set ?x \<subseteq> set (what @ fmt_u64 n)" by (rule set_mono_sublist)
    with assms fmt_nat_no_y [of "unat n"] show False by (auto simp: fmt_u64_def)
  qed
  moreover have "sublist ?x (CHR '' '' # m) \<longleftrightarrow> sublist ?x m" for m
    by (simp add: sublist_Cons_right)
  ultimately show ?thesis
    using sublist_separator [of "CHR '':''" ?x "what @ fmt_u64 n" "CHR '' '' # err_Error e"]
    by (simp add: isLocalDecodeError_def block_error_def strings_Contains_def)
qed
end
