(* ===== verification/Sync_Relation.thy ===== *)
theory Sync_Relation
  imports Indexer
begin

text \<open>
  Relational reasoning about the sync engine. A relation on \<open>Indexer\<close> values that fixes the fields
  the engine reads and that the updates of the hash window respect is respected by the engine; if it also
  respects the exhaustion count, by a whole sync. The instances are the exhaustion count itself and the
  independence of the lifecycle fields, here, and the invariant of the hash window.
\<close>

section \<open>The contract\<close>

locale engine_relation =
  fixes R :: "Indexer \<Rightarrow> Indexer \<Rightarrow> bool"
  assumes reads: "R i j \<Longrightarrow> ix_config i = ix_config j \<and> ix_reorgDepth i = ix_reorgDepth j \<and>
      ix_recentHashes i = ix_recentHashes j \<and> ix_exhaustion i = ix_exhaustion j"
    and record_rel: "R i j \<Longrightarrow> R (recordBlockHash n h i) (recordBlockHash n h j)"
    and prune_rel: "R i j \<Longrightarrow> R (pruneHashesAbove n i) (pruneHashesAbove n j)"
begin

abbreviation RR :: "'r \<times> Indexer \<times> 's \<Rightarrow> 'r \<times> Indexer \<times> 's \<Rightarrow> bool" where
  "RR \<equiv> rel_prod (=) (rel_prod R (=))"

lemma getLastBlock_rel: "R i j \<Longrightarrow> getLastBlock P i s = getLastBlock P j s"
  using reads [of i j] by (simp add: getLastBlock_def)

lemma storeLastBlock_rel: "R i j \<Longrightarrow> storeLastBlock P i n s = storeLastBlock P j n s"
  using reads [of i j] by (simp add: storeLastBlock_def)

lemma processBlock_rel: "R i j \<Longrightarrow> RR (processBlock P n i s) (processBlock P n j s)"
  by (auto simp: processBlock_def Let_def record_rel split: prod.split sum.split option.split)

lemma seq_body_rel:
  assumes "R i j"
  shows "rel_sum RR RR (seq_body P cur (n, i, s)) (seq_body P cur (n, j, s))"
proof -
  obtain r i' s' where i: "processBlock P n i s = (r, i', s')" by (cases "processBlock P n i s")
  with processBlock_rel [OF assms, of P n s] obtain j' where j: "processBlock P n j s = (r, j', s')" and R: "R i' j'"
    by (cases "processBlock P n j s") auto
  show ?thesis using assms R by (simp add: seq_body_def i j storeLastBlock_rel [OF R] split: option.split prod.split)
qed

lemma syncBlocksSequential_rel: "R i j \<Longrightarrow> rel_option RR (syncBlocksSequential P a cur i s) (syncBlocksSequential P a cur j s)"
  unfolding syncBlocksSequential_def
  by (rule go_for_rel [where I = RR]) (auto elim!: rel_prod.cases intro: seq_body_rel)

lemma record_tip_rel: "R i j \<Longrightarrow> rel_prod R (=) (record_tip P e i s) (record_tip P e j s)"
  using reads [of i j] by (auto simp: record_tip_def record_rel split: prod.split sum.split)

lemma applyBatchChunk_rel:
  assumes "R i j"
  shows "RR (applyBatchChunk P ls e i s) (applyBatchChunk P ls e j s)"
proof -
  obtain r s1 where a: "apply_logs P ls Map.empty s = (r, s1)" by (cases "apply_logs P ls Map.empty s")
  obtain i' s2 where i: "record_tip P e i s1 = (i', s2)" by (cases "record_tip P e i s1")
  with record_tip_rel [OF assms, of P e s1] obtain j' where j: "record_tip P e j s1 = (j', s2)" and R: "R i' j'"
    by (cases "record_tip P e j s1") auto
  show ?thesis using assms R
    by (simp add: applyBatchChunk_def a i j storeLastBlock_rel [OF R] split: option.split prod.split)
qed

lemma applyBatchChunk_rel_cases:
  assumes "R i j"
  obtains r i' j' s' where "applyBatchChunk P ls e i s = (r, i', s')" "applyBatchChunk P ls e j s = (r, j', s')" "R i' j'"
  using applyBatchChunk_rel [OF assms, of P ls e s]
  by (cases "applyBatchChunk P ls e i s"; cases "applyBatchChunk P ls e j s") auto

lemma parallel_part_rel:
  assumes R: "R i j"
  shows "rel_flow RR RR (parallel_part P cur n i s) (parallel_part P cur n j s)"
proof (cases "pp_parallel (pt_pool P)")
  case None
  with R show ?thesis by (simp add: parallel_part_def)
next
  case (Some pb)
  obtain k c s1 where pl: "pb_ParallelLogPlan pb s = ((k, c), s1)" by (metis surj_pair)
  show ?thesis
  proof (cases "1 < k \<and> 0 < c \<and> to_u64 c < cur - n + 1")
    case False
    with R Some pl show ?thesis by (auto simp: parallel_part_def Let_def)
  next
    case True
    let ?span = "if cur - n + 1 < to_u64 c * to_u64 k then cur - n + 1 else to_u64 c * to_u64 k"
    let ?e = "n + ?span - 1"
    show ?thesis
    proof (cases "pb_LogsByBlockRangeParallel pb n ?e s1")
      case None
      with True Some pl show ?thesis unfolding parallel_part_def Let_def by simp
    next
      case fetched: (Some x)
      obtain r s2 where x: "x = (r, s2)" by (cases x)
      show ?thesis
      proof (cases r)
        case (Inl e)
        with R True Some pl fetched x show ?thesis unfolding parallel_part_def Let_def by simp
      next
        case (Inr logs)
        obtain r' i' j' s' where "applyBatchChunk P logs ?e i s2 = (r', i', s')" "applyBatchChunk P logs ?e j s2 = (r', j', s')"
          "R i' j'" by (rule applyBatchChunk_rel_cases [OF R])
        with Inr True Some pl fetched x show ?thesis unfolding parallel_part_def Let_def by (simp split: option.split)
      qed
    qed
  qed
qed

lemma single_part_rel:
  assumes R: "R i j"
  shows "rel_sum RR (rel_prod (=) (rel_prod (=) (rel_prod (=) (rel_prod R (=)))))
           (single_part P cur c b n i s) (single_part P cur c b n j s)"
proof -
  define pre where "pre = (if \<not> b then (case pp_MaxLogBlockRange (pt_pool P) s of
      (r, s') \<Rightarrow> (if 0 < to_u64 r then to_u64 r else c, s')) else (c, s))"
  obtain c' s1 where pre: "pre = (c', s1)" by (cases pre)
  let ?e = "if cur < n + c' - 1 then cur else n + c' - 1"
  obtain r s2 where f: "pp_LogsByBlockRange (pt_pool P) n ?e s1 = (r, s2)" by (cases "pp_LogsByBlockRange (pt_pool P) n ?e s1")
  show ?thesis
  proof (cases r)
    case (Inl e)
    with R f pre show ?thesis unfolding single_part_def Let_def pre_def [symmetric] by simp
  next
    case (Inr logs)
    obtain r' i' j' s' where "applyBatchChunk P logs ?e i s2 = (r', i', s')" "applyBatchChunk P logs ?e j s2 = (r', j', s')"
      "R i' j'" by (rule applyBatchChunk_rel_cases [OF R])
    with Inr f pre show ?thesis unfolding single_part_def Let_def pre_def [symmetric] by (simp split: option.split)
  qed
qed

abbreviation RB :: "u64 \<times> u64 \<times> bool \<times> Indexer \<times> 's \<Rightarrow> u64 \<times> u64 \<times> bool \<times> Indexer \<times> 's \<Rightarrow> bool" where
  "RB \<equiv> rel_prod (=) (rel_prod (=) (rel_prod (=) (rel_prod R (=))))"

lemma batch_body_rel:
  assumes R: "R i j"
  shows "rel_sum RR RB (batch_body P cur (n, c, b, i, s)) (batch_body P cur (n, c, b, j, s))"
proof (cases "n \<le> cur")
  case True
  from parallel_part_rel [OF R, of P cur n s] show ?thesis
  proof (cases rule: flow.rel_cases)
    case (Fallthrough x y)
    then obtain n' i' j' s' where "x = (n', i', s')" "y = (n', j', s')" "R i' j'" by (cases x; cases y) auto
    with Fallthrough True single_part_rel [of i' j'] show ?thesis by (simp add: batch_body_def)
  qed (use True R in \<open>auto simp: batch_body_def elim!: rel_prod.cases\<close>)
qed (use R in \<open>simp add: batch_body_def\<close>)

lemma syncBlocksBatched_rel: "R i j \<Longrightarrow> rel_option RR (syncBlocksBatched P a cur i s) (syncBlocksBatched P a cur j s)"
  unfolding syncBlocksBatched_def Let_def
  by (auto split: prod.split intro!: go_for_rel [where I = RB] batch_body_rel elim!: rel_prod.cases)

lemma sync_range_rel: "R i j \<Longrightarrow> rel_option RR (sync_range P n cur i s) (sync_range P n cur j s)"
  by (simp add: sync_range_def Let_def syncBlocksBatched_rel syncBlocksSequential_rel split: prod.split)

lemma detectReorgRewind_rel: "R i j \<Longrightarrow> RR (detectReorgRewind P n i s) (detectReorgRewind P n j s)"
  using reads [of i j]
  by (auto simp: detectReorgRewind_def Let_def storeLastBlock_rel [of i j] prune_rel split: option.split sum.split prod.split)

lemma sync_from_rel:
  assumes "R i j"
  shows "rel_option RR (sync_from P n i s) (sync_from P n j s)"
proof -
  obtain r i' s' where i: "detectReorgRewind P n i s = (r, i', s')" by (cases "detectReorgRewind P n i s")
  with detectReorgRewind_rel [OF assms, of P n s] obtain j' where j: "detectReorgRewind P n j s = (r, j', s')" and R: "R i' j'"
    by (cases "detectReorgRewind P n j s") auto
  have c: "ic_StartBlock (ix_config i') = ic_StartBlock (ix_config j')" using reads [OF R] by simp
  show ?thesis using R unfolding sync_from_def i j Let_def prod.case c
    by (simp add: storeLastBlock_rel [OF R] sync_range_rel prune_rel split: sum.split prod.split option.split)
qed

end

locale sync_relation = engine_relation +
  assumes observe_rel: "R i j \<Longrightarrow> Observe a (ix_exhaustion i) = (b, t) \<Longrightarrow> R (i\<lparr>ix_exhaustion := t\<rparr>) (j\<lparr>ix_exhaustion := t\<rparr>)"
begin

lemma syncBlocks_rel:
  assumes "R i j"
  shows "rel_option RR (syncBlocks P i s) (syncBlocks P j s)"
proof -
  obtain g s1 where g: "pp_GetProvider (pt_pool P) s = (g, s1)" by (cases "pp_GetProvider (pt_pool P) s")
  obtain b t where o: "Observe (g \<noteq> None) (ix_exhaustion i) = (b, t)" by (cases "Observe (g \<noteq> None) (ix_exhaustion i)")
  have e: "ix_exhaustion j = ix_exhaustion i" "ix_config j = ix_config i" using reads [OF assms] by simp_all
  have R: "R (i\<lparr>ix_exhaustion := t\<rparr>) (j\<lparr>ix_exhaustion := t\<rparr>)" by (rule observe_rel [OF assms o])
  show ?thesis using R
    unfolding syncBlocks_def g o e Let_def prod.case
    by (simp add: e getLastBlock_rel [OF R] sync_from_rel split: sum.split prod.split bool.split)
qed

end

section \<open>The exhaustion count\<close>

text \<open>A sync observes the pool once, at its beginning; the engine leaves the count alone.\<close>

interpretation exhaustion_kept: engine_relation "\<lambda>i j. i = j \<and> ix_exhaustion i = t" for t
  by unfold_locales (auto simp: recordBlockHash_def pruneHashesAbove_def Let_def split: prod.split)

lemma syncBlocks_exhaustion:
  assumes "syncBlocks P idx s = Some (r, idx', s')"
  shows "ix_exhaustion idx' = snd (Observe (fst (pp_GetProvider (pt_pool P) s) \<noteq> None) (ix_exhaustion idx))"
proof -
  obtain g s1 where g: "pp_GetProvider (pt_pool P) s = (g, s1)" by (cases "pp_GetProvider (pt_pool P) s")
  obtain b t where o: "Observe (g \<noteq> None) (ix_exhaustion idx) = (b, t)" by (cases "Observe (g \<noteq> None) (ix_exhaustion idx)")
  have "ix_exhaustion j = t" if "sync_from P n (idx\<lparr>ix_exhaustion := t\<rparr>) s2 = Some (r, j, s')" for n s2 j
    using exhaustion_kept.sync_from_rel [of "idx\<lparr>ix_exhaustion := t\<rparr>" "idx\<lparr>ix_exhaustion := t\<rparr>" t P n s2] that by simp
  with assms g o show ?thesis by (auto simp: syncBlocks_def Let_def split: if_splits prod.splits sum.splits bool.splits)
qed

text \<open>The settings never change.\<close>

interpretation settings: sync_relation "\<lambda>i j. i = j \<and> ix_config i = c \<and> ix_reorgDepth i = k" for c k
  by unfold_locales (auto simp: recordBlockHash_def pruneHashesAbove_def Let_def split: prod.split)

lemma syncBlocks_settings:
  "syncBlocks P idx s = Some (r, idx', s') \<Longrightarrow> ix_config idx' = ix_config idx \<and> ix_reorgDepth idx' = ix_reorgDepth idx"
  using settings.syncBlocks_rel [of idx idx "ix_config idx" "ix_reorgDepth idx" P s] by simp

section \<open>The lifecycle fields play no part\<close>

text \<open>
  \<open>with_life l i\<close> is \<open>i\<close> with the fields \<open>Start\<close>, \<open>Stop\<close> and \<open>Nudge\<close> work on taken from \<open>l\<close>. A sync
  of the model neither reads nor writes them (the context that \<open>Stop\<close> cancels reaches it through the results of its calls), so it keeps them.
\<close>

definition with_life :: "Indexer \<Rightarrow> Indexer \<Rightarrow> Indexer" where
  "with_life l i = i\<lparr>ix_isRunning := ix_isRunning l, ix_stopped := ix_stopped l, ix_cancelled := ix_cancelled l,
     ix_running_loops := ix_running_loops l, ix_stopPhase := ix_stopPhase l, ix_nudge := ix_nudge l\<rparr>"

lemma with_life_simps [simp]:
  "ix_config (with_life l i) = ix_config i" "ix_exhaustion (with_life l i) = ix_exhaustion i"
  "ix_reorgDepth (with_life l i) = ix_reorgDepth i" "ix_recentHashes (with_life l i) = ix_recentHashes i"
  "ix_hashOrder (with_life l i) = ix_hashOrder i" "with_life i i = i"
  by (simp_all add: with_life_def)

interpretation lifecycle: sync_relation "\<lambda>i j. j = with_life l i" for l
  by unfold_locales (auto simp: recordBlockHash_def pruneHashesAbove_def with_life_def Let_def split: prod.split)

lemma syncBlocks_with_life:
  "syncBlocks P (with_life l i) s = map_option (\<lambda>(r, i', s'). (r, with_life l i', s')) (syncBlocks P i s)"
  using lifecycle.syncBlocks_rel [of "with_life l i" l i P s]
  by (cases "syncBlocks P i s"; cases "syncBlocks P (with_life l i) s") (auto elim!: rel_prod.cases)

lemma syncBlocks_life: "syncBlocks P i s = Some (r, i', s') \<Longrightarrow> i' = with_life i i'"
  using syncBlocks_with_life [of P i i s] by simp
end
