(* ===== verification/Reorg.thy ===== *)
theory Reorg
  imports Sync_Relation
begin

text \<open>
  Reorg detection: the window of recent block hashes (\<open>recordBlockHash\<close>, \<open>pruneHashesAbove\<close>) and the
  position a detected reorg rewinds to (\<open>detectReorgRewind\<close>).
\<close>

section \<open>The hash window\<close>

text \<open>
  \<open>hashOrder\<close> lists the keys of \<open>recentHashes\<close> without repetition, and there are at most
  \<open>reorgDepth\<close> of them.
\<close>

definition hash_inv :: "Indexer \<Rightarrow> bool" where
  "hash_inv idx \<longleftrightarrow> distinct (ix_hashOrder idx) \<and> set (ix_hashOrder idx) = dom (ix_recentHashes idx) \<and>
     int (length (ix_hashOrder idx)) \<le> max 0 (ix_reorgDepth idx)"

lemma trim_hashes_eq:
  "0 \<le> depth \<Longrightarrow> trim_hashes depth order m =
     (drop (length order - nat depth) order, m |` (- set (take (length order - nat depth) order)))"
proof (induction order arbitrary: m)
  case (Cons b bs)
  show ?case
  proof (cases "depth < int (length (b # bs))")
    case True
    then have "length (b # bs) - nat depth = Suc (length bs - nat depth)" using Cons.prems by (simp add: nat_less_iff Suc_diff_le)
    with True Cons show ?thesis by (auto simp: restrict_map_def fun_eq_iff)
  next
    case False
    then have "length (b # bs) - nat depth = 0" by simp
    with False show ?thesis by (auto simp: restrict_map_def)
  qed
qed (simp add: restrict_map_def)

lemma prune_eq: "prune n order kept m = (kept @ filter (\<lambda>b. b \<le> n) order, m |` (- {b \<in> set order. n < b}))"
  by (induction order arbitrary: kept m) (auto simp: restrict_map_def fun_eq_iff)

lemma record_window:
  fixes n :: u64 and h :: hash
  assumes "hash_inv idx" and "0 < ix_reorgDepth idx"
  defines "order \<equiv> (if ix_recentHashes idx n = None then ix_hashOrder idx @ [n] else ix_hashOrder idx)"
  shows "ix_hashOrder (recordBlockHash n h idx) = drop (length order - nat (ix_reorgDepth idx)) order"
    and "ix_recentHashes (recordBlockHash n h idx) =
         ((ix_recentHashes idx)(n \<mapsto> h)) |` set (drop (length order - nat (ix_reorgDepth idx)) order)"
    and "n \<in> set (drop (length order - nat (ix_reorgDepth idx)) order)"
    and "distinct order" and "set order = insert n (dom (ix_recentHashes idx))"
proof -
  let ?k = "length order - nat (ix_reorgDepth idx)"
  show d: "distinct order" and s: "set order = insert n (dom (ix_recentHashes idx))"
    using assms(1) by (auto simp: order_def hash_inv_def)
  have t: "trim_hashes (ix_reorgDepth idx) order m = (drop ?k order, m |` (- set (take ?k order)))" for m
    using assms(2) by (intro trim_hashes_eq) simp
  have c: "set (take ?k order) \<inter> set (drop ?k order) = {}" "set order = set (take ?k order) \<union> set (drop ?k order)"
    using d set_take_disj_set_drop_if_distinct [of order ?k ?k] by (simp_all flip: set_append)
  show "ix_hashOrder (recordBlockHash n h idx) = drop ?k order"
    using assms(2) t by (simp add: recordBlockHash_def Let_def order_def [symmetric])
  have "ix_recentHashes (recordBlockHash n h idx) = ((ix_recentHashes idx)(n \<mapsto> h)) |` (- set (take ?k order))"
    using assms(2) t by (simp add: recordBlockHash_def Let_def order_def [symmetric])
  also have "\<dots> = ((ix_recentHashes idx)(n \<mapsto> h)) |` set (drop ?k order)"
    using c s by (auto simp: restrict_map_def fun_eq_iff domIff)
  finally show "ix_recentHashes (recordBlockHash n h idx) = \<dots>" .
  show "n \<in> set (drop ?k order)"
  proof (cases "ix_recentHashes idx n = None")
    case True
    then have "order = ix_hashOrder idx @ [n]" by (simp add: order_def)
    with assms(2) show ?thesis by (simp add: Suc_diff_le)
  next
    case False
    then have "order = ix_hashOrder idx" "length order \<le> nat (ix_reorgDepth idx)"
      using assms(1,2) by (auto simp: order_def hash_inv_def)
    with s show ?thesis by simp
  qed
qed

lemma recordBlockHash_inv: "hash_inv idx \<Longrightarrow> hash_inv (recordBlockHash n h idx)"
proof (cases "0 < ix_reorgDepth idx")
  case True
  assume i: "hash_inv idx"
  have r: "ix_reorgDepth (recordBlockHash n h idx) = ix_reorgDepth idx"
    by (simp add: recordBlockHash_def Let_def split: prod.split)
  define order where "order = (if ix_recentHashes idx n = None then ix_hashOrder idx @ [n] else ix_hashOrder idx)"
  define kept where "kept = drop (length order - nat (ix_reorgDepth idx)) order"
  note w = record_window [OF i True, where n = n, folded order_def, folded kept_def]
  have "dom (ix_recentHashes (recordBlockHash n h idx)) = insert n (dom (ix_recentHashes idx)) \<inter> set kept"
    using w(2) [of h] by auto
  also have "\<dots> = set kept" using w(5) by (auto simp: kept_def dest: in_set_dropD)
  finally show ?thesis using w(1) [of h] w(4) True by (simp add: hash_inv_def r kept_def)
qed (simp add: recordBlockHash_def)

lemma pruneHashesAbove_eq:
  "hash_inv idx \<Longrightarrow> pruneHashesAbove n idx =
     idx\<lparr>ix_hashOrder := filter (\<lambda>b. b \<le> n) (ix_hashOrder idx), ix_recentHashes := ix_recentHashes idx |` {..n}\<rparr>"
proof -
  assume i: "hash_inv idx"
  have "ix_recentHashes idx |` (- {b \<in> set (ix_hashOrder idx). n < b}) = ix_recentHashes idx |` {..n}"
    using i by (auto simp: hash_inv_def restrict_map_def fun_eq_iff domIff)
  then show ?thesis by (simp add: pruneHashesAbove_def prune_eq)
qed

lemma pruneHashesAbove_inv: "hash_inv idx \<Longrightarrow> hash_inv (pruneHashesAbove n idx)"
proof -
  assume i: "hash_inv idx"
  have "length (filter (\<lambda>b. b \<le> n) (ix_hashOrder idx)) \<le> length (ix_hashOrder idx)" by (rule length_filter_le)
  then have "int (length (filter (\<lambda>b. b \<le> n) (ix_hashOrder idx))) \<le> max 0 (ix_reorgDepth idx)"
    using i unfolding hash_inv_def by linarith
  with i show ?thesis unfolding pruneHashesAbove_eq [OF i] by (auto simp: hash_inv_def)
qed

interpretation hash_window: sync_relation "\<lambda>i j. i = j \<and> hash_inv i"
proof unfold_locales
  show "i\<lparr>ix_exhaustion := t\<rparr> = j\<lparr>ix_exhaustion := t\<rparr> \<and> hash_inv (i\<lparr>ix_exhaustion := t\<rparr>)" if "i = j \<and> hash_inv i" for i j t
    using that by (auto simp: hash_inv_def)
qed (auto intro: recordBlockHash_inv pruneHashesAbove_inv)

end
