(* ===== verification/Lifecycle.thy ===== *)
theory Lifecycle
  imports Reorg
begin

text \<open>
  The lifecycle of an \<open>Indexer\<close>: \<open>Start\<close>, \<open>Stop\<close>, \<open>Nudge\<close> and the goroutine \<open>syncLoop\<close>, as steps that
  interleave. A critical section of \<open>idx.mu\<close> is one step. A sync is one step of the loop. It
  does not read \<open>ix_cancelled\<close>: a context that \<open>Stop\<close> cancels in the middle of a sync shows as errors of its calls, which the
  interfaces may return at any time.
\<close>

section \<open>Operations\<close>

definition Start :: "Indexer \<Rightarrow> goerr option \<times> Indexer" where
  "Start idx =
     (if ix_stopped idx then (Some (Sentinel ErrIndexerStopped), idx)
      else if ix_isRunning idx then (Some (Sentinel ErrAlreadyRunning), idx)
      else (None, idx\<lparr>ix_isRunning := True, ix_running_loops := Suc (ix_running_loops idx)\<rparr>))"

text \<open>
  The function of \<open>stopOnce\<close>, step by step: \<open>cancel()\<close>; \<open>wg.Wait()\<close>, which blocks while a loop runs;
  the flags under the lock; closing the dispatcher and the pool. A panic of \<open>pool.Close\<close> leaves the
  same state behind.
\<close>

definition stop_step :: "'s ports \<Rightarrow> Indexer \<Rightarrow> 's \<Rightarrow> (Indexer \<times> 's) option" where
  "stop_step P idx s = (case ix_stopPhase idx of
      NotStopped \<Rightarrow> Some (idx\<lparr>ix_cancelled := True, ix_stopPhase := Stopping\<rparr>, s)
    | Stopping \<Rightarrow> if ix_running_loops idx = 0 then Some (idx\<lparr>ix_stopPhase := Waited\<rparr>, s) else None
    | Waited \<Rightarrow> Some (idx\<lparr>ix_isRunning := False, ix_stopped := True, ix_stopPhase := Flagged\<rparr>, s)
    | Flagged \<Rightarrow> Some (idx\<lparr>ix_stopPhase := Stopped\<rparr>, snd (pp_Close (pt_pool P) (bd_Close (pt_dispatcher P) s)))
    | Stopped \<Rightarrow> None)"

definition idx_Nudge :: "Indexer \<Rightarrow> Indexer" where
  "idx_Nudge idx = idx\<lparr>ix_nudge := Fire (ix_nudge idx)\<rparr>"

text \<open>
  One iteration of \<open>syncLoop\<close>, by the case its \<open>select\<close> takes; \<open>None\<close> when that case is not ready. The
  error of a sync is only logged.
\<close>

datatype loop_event = CtxDone | Tick | Nudged

definition run_sync :: "'s ports \<Rightarrow> Indexer \<Rightarrow> 's \<Rightarrow> (Indexer \<times> 's) option" where
  "run_sync P idx s = map_option snd (syncBlocks P idx s)"

definition loop_step :: "'s ports \<Rightarrow> loop_event \<Rightarrow> Indexer \<Rightarrow> 's \<Rightarrow> (Indexer \<times> 's) option" where
  "loop_step P ev idx s = (case ev of
      CtxDone \<Rightarrow> if ix_cancelled idx then Some (idx\<lparr>ix_running_loops := ix_running_loops idx - 1\<rparr>, s) else None
    | Tick \<Rightarrow> run_sync P idx s
    | Nudged \<Rightarrow> (case recv_C (ix_nudge idx) of
          None \<Rightarrow> None
        | Some c \<Rightarrow> run_sync P (idx\<lparr>ix_nudge := c\<rparr>) s))"

section \<open>Interleavings\<close>

text \<open>
  \<open>env\<close> is what the surroundings may do to the state behind the interfaces at any moment.
\<close>

inductive life_step :: "'s ports \<Rightarrow> ('s \<Rightarrow> 's \<Rightarrow> bool) \<Rightarrow> Indexer \<times> 's \<Rightarrow> Indexer \<times> 's \<Rightarrow> bool" for P env where
  start: "Start idx = (r, idx') \<Longrightarrow> life_step P env (idx, s) (idx', s)"
| stop: "stop_step P idx s = Some (idx', s') \<Longrightarrow> life_step P env (idx, s) (idx', s')"
| nudge: "life_step P env (idx, s) (idx_Nudge idx, s)"
| loop: "0 < ix_running_loops idx \<Longrightarrow> loop_step P ev idx s = Some (idx', s') \<Longrightarrow> life_step P env (idx, s) (idx', s')"
| env: "env s s' \<Longrightarrow> life_step P env (idx, s) (idx, s')"

abbreviation life_reachable :: "'s ports \<Rightarrow> ('s \<Rightarrow> 's \<Rightarrow> bool) \<Rightarrow> Indexer \<times> 's \<Rightarrow> Indexer \<times> 's \<Rightarrow> bool" where
  "life_reachable P env \<equiv> (life_step P env)\<^sup>*\<^sup>*"

text \<open>A whole \<open>Stop\<close> on its own: the running loop exits and the function of \<open>stopOnce\<close> runs through.\<close>

definition Stop :: "'s ports \<Rightarrow> Indexer \<Rightarrow> 's \<Rightarrow> Indexer \<times> 's" where
  "Stop P idx s =
     (if ix_stopPhase idx \<noteq> NotStopped then (idx, s)
      else (idx\<lparr>ix_cancelled := True, ix_running_loops := 0, ix_isRunning := False, ix_stopped := True, ix_stopPhase := Stopped\<rparr>,
            snd (pp_Close (pt_pool P) (bd_Close (pt_dispatcher P) s))))"

section \<open>The invariant\<close>

definition life_inv :: "Indexer \<Rightarrow> bool" where
  "life_inv idx \<longleftrightarrow>
     ix_running_loops idx \<le> 1 \<and>
     (ix_cancelled idx \<longleftrightarrow> ix_stopPhase idx \<noteq> NotStopped) \<and>
     (ix_stopped idx \<longleftrightarrow> ix_stopPhase idx \<in> {Flagged, Stopped}) \<and>
     (ix_stopped idx \<longrightarrow> \<not> ix_isRunning idx) \<and>
     (\<not> ix_stopped idx \<longrightarrow> \<not> ix_isRunning idx \<longrightarrow> ix_running_loops idx = 0) \<and>
     (\<not> ix_cancelled idx \<longrightarrow> ix_isRunning idx \<longrightarrow> ix_running_loops idx = 1) \<and>
     nudge_inv (ix_nudge idx)"

lemma run_sync_life: "run_sync P idx s = Some (idx', s') \<Longrightarrow> idx' = with_life idx idx'"
  by (auto simp: run_sync_def dest: syncBlocks_life)

lemma run_sync_fields:
  assumes "run_sync P idx s = Some (idx', s')"
  shows "ix_isRunning idx' = ix_isRunning idx" "ix_stopped idx' = ix_stopped idx" "ix_cancelled idx' = ix_cancelled idx"
    "ix_running_loops idx' = ix_running_loops idx" "ix_stopPhase idx' = ix_stopPhase idx" "ix_nudge idx' = ix_nudge idx"
  by (subst run_sync_life [OF assms], simp add: with_life_def)+

lemma loop_step_fields:
  assumes "loop_step P ev idx s = Some (idx', s')"
  shows "ix_isRunning idx' = ix_isRunning idx" "ix_stopped idx' = ix_stopped idx" "ix_cancelled idx' = ix_cancelled idx"
    "ix_stopPhase idx' = ix_stopPhase idx" "ix_running_loops idx' = ix_running_loops idx - (if ev = CtxDone then 1 else 0)"
    "ev = CtxDone \<Longrightarrow> ix_cancelled idx" "nudge_inv (ix_nudge idx) \<Longrightarrow> nudge_inv (ix_nudge idx')"
  using assms
  by (cases ev; auto simp: loop_step_def run_sync_fields nudge_inv_recv split: if_splits option.splits)+

lemma life_step_inv: "life_step P env x y \<Longrightarrow> life_inv (fst x) \<Longrightarrow> life_inv (fst y)"
proof (induction rule: life_step.induct)
  case (start idx r idx' s)
  then show ?case by (auto simp: Start_def life_inv_def split: if_splits)
next
  case (stop idx s idx' s')
  then show ?case by (auto simp: stop_step_def life_inv_def split: stop_phase.splits if_splits)
next
  case (nudge idx s)
  then show ?case by (auto simp: idx_Nudge_def life_inv_def)
next
  case (loop idx ev s idx' s')
  then show ?case using loop_step_fields [OF loop(2)] by (cases ev) (auto simp: life_inv_def)
qed simp

lemma life_reachable_inv: "life_reachable P env x y \<Longrightarrow> life_inv (fst x) \<Longrightarrow> life_inv (fst y)"
  by (induction rule: rtranclp_induct) (auto intro: life_step_inv)

section \<open>Starting once\<close>

text \<open>Once started or stopped, an indexer stays so; once stopped, it stays stopped.\<close>

lemma life_step_flags:
  "life_step P env x y \<Longrightarrow> (ix_isRunning (fst x) \<or> ix_stopped (fst x) \<longrightarrow> ix_isRunning (fst y) \<or> ix_stopped (fst y)) \<and>
     (ix_stopped (fst x) \<longrightarrow> ix_stopped (fst y))"
proof (induction rule: life_step.induct)
  case (stop idx s idx' s')
  then show ?case by (cases "ix_stopPhase idx") (auto simp: stop_step_def split: if_splits)
qed (auto simp: Start_def idx_Nudge_def loop_step_fields split: if_splits)

lemma life_reachable_started:
  "life_reachable P env x y \<Longrightarrow> ix_isRunning (fst x) \<or> ix_stopped (fst x) \<Longrightarrow> ix_isRunning (fst y) \<or> ix_stopped (fst y)"
  by (induction rule: rtranclp_induct) (use life_step_flags in blast)+

lemma life_reachable_stopped: "life_reachable P env x y \<Longrightarrow> ix_stopped (fst x) \<Longrightarrow> ix_stopped (fst y)"
  by (induction rule: rtranclp_induct) (use life_step_flags in blast)+

section \<open>Stopping\<close>

lemma Stop_reachable:
  assumes inv: "life_inv idx"
  shows "life_reachable P env (idx, s) (Stop P idx s)"
proof (cases "ix_stopPhase idx = NotStopped")
  case True
  let ?a = "idx\<lparr>ix_cancelled := True, ix_stopPhase := Stopping\<rparr>"
  let ?b = "?a\<lparr>ix_running_loops := 0\<rparr>"
  let ?c = "?b\<lparr>ix_stopPhase := Waited\<rparr>"
  let ?d = "?c\<lparr>ix_isRunning := False, ix_stopped := True, ix_stopPhase := Flagged\<rparr>"
  have "life_step P env (idx, s) (?a, s)" using True by (intro life_step.stop) (simp add: stop_step_def)
  also have "life_reachable P env (?a, s) (?b, s)"
  proof (cases "ix_running_loops idx = 0")
    case True
    then have "?b = ?a" by simp
    then show ?thesis by simp
  next
    case False
    then have "ix_running_loops idx = 1" using inv by (auto simp: life_inv_def)
    then have "life_step P env (?a, s) (?b, s)" by (intro life_step.loop [of _ _ CtxDone]) (simp_all add: loop_step_def)
    then show ?thesis by blast
  qed
  also have "life_step P env (?b, s) (?c, s)" by (intro life_step.stop) (simp add: stop_step_def)
  also have "life_step P env (?c, s) (?d, s)" by (intro life_step.stop) (simp add: stop_step_def)
  also have "life_step P env (?d, s) (Stop P idx s)" using True by (simp add: Stop_def, intro life_step.stop) (simp add: stop_step_def)
  finally show ?thesis .
qed (simp add: Stop_def)

text \<open>
  Runs in which no \<open>Start\<close> launches a loop once \<open>Stop\<close> has begun.
\<close>

definition orderly_step :: "'s ports \<Rightarrow> ('s \<Rightarrow> 's \<Rightarrow> bool) \<Rightarrow> Indexer \<times> 's \<Rightarrow> Indexer \<times> 's \<Rightarrow> bool" where
  "orderly_step P env x y \<longleftrightarrow> life_step P env x y \<and>
     (ix_stopPhase (fst x) \<noteq> NotStopped \<longrightarrow> ix_running_loops (fst y) \<le> ix_running_loops (fst x))"

text \<open>No loop runs after \<open>wg.Wait()\<close> has returned.\<close>

definition quiet :: "Indexer \<Rightarrow> bool" where
  "quiet idx \<longleftrightarrow> (ix_stopPhase idx \<in> {Waited, Flagged, Stopped} \<longrightarrow> ix_running_loops idx = 0)"

lemma life_step_quiet:
  "life_step P env x y \<Longrightarrow> quiet (fst x) \<Longrightarrow>
   ix_stopPhase (fst x) \<noteq> NotStopped \<longrightarrow> ix_running_loops (fst y) \<le> ix_running_loops (fst x) \<Longrightarrow> quiet (fst y)"
proof (induction rule: life_step.induct)
  case (stop idx s idx' s')
  then show ?case by (cases "ix_stopPhase idx") (auto simp: stop_step_def quiet_def split: if_splits)
next
  case (start idx r idx' s)
  then show ?case by (cases "ix_stopPhase idx") (auto simp: Start_def quiet_def split: if_splits)
next
  case (loop idx ev s idx' s')
  then show ?case using loop_step_fields [OF loop(2)] by (auto simp: quiet_def)
qed (simp_all add: idx_Nudge_def quiet_def)

lemma orderly_reachable_quiet: "(orderly_step P env)\<^sup>*\<^sup>* x y \<Longrightarrow> quiet (fst x) \<Longrightarrow> quiet (fst y)"
proof (induction rule: rtranclp_induct)
  case (step y z)
  then show ?case using life_step_quiet [of P env y z] by (simp add: orderly_step_def)
qed simp

text \<open>A \<open>Start\<close> that comes between \<open>wg.Wait()\<close> and the update of the flags succeeds.\<close>

lemma late_start:
  assumes "ix_stopPhase idx = NotStopped" and "\<not> ix_isRunning idx" and "\<not> ix_stopped idx" and "ix_running_loops idx = 0"
  shows "life_reachable P env (idx, s)
    (idx\<lparr>ix_cancelled := True, ix_running_loops := 1, ix_isRunning := False, ix_stopped := True, ix_stopPhase := Stopped\<rparr>,
     snd (pp_Close (pt_pool P) (bd_Close (pt_dispatcher P) s)))"
proof -
  let ?a = "idx\<lparr>ix_cancelled := True, ix_stopPhase := Stopping\<rparr>"
  let ?b = "?a\<lparr>ix_stopPhase := Waited\<rparr>"
  let ?c = "?b\<lparr>ix_isRunning := True, ix_running_loops := 1\<rparr>"
  let ?d = "?c\<lparr>ix_isRunning := False, ix_stopped := True, ix_stopPhase := Flagged\<rparr>"
  have "life_step P env (idx, s) (?a, s)" using assms by (intro life_step.stop) (simp add: stop_step_def)
  also have "life_reachable P env (?a, s) (?b, s)" using assms by (intro r_into_rtranclp life_step.stop) (simp add: stop_step_def)
  also have "life_step P env (?b, s) (?c, s)" using assms by (intro life_step.start [of _ None]) (simp add: Start_def)
  also have "life_step P env (?c, s) (?d, s)" by (intro life_step.stop) (simp add: stop_step_def)
  also have "life_step P env (?d, s) (?d\<lparr>ix_stopPhase := Stopped\<rparr>, snd (pp_Close (pt_pool P) (bd_Close (pt_dispatcher P) s)))"
    by (intro life_step.stop) (simp add: stop_step_def)
  finally show ?thesis by simp
qed

end
