(* ===== verification/Rate_Limiter.thy ===== *)
theory Rate_Limiter
  imports Config
begin

text \<open>
  \<^verbatim>\<open>ratelimit.go\<close>: the \<open>Enabled\<close> switch around \<open>golang.org/x/time/rate\<close>. The limiter itself is
  third-party code: its methods are functions on the world, where the limiters live under handles.
\<close>

record 'w rate_api =
  rate_NewLimiter :: "f64 \<Rightarrow> int \<Rightarrow> 'w \<Rightarrow> nat \<times> 'w"
  rate_Allow :: "nat \<Rightarrow> 'w \<Rightarrow> bool \<times> 'w"
  rate_Wait :: "nat \<Rightarrow> 'w \<Rightarrow> goerr option \<times> 'w"
  rate_WaitN :: "nat \<Rightarrow> int \<Rightarrow> 'w \<Rightarrow> goerr option \<times> 'w"
  rate_Reserve :: "nat \<Rightarrow> 'w \<Rightarrow> nat \<times> 'w"
  rate_ReserveN :: "nat \<Rightarrow> gotime \<Rightarrow> int \<Rightarrow> 'w \<Rightarrow> nat \<times> 'w"
  rate_SetLimit :: "nat \<Rightarrow> f64 \<Rightarrow> 'w \<Rightarrow> 'w"
  rate_SetBurst :: "nat \<Rightarrow> int \<Rightarrow> 'w \<Rightarrow> 'w"
  rate_Tokens :: "nat \<Rightarrow> 'w \<Rightarrow> f64 \<times> 'w"
  rate_Burst :: "nat \<Rightarrow> 'w \<Rightarrow> int"
  rate_Limit :: "nat \<Rightarrow> 'w \<Rightarrow> f64"
  rate_Inf :: f64

text \<open>The limiter field is nil, \<open>None\<close>, exactly when limiting is switched off.\<close>

record RateLimiter =
  rl_limiter :: "nat option"
  rl_enabled :: bool

definition NewRateLimiter :: "'w rate_api \<Rightarrow> RateLimitConfig \<Rightarrow> 'w \<Rightarrow> RateLimiter \<times> 'w" where
  "NewRateLimiter api cfg w =
     (if rlc_Enabled cfg
      then case rate_NewLimiter api (rlc_RPS cfg) (rlc_Burst cfg) w of
             (h, w') \<Rightarrow> (\<lparr>rl_limiter = Some h, rl_enabled = True\<rparr>, w')
      else (\<lparr>rl_limiter = None, rl_enabled = False\<rparr>, w))"

text \<open>A method call on a nil limiter panics; the error value below stands for the panic.\<close>

definition nil_deref :: goerr where
  "nil_deref = ErrNew ''runtime error: invalid memory address or nil pointer dereference''"

definition rl_Allow :: "'w rate_api \<Rightarrow> RateLimiter \<Rightarrow> 'w \<Rightarrow> (goerr + bool) \<times> 'w" where
  "rl_Allow api rl w = (if \<not> rl_enabled rl then (Inr True, w)
     else case rl_limiter rl of None \<Rightarrow> (Inl nil_deref, w)
          | Some h \<Rightarrow> (case rate_Allow api h w of (b, w') \<Rightarrow> (Inr b, w')))"

definition rl_Wait :: "'w rate_api \<Rightarrow> RateLimiter \<Rightarrow> 'w \<Rightarrow> goerr option \<times> 'w" where
  "rl_Wait api rl w = (if \<not> rl_enabled rl then (None, w)
     else case rl_limiter rl of None \<Rightarrow> (Some nil_deref, w) | Some h \<Rightarrow> rate_Wait api h w)"

definition rl_WaitN :: "'w rate_api \<Rightarrow> RateLimiter \<Rightarrow> int \<Rightarrow> 'w \<Rightarrow> goerr option \<times> 'w" where
  "rl_WaitN api rl n w = (if \<not> rl_enabled rl then (None, w)
     else case rl_limiter rl of None \<Rightarrow> (Some nil_deref, w) | Some h \<Rightarrow> rate_WaitN api h n w)"

text \<open>A reservation is a handle; \<open>None\<close> is the empty \<open>rate.Reservation{}\<close>.\<close>

definition rl_Reserve :: "'w rate_api \<Rightarrow> RateLimiter \<Rightarrow> 'w \<Rightarrow> (goerr + nat option) \<times> 'w" where
  "rl_Reserve api rl w = (if \<not> rl_enabled rl then (Inr None, w)
     else case rl_limiter rl of None \<Rightarrow> (Inl nil_deref, w)
          | Some h \<Rightarrow> (case rate_Reserve api h w of (r, w') \<Rightarrow> (Inr (Some r), w')))"

definition rl_ReserveN ::
  "'w rate_api \<Rightarrow> RateLimiter \<Rightarrow> gotime \<Rightarrow> int \<Rightarrow> 'w \<Rightarrow> (goerr + nat option) \<times> 'w" where
  "rl_ReserveN api rl now n w = (if \<not> rl_enabled rl then (Inr None, w)
     else case rl_limiter rl of None \<Rightarrow> (Inl nil_deref, w)
          | Some h \<Rightarrow> (case rate_ReserveN api h now n w of (r, w') \<Rightarrow> (Inr (Some r), w')))"

definition rl_SetLimit :: "'w rate_api \<Rightarrow> RateLimiter \<Rightarrow> f64 \<Rightarrow> 'w \<Rightarrow> goerr option \<times> 'w" where
  "rl_SetLimit api rl r w = (if rl_enabled rl
     then case rl_limiter rl of None \<Rightarrow> (Some nil_deref, w) | Some h \<Rightarrow> (None, rate_SetLimit api h r w)
     else (None, w))"

definition rl_SetBurst :: "'w rate_api \<Rightarrow> RateLimiter \<Rightarrow> int \<Rightarrow> 'w \<Rightarrow> goerr option \<times> 'w" where
  "rl_SetBurst api rl burst w = (if rl_enabled rl
     then case rl_limiter rl of None \<Rightarrow> (Some nil_deref, w) | Some h \<Rightarrow> (None, rate_SetBurst api h burst w)
     else (None, w))"

definition rl_Tokens :: "'w rate_api \<Rightarrow> RateLimiter \<Rightarrow> 'w \<Rightarrow> (goerr + f64) \<times> 'w" where
  "rl_Tokens api rl w = (if \<not> rl_enabled rl then (Inr (Fin 0), w)
     else case rl_limiter rl of None \<Rightarrow> (Inl nil_deref, w)
          | Some h \<Rightarrow> (case rate_Tokens api h w of (t, w') \<Rightarrow> (Inr t, w')))"

definition rl_IsEnabled :: "RateLimiter \<Rightarrow> bool" where
  "rl_IsEnabled rl = rl_enabled rl"

definition rl_Burst :: "'w rate_api \<Rightarrow> RateLimiter \<Rightarrow> 'w \<Rightarrow> goerr + int" where
  "rl_Burst api rl w = (if \<not> rl_enabled rl then Inr 0
     else case rl_limiter rl of None \<Rightarrow> Inl nil_deref | Some h \<Rightarrow> Inr (rate_Burst api h w))"

definition rl_Limit :: "'w rate_api \<Rightarrow> RateLimiter \<Rightarrow> 'w \<Rightarrow> goerr + f64" where
  "rl_Limit api rl w = (if \<not> rl_enabled rl then Inr (rate_Inf api)
     else case rl_limiter rl of None \<Rightarrow> Inl nil_deref | Some h \<Rightarrow> Inr (rate_Limit api h w))"

lemmas rate_limiter_defs = rl_Allow_def rl_Wait_def rl_WaitN_def rl_Reserve_def rl_ReserveN_def
  rl_SetLimit_def rl_SetBurst_def rl_Tokens_def rl_Burst_def rl_Limit_def

text \<open>The limiters \<open>NewRateLimiter\<close> builds: no method call of the wrapper reaches a nil limiter.\<close>

definition rl_ok :: "RateLimiter \<Rightarrow> bool" where
  "rl_ok rl \<longleftrightarrow> (rl_enabled rl \<longleftrightarrow> rl_limiter rl \<noteq> None)"

lemma rl_ok_New: "NewRateLimiter api cfg w = (rl, w') \<Longrightarrow> rl_ok rl \<and> rl_enabled rl = rlc_Enabled cfg"
  by (auto simp: NewRateLimiter_def rl_ok_def split: if_splits prod.splits)

lemma rl_Wait_disabled [simp]: "\<not> rl_enabled rl \<Longrightarrow> rl_Wait api rl w = (None, w)"
  by (simp add: rl_Wait_def)

end
