(* ===== verification/Circuit_Breaker.thy ===== *)
theory Circuit_Breaker
  imports Rate_Limiter
begin

text \<open>
  \<^verbatim>\<open>breaker.go\<close>: the wrapper around \<open>sony/gobreaker\<close>. The breaker's state machine is third-party
  code; its documented interface is: \<open>Execute\<close> either rejects the request with an error of its own,
  or runs it, returns its result, and counts it as success or failure as \<open>IsSuccessful\<close> says. So
  \<open>gb_Admit\<close> is the decision, \<open>gb_Report\<close> the counting, \<open>gb_State\<close> the method \<open>State()\<close>. The two
  callbacks the package installs are part of the model.
\<close>

datatype gb_state = StateClosed | StateHalfOpen | StateOpen

record gb_Counts =
  gb_Requests :: "32 word"
  gb_TotalFailures :: "32 word"

record gb_Settings =
  gbs_Name :: string
  gbs_MaxRequests :: "32 word"
  gbs_Interval :: duration
  gbs_Timeout :: duration
  gbs_ReadyToTrip :: "gb_Counts \<Rightarrow> bool"
  gbs_IsSuccessful :: "goerr option \<Rightarrow> bool"

record 'w breaker_api =
  gb_New :: "gb_Settings \<Rightarrow> 'w \<Rightarrow> nat \<times> 'w"
  gb_Admit :: "nat \<Rightarrow> 'w \<Rightarrow> goerr option \<times> 'w"
  gb_Report :: "nat \<Rightarrow> bool \<Rightarrow> 'w \<Rightarrow> 'w"
  gb_State :: "nat \<Rightarrow> 'w \<Rightarrow> gb_state \<times> 'w"

record CircuitBreaker =
  cb_cb :: nat
  cb_enabled :: bool
  cb_filters :: "string list"

definition defaultBreakerFilters :: "string list" where
  "defaultBreakerFilters =
     [''429'', ''401'', ''unauthorized'', ''rate limit'', ''forbidden'',
      ''context deadline'', ''connection refused'', ''timeout'',
      ''500'', ''502'', ''503'', ''504'',
      ''internal error'', ''internal server error'',
      ''service unavailable'', ''bad gateway'', ''gateway timeout'']"

text \<open>The filters are a Go map used as a set; here the list of its keys.\<close>

definition breaker_filters :: "CircuitBreakerConfig \<Rightarrow> string list" where
  "breaker_filters cfg = defaultBreakerFilters @ map strings_ToLower (cbc_FilterErrors cfg)"

definition isFilteredFailure :: "goerr \<Rightarrow> string list \<Rightarrow> bool" where
  "isFilteredFailure err filters =
     (let errStr = strings_ToLower (err_Error err)
      in list_ex (\<lambda>substr. strings_Contains errStr substr) filters)"

definition ReadyToTrip :: "CircuitBreakerConfig \<Rightarrow> gb_Counts \<Rightarrow> bool" where
  "ReadyToTrip cfg counts =
     (if gb_Requests counts = 0 then False
      else let failureRatio = f64_div (f64_of_int (uint (gb_TotalFailures counts)))
                                      (f64_of_int (uint (gb_Requests counts)))
           in cbc_Threshold cfg \<le> uint (gb_TotalFailures counts) \<and> f64_le (Fin (1 / 2)) failureRatio)"

definition IsSuccessful :: "string list \<Rightarrow> goerr option \<Rightarrow> bool" where
  "IsSuccessful filters err = (case err of None \<Rightarrow> True | Some e \<Rightarrow> \<not> isFilteredFailure e filters)"

definition NewCircuitBreaker ::
  "'w breaker_api \<Rightarrow> CircuitBreakerConfig \<Rightarrow> 'w \<Rightarrow> CircuitBreaker \<times> 'w" where
  "NewCircuitBreaker api cfg w =
     (let filters = breaker_filters cfg;
          settings = \<lparr>gbs_Name = ''rpc-provider'',
                      gbs_MaxRequests = word_of_int (cbc_HalfOpenMaxCalls cfg),
                      gbs_Interval = cbc_Timeout cfg, gbs_Timeout = cbc_Timeout cfg,
                      gbs_ReadyToTrip = ReadyToTrip cfg, gbs_IsSuccessful = IsSuccessful filters\<rparr>
      in case gb_New api settings w of
           (h, w') \<Rightarrow> (\<lparr>cb_cb = h, cb_enabled = cbc_Enabled cfg, cb_filters = filters\<rparr>, w'))"

text \<open>
  \<open>Execute(fn)\<close>. The function runs on a caller's state \<open>'p\<close> and the world and yields an error or a
  value; \<open>err_of\<close> is the \<open>error\<close> it returns.
\<close>

definition err_of :: "goerr + 'a \<Rightarrow> goerr option" where
  "err_of r = (case r of Inl e \<Rightarrow> Some e | Inr _ \<Rightarrow> None)"

type_synonym ('p, 'w, 'a) rpc = "'p \<Rightarrow> 'w \<Rightarrow> (goerr + 'a) \<times> 'p \<times> 'w"

definition cb_Execute :: "'w breaker_api \<Rightarrow> CircuitBreaker \<Rightarrow> ('p, 'w, 'a) rpc \<Rightarrow> ('p, 'w, 'a) rpc" where
  "cb_Execute api cb fn p w =
     (if \<not> cb_enabled cb then fn p w
      else case gb_Admit api (cb_cb cb) w of
             (Some rejected, w1) \<Rightarrow> (Inl rejected, p, w1)
           | (None, w1) \<Rightarrow> (case fn p w1 of
               (r, p', w2) \<Rightarrow> (r, p', gb_Report api (cb_cb cb) (IsSuccessful (cb_filters cb) (err_of r)) w2)))"

definition cb_State :: "'w breaker_api \<Rightarrow> CircuitBreaker \<Rightarrow> 'w \<Rightarrow> gb_state \<times> 'w" where
  "cb_State api cb w = gb_State api (cb_cb cb) w"

definition cb_IsAvailable :: "'w breaker_api \<Rightarrow> CircuitBreaker \<Rightarrow> 'w \<Rightarrow> bool \<times> 'w" where
  "cb_IsAvailable api cb w =
     (if \<not> cb_enabled cb then (True, w)
      else case cb_State api cb w of (s, w') \<Rightarrow> (s \<noteq> StateOpen, w'))"

section \<open>The trip condition in exact arithmetic\<close>

lemma f64_round_half_le:
  fixes f r :: int
  assumes "0 \<le> f" and "0 < r" and "f < 2 ^ 32" and "r < 2 ^ 32"
  shows "1 / 2 \<le> f64_round (of_int f / of_int r) \<longleftrightarrow> r \<le> 2 * f"
proof
  have half: "f64_round (1 / 2) = 1 / 2" using f64_round_exact [of 1 "-1"] by (simp add: pow2_def)
  show "1 / 2 \<le> f64_round (of_int f / of_int r)" if "r \<le> 2 * f"
  proof -
    have "rat_of_int r \<le> of_int (2 * f)" using that by (simp only: of_int_le_iff)
    then have "1 / 2 \<le> rat_of_int f / of_int r" using assms(2) by (simp add: field_simps)
    then show ?thesis using f64_round_mono half by fastforce
  qed
  show "r \<le> 2 * f" if le: "1 / 2 \<le> f64_round (of_int f / of_int r)"
  proof (rule ccontr)
    assume "\<not> r \<le> 2 * f"
    then have "2 * f \<le> r - 1" by simp
    then have "rat_of_int (2 * f) \<le> of_int (r - 1)" by (simp only: of_int_le_iff)
    then have "rat_of_int f / of_int r \<le> 1 / 2 - 1 / (2 * of_int r)"
      using assms(2) by (simp add: field_simps)
    also have "\<dots> \<le> 1 / 2 - 1 / 2 ^ 33"
    proof -
      have "rat_of_int r \<le> of_int (2 ^ 32)" using assms(4) by (subst of_int_le_iff) simp
      then show ?thesis using assms(2) by (simp add: field_simps)
    qed
    also have "\<dots> = of_int (2 ^ 32 - 1) * pow2 (- 33)" by (simp add: pow2_def)
    finally have "f64_round (of_int f / of_int r) \<le> f64_round (of_int (2 ^ 32 - 1) * pow2 (- 33))"
      by (rule f64_round_mono)
    also have "\<dots> = of_int (2 ^ 32 - 1) * pow2 (- 33)" by (rule f64_round_exact) auto
    also have "\<dots> < 1 / 2" by (simp add: pow2_def)
    finally show False using le by simp
  qed
qed

lemma f64_of_int_u32: "f64_of_int (uint (w :: 32 word)) = Fin (of_int (uint w))"
  by (rule f64_of_int_exact) (use uint_lt2p [of w] in simp)

lemma f64_le_of_rat: "\<bar>a\<bar> < 2 ^ 1024 \<Longrightarrow> f64_le (Fin a) (f64_of_rat x) \<longleftrightarrow> a \<le> f64_round x"
  by (rule f64_of_rat_cases [of x]) (auto simp: abs_less_iff)

section \<open>Properties\<close>

text \<open>
  C29: The trip condition, computed by the code in double precision, is exactly the integer condition it
  is meant to be: some request was made, at least \<open>Threshold\<close> requests failed, and at least half of the
  requests failed. Rounding never matters, for any 32-bit counts.
\<close>

theorem breaker_trip_exact:
  "ReadyToTrip cfg counts \<longleftrightarrow>
     gb_Requests counts \<noteq> 0 \<and> cbc_Threshold cfg \<le> uint (gb_TotalFailures counts) \<and>
     uint (gb_Requests counts) \<le> 2 * uint (gb_TotalFailures counts)"
proof (cases "gb_Requests counts = 0")
  case False
  let ?f = "uint (gb_TotalFailures counts)" and ?r = "uint (gb_Requests counts)"
  have r: "0 < ?r" using False by (metis uint_0_iff uint_ge_0 order_le_less)
  have b: "?f < 2 ^ 32" "?r < 2 ^ 32" using uint_lt2p [of "gb_TotalFailures counts"] uint_lt2p [of "gb_Requests counts"] by simp_all
  have "f64_div (f64_of_int ?f) (f64_of_int ?r) = f64_of_rat (of_int ?f / of_int ?r)"
    using False by (simp add: f64_of_int_u32 unsigned_eq_0_iff)
  moreover have "\<bar>1 / 2 :: rat\<bar> < 2 ^ 1024" by simp
  ultimately show ?thesis
    using False f64_round_half_le [OF _ r b] by (simp add: ReadyToTrip_def Let_def f64_le_of_rat)
qed (simp add: ReadyToTrip_def)

end
