(* ===== verification/Retry.thy ===== *)
theory Retry
  imports Circuit_Breaker
begin

text \<open>
  \<^verbatim>\<open>retry.go\<close>: the retry loop with exponential backoff around the rate limiter and the circuit
  breaker. The clock, the random generator and the conversion of an out-of-range float belong to
  the runtime: \<open>rt_After\<close> is the \<open>select\<close> between \<open>ctx.Done()\<close> (with \<open>ctx.Err()\<close>) and
  \<open>time.After(d)\<close> (\<open>None\<close>). \<open>rt_MapOrder\<close> is the order in which \<open>range\<close> visits the keys of a map.
  \<open>rt_Sched n\<close> is the scheduler: which of \<open>n\<close> runnable goroutines runs next, and whether it takes the
  \<open>Done\<close> case of a \<open>select\<close> whose other case is ready too; \<open>rt_CtxErr\<close> is \<open>ctx.Err()\<close> of the
  caller's context.
\<close>

record 'w runtime_api =
  rt_Now :: "'w \<Rightarrow> gotime \<times> 'w"
  rt_After :: "duration \<Rightarrow> 'w \<Rightarrow> goerr option \<times> 'w"
  rt_Float64 :: "'w \<Rightarrow> f64 \<times> 'w"
  rt_OutOfRange :: "f64 \<Rightarrow> int"
  rt_MapOrder :: "string list \<Rightarrow> 'w \<Rightarrow> string list \<times> 'w"
  rt_Sched :: "nat \<Rightarrow> 'w \<Rightarrow> (nat \<times> bool) \<times> 'w"
  rt_CtxErr :: "'w \<Rightarrow> goerr option"

definition retryableErrors :: "string list" where
  "retryableErrors = [''429'', ''rate limit'', ''timeout'', ''context deadline'',
     ''connection refused'', ''network'', ''temporary'']"

definition nonRetryableErrors :: "string list" where
  "nonRetryableErrors = [''401'', ''unauthorized'', ''forbidden'']"

definition isRetryable :: "goerr option \<Rightarrow> bool" where
  "isRetryable err = (case err of None \<Rightarrow> False
     | Some e \<Rightarrow>
        let errStr = strings_ToLower (err_Error e) in
        if list_ex (\<lambda>ne. strings_Contains errStr ne) nonRetryableErrors then False
        else list_ex (\<lambda>re. strings_Contains errStr re) retryableErrors)"

definition minBackoffDelay :: duration where
  "minBackoffDelay = 1000000"

text \<open>\<open>attempt\<close> counts from 1, so the exponent is a natural number.\<close>

definition calculateBackoff :: "'w runtime_api \<Rightarrow> nat \<Rightarrow> RetryConfig \<Rightarrow> 'w \<Rightarrow> duration \<times> 'w" where
  "calculateBackoff rt attempt cfg w =
     (let delay = f64_mul (f64_of_int (rc_BaseDelay cfg)) (math_Pow2 (attempt - 1));
          delay = (if 0 < rc_MaxDelay cfg \<and> f64_lt (f64_of_int (rc_MaxDelay cfg)) delay
                   then f64_of_int (rc_MaxDelay cfg) else delay);
          (delay, w') = (if rc_Jitter cfg
                   then case rt_Float64 rt w of
                          (u, w1) \<Rightarrow> (f64_add delay (f64_mul (f64_mul u (Fin (1 / 2))) delay), w1)
                   else (delay, w));
          d = f64_to_i64 (rt_OutOfRange rt) delay
      in (if minBackoffDelay < d then d else minBackoffDelay, w'))"

definition retries_exhausted :: "int \<Rightarrow> goerr \<Rightarrow> goerr" where
  "retries_exhausted maxAttempts lastErr =
     ErrWrap (sentinel_msg ErrRetriesExhausted @ '': '' @ fmt_d maxAttempts @
              '' attempts exceeded, last error: '' @ err_Error lastErr)
       [Sentinel ErrRetriesExhausted, lastErr]"

text \<open>
  The loop, at the given attempt with \<open>left\<close> further attempts allowed after it, so that
  \<open>attempt \<ge> maxAttempts\<close> is \<open>left = 0\<close>.
\<close>

fun retry_from :: "'w runtime_api \<Rightarrow> 'w rate_api \<Rightarrow> 'w breaker_api \<Rightarrow> RetryConfig \<Rightarrow> int \<Rightarrow>
    RateLimiter \<Rightarrow> CircuitBreaker \<Rightarrow> ('p, 'w, 'a) rpc \<Rightarrow> nat \<Rightarrow> nat \<Rightarrow> ('p, 'w, 'a) rpc" where
  "retry_from rt ra ba cfg maxAttempts limiter cb fn left attempt p w =
     (case rl_Wait ra limiter w of
        (Some err, w1) \<Rightarrow> (Inl (errorf_w ''rate limiter wait failed: '' err), p, w1)
      | (None, w1) \<Rightarrow>
          (case cb_Execute ba cb fn p w1 of
             (Inr x, p2, w2) \<Rightarrow> (Inr x, p2, w2)
           | (Inl err, p2, w2) \<Rightarrow>
               if \<not> isRetryable (Some err) then (Inl err, p2, w2)
               else (case left of
                       0 \<Rightarrow> (Inl (retries_exhausted maxAttempts err), p2, w2)
                     | Suc k \<Rightarrow>
                         (case calculateBackoff rt attempt cfg w2 of
                            (d, w3) \<Rightarrow>
                              (case rt_After rt d w3 of
                                 (Some ctxErr, w4) \<Rightarrow> (Inl ctxErr, p2, w4)
                               | (None, w4) \<Rightarrow>
                                   retry_from rt ra ba cfg maxAttempts limiter cb fn k (Suc attempt) p2 w4)))))"

declare retry_from.simps [simp del]

definition WithRetry :: "'w runtime_api \<Rightarrow> 'w rate_api \<Rightarrow> 'w breaker_api \<Rightarrow> RetryConfig \<Rightarrow>
    ('p, 'w, 'a) rpc \<Rightarrow> RateLimiter \<Rightarrow> CircuitBreaker \<Rightarrow> ('p, 'w, 'a) rpc" where
  "WithRetry rt ra ba cfg fn limiter cb p w =
     (let maxAttempts = (if rc_MaxAttempts cfg < 1 then 1 else rc_MaxAttempts cfg)
      in retry_from rt ra ba cfg maxAttempts limiter cb fn (nat (maxAttempts - 1)) 1 p w)"

section \<open>What the loop does to the caller's state\<close>

text \<open>A relation every run of \<open>fn\<close> respects holds, once per physical attempt, across the loop.\<close>

lemma cb_Execute_cases:
  assumes "cb_Execute ba cb fn p w = (r, p', w')"
  obtains (rejected) e where "r = Inl e" "p' = p"
  | (ran) w1 w2 where "fn p w1 = (r, p', w2)"
  using assms by (auto simp: cb_Execute_def split: if_splits prod.splits option.splits)

lemma retry_from_cases:
  assumes "retry_from rt ra ba cfg m limiter cb fn left attempt p w = (r, p', w')"
  obtains (limited) e where "r = Inl (errorf_w ''rate limiter wait failed: '' e)" "p' = p"
  | (final) w1 where "cb_Execute ba cb fn p w1 = (r, p', w')" "\<And>e. r = Inl e \<Longrightarrow> \<not> isRetryable (Some e)"
  | (exhausted) err w1 where "left = 0" "cb_Execute ba cb fn p w1 = (Inl err, p', w')"
      "isRetryable (Some err)" "r = Inl (retries_exhausted m err)"
  | (cancelled) err w1 w2 w3 d e where "cb_Execute ba cb fn p w1 = (Inl err, p', w2)"
      "isRetryable (Some err)" "rt_After rt d w3 = (Some e, w')" "r = Inl e"
  | (again) k err w1 p2 w2 w4 where "left = Suc k" "cb_Execute ba cb fn p w1 = (Inl err, p2, w2)"
      "isRetryable (Some err)" "retry_from rt ra ba cfg m limiter cb fn k (Suc attempt) p2 w4 = (r, p', w')"
proof -
  note unf = assms [unfolded retry_from.simps [of _ _ _ _ _ _ _ _ left]]
  show thesis
  proof (cases "rl_Wait ra limiter w")
    case (Pair lim w1)
    show thesis
    proof (cases lim)
      case (Some e)
      with Pair unf limited show thesis by auto
    next
      case None
      obtain x p2 w2 where x: "cb_Execute ba cb fn p w1 = (x, p2, w2)" by (cases "cb_Execute ba cb fn p w1")
      show thesis
      proof (cases "\<exists>err. x = Inl err \<and> isRetryable (Some err)")
        case False
        with Pair None x unf have "(r, p', w') = (x, p2, w2)" by (auto split: sum.splits if_splits)
        with x False final show thesis by auto
      next
        case True
        then obtain err where err: "x = Inl err" "isRetryable (Some err)" by blast
        show thesis
        proof (cases left)
          case 0
          with Pair None x err unf exhausted show thesis by simp
        next
          case (Suc k)
          obtain d w3 where d: "calculateBackoff rt attempt cfg w2 = (d, w3)"
            by (cases "calculateBackoff rt attempt cfg w2")
          obtain a w4 where a: "rt_After rt d w3 = (a, w4)" by (cases "rt_After rt d w3")
          show thesis
          proof (cases a)
            case None
            with Pair \<open>lim = None\<close> x err Suc d a unf again show thesis by simp
          next
            case (Some e)
            with Pair \<open>lim = None\<close> x err Suc d a unf cancelled show thesis by simp
          qed
        qed
      qed
    qed
  qed
qed

text \<open>\<open>attempts fn n p p'\<close>: \<open>n\<close> physical runs of \<open>fn\<close>, one after the other, take \<open>p\<close> to \<open>p'\<close>.\<close>

inductive attempts :: "('p, 'w, 'a) rpc \<Rightarrow> nat \<Rightarrow> 'p \<Rightarrow> 'p \<Rightarrow> bool" for fn where
  none: "attempts fn 0 p p"
| more: "fn p w = (r, p1, w') \<Longrightarrow> attempts fn n p1 p2 \<Longrightarrow> attempts fn (Suc n) p p2"

lemma attempts_one: "fn p w = (r, p', w') \<Longrightarrow> attempts fn 1 p p'"
  using attempts.intros by (metis One_nat_def)

lemma Execute_attempts:
  "cb_Execute ba cb fn p w = (r, p', w') \<Longrightarrow> \<exists>n \<le> Suc j. attempts fn n p p'"
  by (erule cb_Execute_cases) (blast intro: attempts.none attempts_one [unfolded One_nat_def])+

lemma Execute_value: "cb_Execute ba cb fn p w = (Inr x, p', w') \<Longrightarrow> \<exists>w0 w1. fn p w0 = (Inr x, p', w1)"
  by (erule cb_Execute_cases) auto

lemma attempts_trans:
  "attempts fn m p p1 \<Longrightarrow> attempts fn n p1 p2 \<Longrightarrow> attempts fn (m + n) p p2"
  by (induction rule: attempts.induct) (auto intro: attempts.intros)

lemma retry_from_attempts:
  "retry_from rt ra ba cfg m limiter cb fn left attempt p w = (r, p', w') \<Longrightarrow>
   \<exists>n \<le> Suc left. attempts fn n p p'"
proof (induction left arbitrary: attempt p w)
  case 0
  then show ?case
    by (cases rule: retry_from_cases) (blast intro: attempts.none Execute_attempts)+
next
  case (Suc k)
  from Suc.prems show ?case
  proof (cases rule: retry_from_cases)
    case (again k' err w1 p2 w2 w4)
    from Execute_attempts [OF again(2), of 0] obtain n where n: "n \<le> 1" "attempts fn n p p2" by auto
    from again Suc.IH obtain n' where "n' \<le> Suc k" "attempts fn n' p2 p'" by blast
    with n attempts_trans show ?thesis by (metis add_mono plus_1_eq_Suc)
  qed (blast intro: attempts.none Execute_attempts)+
qed

text \<open>
  What the loop has been through: \<open>n\<close> times in a row the limiter let it pass, the call ended with a retryable error, and the
  wait for the backoff of that attempt was not cut short.
\<close>

inductive retried :: "'w runtime_api \<Rightarrow> 'w rate_api \<Rightarrow> 'w breaker_api \<Rightarrow> RetryConfig \<Rightarrow> RateLimiter \<Rightarrow> CircuitBreaker \<Rightarrow>
    ('p, 'w, 'a) rpc \<Rightarrow> 'p \<Rightarrow> 'w \<Rightarrow> nat \<Rightarrow> 'p \<Rightarrow> 'w \<Rightarrow> bool" for rt ra ba cfg limiter cb fn p w where
  none: "retried rt ra ba cfg limiter cb fn p w 0 p w"
| again: "retried rt ra ba cfg limiter cb fn p w n p1 w1 \<Longrightarrow> rl_Wait ra limiter w1 = (None, w2) \<Longrightarrow>
    cb_Execute ba cb fn p1 w2 = (Inl err, p2, w3) \<Longrightarrow> isRetryable (Some err) \<Longrightarrow>
    calculateBackoff rt (Suc n) cfg w3 = (d, w4) \<Longrightarrow> rt_After rt d w4 = (None, w5) \<Longrightarrow>
    retried rt ra ba cfg limiter cb fn p w (Suc n) p2 w5"

text \<open>How the loop ends in its attempt \<open>n + 1\<close> of at most \<open>m\<close>.\<close>

inductive retry_ends :: "'w runtime_api \<Rightarrow> 'w rate_api \<Rightarrow> 'w breaker_api \<Rightarrow> RetryConfig \<Rightarrow> RateLimiter \<Rightarrow> CircuitBreaker \<Rightarrow>
    ('p, 'w, 'a) rpc \<Rightarrow> nat \<Rightarrow> nat \<Rightarrow> 'p \<Rightarrow> 'w \<Rightarrow> goerr + 'a \<Rightarrow> 'p \<Rightarrow> 'w \<Rightarrow> bool" for rt ra ba cfg limiter cb fn m n p w where
  limited: "rl_Wait ra limiter w = (Some e, w') \<Longrightarrow>
    retry_ends rt ra ba cfg limiter cb fn m n p w (Inl (errorf_w ''rate limiter wait failed: '' e)) p w'"
| succeeded: "rl_Wait ra limiter w = (None, w1) \<Longrightarrow> cb_Execute ba cb fn p w1 = (Inr x, p', w') \<Longrightarrow>
    retry_ends rt ra ba cfg limiter cb fn m n p w (Inr x) p' w'"
| fatal: "rl_Wait ra limiter w = (None, w1) \<Longrightarrow> cb_Execute ba cb fn p w1 = (Inl err, p', w') \<Longrightarrow> \<not> isRetryable (Some err) \<Longrightarrow>
    retry_ends rt ra ba cfg limiter cb fn m n p w (Inl err) p' w'"
| exhausted: "rl_Wait ra limiter w = (None, w1) \<Longrightarrow> cb_Execute ba cb fn p w1 = (Inl err, p', w') \<Longrightarrow> isRetryable (Some err) \<Longrightarrow>
    Suc n = m \<Longrightarrow> retry_ends rt ra ba cfg limiter cb fn m n p w (Inl (retries_exhausted (int m) err)) p' w'"
| cancelled: "rl_Wait ra limiter w = (None, w1) \<Longrightarrow> cb_Execute ba cb fn p w1 = (Inl err, p', w2) \<Longrightarrow> isRetryable (Some err) \<Longrightarrow>
    Suc n < m \<Longrightarrow> calculateBackoff rt (Suc n) cfg w2 = (d, w3) \<Longrightarrow> rt_After rt d w3 = (Some e, w') \<Longrightarrow>
    retry_ends rt ra ba cfg limiter cb fn m n p w (Inl e) p' w'"

lemma retry_from_trace:
  assumes "retry_from rt ra ba cfg (int m) limiter cb fn left (Suc n) p1 w1 = (r, p', w')"
    and "retried rt ra ba cfg limiter cb fn p w n p1 w1" and "m = Suc (n + left)"
  shows "\<exists>k < m. \<exists>p2 w2. retried rt ra ba cfg limiter cb fn p w k p2 w2 \<and> retry_ends rt ra ba cfg limiter cb fn m k p2 w2 r p' w'"
  using assms
proof (induction left arbitrary: n p1 w1)
  case 0
  have "retry_ends rt ra ba cfg limiter cb fn m n p1 w1 r p' w'"
    using 0 unfolding retry_from.simps [of _ _ _ _ _ _ _ _ 0]
    by (auto simp del: of_nat_Suc split: prod.splits option.splits sum.splits if_splits intro: retry_ends.intros)
  with 0 show ?case by auto
next
  case (Suc k)
  show ?case
  proof (cases "retry_ends rt ra ba cfg limiter cb fn m n p1 w1 r p' w'")
    case True
    moreover have "n < m" using Suc.prems(3) by simp
    ultimately show ?thesis using Suc.prems(2) by blast
  next
    case False
    then obtain w2 err p2 w3 d w4 w5 where s: "rl_Wait ra limiter w1 = (None, w2)" "cb_Execute ba cb fn p1 w2 = (Inl err, p2, w3)"
      "isRetryable (Some err)" "calculateBackoff rt (Suc n) cfg w3 = (d, w4)" "rt_After rt d w4 = (None, w5)"
      and r: "retry_from rt ra ba cfg (int m) limiter cb fn k (Suc (Suc n)) p2 w5 = (r, p', w')"
      using Suc.prems(1,3) unfolding retry_from.simps [of _ _ _ _ _ _ _ _ "Suc k"]
      by (auto split: prod.splits option.splits sum.splits if_splits intro: retry_ends.intros)
    from Suc.IH [OF r retried.again [OF Suc.prems(2) s]] Suc.prems(3) show ?thesis by simp
  qed
qed

inductive_cases retried_SucE: "retried rt ra ba cfg limiter cb fn p w (Suc n) p1 w1"
inductive_cases retried_0E: "retried rt ra ba cfg limiter cb fn p w 0 p1 w1"

lemma WithRetry_eq:
  "WithRetry rt ra ba cfg fn limiter cb p w =
   retry_from rt ra ba cfg (max 1 (rc_MaxAttempts cfg)) limiter cb fn (nat (max 1 (rc_MaxAttempts cfg) - 1)) 1 p w"
  by (simp add: WithRetry_def max_def Let_def)

section \<open>Backoff in exact arithmetic\<close>

lemma backoff_exact:
  assumes "0 \<le> b" and "b \<le> 2 ^ 53" and "n < 1024" and "b * 2 ^ n \<le> 2 ^ 53"
  shows "f64_mul (f64_of_int b) (math_Pow2 n) = Fin (of_int (b * 2 ^ n))"
proof -
  have b: "f64_of_int b = Fin (of_int b)" using assms by (intro f64_of_int_exact) simp
  have p: "rat_of_int b * 2 ^ n = of_int (b * 2 ^ n)" by simp
  have ex: "f64_round (rat_of_int b * 2 ^ n) = rat_of_int b * 2 ^ n"
    using f64_round_exact [of b "int n"] assms by (simp add: pow2_nat)
  have "b * 2 ^ n < 2 ^ 1024" using assms(4) by (rule order.strict_trans1) simp
  then have "rat_of_int (b * 2 ^ n) < of_int (2 ^ 1024)" by (simp only: of_int_less_iff)
  then have "f64_of_rat (rat_of_int b * 2 ^ n) = Fin (rat_of_int b * 2 ^ n)"
    using assms(1) by (intro f64_of_rat_exact [OF ex]) simp
  then show ?thesis using assms(3) by (simp add: b math_Pow2_def)
qed

lemma backoff_product:
  assumes "0 \<le> b" and "b \<le> 2 ^ 53" and "n < 1024" and "0 < m" and "m \<le> 2 ^ 53"
  defines "d \<equiv> f64_mul (f64_of_int b) (math_Pow2 n)"
  shows "(if f64_lt (f64_of_int m) d then f64_of_int m else d) = Fin (of_int (min m (b * 2 ^ n)))"
proof -
  have m: "f64_of_int m = Fin (of_int m)" using assms by (intro f64_of_int_exact) simp
  show ?thesis
  proof (cases "m < b * 2 ^ n")
    case True
    have b: "f64_of_int b = Fin (of_int b)" using assms by (intro f64_of_int_exact) simp
    have ex: "f64_round (rat_of_int b * 2 ^ n) = rat_of_int b * 2 ^ n"
      using f64_round_exact [of b "int n"] assms by (simp add: pow2_nat)
    have dm: "d = f64_of_rat (rat_of_int b * 2 ^ n)" using assms(3) by (simp add: d_def b math_Pow2_def)
    from True have "rat_of_int m < of_int (b * 2 ^ n)" by (simp only: of_int_less_iff)
    then have "f64_lt (Fin (of_int m)) d"
      unfolding dm by (cases rule: f64_of_rat_cases [of "rat_of_int b * 2 ^ n"]) (use ex assms(4) in auto)
    with True m show ?thesis by (simp add: min_def)
  next
    case False
    then have "d = Fin (of_int (b * 2 ^ n))" unfolding d_def using assms by (intro backoff_exact) auto
    moreover have "rat_of_int (b * 2 ^ n) \<le> of_int m" using False by (simp only: of_int_le_iff)
    ultimately show ?thesis using False m by (auto simp: min_def)
  qed
qed

lemma f64_to_i64_floor: "0 \<le> x \<Longrightarrow> x < 2 ^ 63 \<Longrightarrow> f64_to_i64 oor (Fin x) = \<lfloor>x\<rfloor>"
proof -
  assume "0 \<le> x" and "x < 2 ^ 63"
  moreover from this have "0 \<le> \<lfloor>x\<rfloor>" "\<lfloor>x\<rfloor> < 2 ^ 63" by (simp_all add: floor_less_iff)
  ultimately show ?thesis by (simp add: f64_to_i64_def f64_trunc_def in_i64_def)
qed

text \<open>The jittered delay, in double precision, lies between the delay and one and a half times the delay.\<close>

lemma jitter_bounds:
  assumes e: "0 \<le> e" "rat_of_int e \<le> 2 ^ 51" and u: "0 \<le> u" "u \<le> 1"
    and x_def: "x = f64_to_i64 oor (f64_add (Fin (of_int e)) (f64_mul (f64_mul (Fin u) (Fin (1 / 2))) (Fin (of_int e))))"
  shows "e \<le> x \<and> 2 * x \<le> 3 * e"
proof -
  have half: "f64_round (1 / 2) = 1 / 2" using f64_round_exact [of 1 "-1"] by (simp add: pow2_def)
  have z: "f64_round (rat_of_int k) = of_int k" if "\<bar>k\<bar> \<le> 2 ^ 53" for k using f64_round_of_int that by simp
  have h: "f64_round (rat_of_int k / 2) = of_int k / 2" if "\<bar>k\<bar> \<le> 2 ^ 53" for k
    using f64_round_exact [of k "-1"] that by (simp add: pow2_def)
  have e': "e \<le> 2 ^ 51" using e(2) by (metis of_int_le_iff of_int_numeral of_int_power)
  obtain v where v: "f64_of_rat (u * (1 / 2)) = Fin v" "0 \<le> v" "v \<le> 1 / 2"
    by (rule f64_of_rat_between [of 0 "u * (1 / 2)" "1 / 2"]) (use u half in auto)
  have "v * of_int e \<le> (1 / 2) * of_int e" by (rule mult_right_mono) (use v e in auto)
  then obtain y where y: "f64_of_rat (v * of_int e) = Fin y" "0 \<le> y" "y \<le> of_int e / 2"
    by (rule_tac f64_of_rat_between [of 0 "v * of_int e" "of_int e / 2"]) (use v e e' h [of e] in auto)
  obtain t where t: "f64_of_rat (of_int e + y) = Fin t" "of_int e \<le> t" "t \<le> of_int (3 * e) / 2"
    by (rule f64_of_rat_between [of "of_int e" "of_int e + y" "of_int (3 * e) / 2"])
      (use y e e' z [of e] h [of "3 * e"] in auto)
  have "0 \<le> t" "t < 2 ^ 63" using t e by auto
  then have x: "x = \<lfloor>t\<rfloor>" using v y t f64_to_i64_floor by (simp add: x_def)
  have "e \<le> \<lfloor>t\<rfloor>" using t(2) by (simp add: le_floor_iff)
  moreover have "rat_of_int \<lfloor>t\<rfloor> \<le> of_int (3 * e) / 2" by (rule order_trans [OF of_int_floor_le t(3)])
  then have "2 * rat_of_int \<lfloor>t\<rfloor> \<le> of_int (3 * e)" by simp
  then have "2 * \<lfloor>t\<rfloor> \<le> 3 * e" by (metis of_int_le_iff of_int_mult of_int_numeral)
  ultimately show ?thesis using x by simp
qed

section \<open>Properties\<close>

text \<open>
  C27: The retry loop does what its configuration says. It goes through some number \<open>n < m\<close> of attempts, \<open>m = max 1 MaxAttempts\<close>, that
  each passed the limiter, ended with a retryable error and were followed by a full backoff, and ends in the next one: with the
  limiter's error; with the value of the call; with an error of the call that is not retryable; with \<open>ErrRetriesExhausted\<close>, exactly when the error is
  retryable and this was the last of the \<open>m\<close> attempts; or with the context's error when the backoff is cut short. At most \<open>m\<close> physical calls are made.
\<close>

theorem with_retry_outcome:
  assumes "WithRetry rt ra ba cfg fn limiter cb p w = (r, p', w')" and m: "m = nat (max 1 (rc_MaxAttempts cfg))"
  shows "(\<exists>n < m. \<exists>p1 w1. retried rt ra ba cfg limiter cb fn p w n p1 w1 \<and> retry_ends rt ra ba cfg limiter cb fn m n p1 w1 r p' w') \<and>
         (\<exists>n \<le> m. attempts fn n p p')"
proof
  have i: "int m = max 1 (rc_MaxAttempts cfg)" and s: "m = Suc (0 + nat (max 1 (rc_MaxAttempts cfg) - 1))" using m by simp_all
  note run = assms(1) [unfolded WithRetry_eq]
  show "\<exists>n < m. \<exists>p1 w1. retried rt ra ba cfg limiter cb fn p w n p1 w1 \<and> retry_ends rt ra ba cfg limiter cb fn m n p1 w1 r p' w'"
    by (rule retry_from_trace [OF _ retried.none s]) (use run i in simp)
  show "\<exists>n \<le> m. attempts fn n p p'" using retry_from_attempts [OF run] s by simp
qed

text \<open>A call that times out once and then answers, with two attempts allowed.\<close>

definition flaky :: "nat \<Rightarrow> nat \<Rightarrow> (goerr + nat) \<times> nat \<times> nat" where
  "flaky p w = (if p = 0 then Inl (ErrNew ''i/o timeout'') else Inr 42, Suc p, w)"

theorem with_retry_outcome_witness:
  "\<forall>(rt :: nat runtime_api) ra ba. \<exists>w'.
     WithRetry (rt\<lparr>rt_After := \<lambda>d w. (None, Suc w)\<rparr>) ra ba \<lparr>rc_MaxAttempts = 2, rc_BaseDelay = 0, rc_MaxDelay = 0, rc_Jitter = False\<rparr>
       flaky \<lparr>rl_limiter = None, rl_enabled = False\<rparr> \<lparr>cb_cb = 0, cb_enabled = False, cb_filters = []\<rparr> 0 7 = (Inr 42, 2, w')"
proof (intro allI)
  fix rt :: "nat runtime_api" and ra ba
  let ?rt = "rt\<lparr>rt_After := \<lambda>d w. (None, Suc w)\<rparr>" and ?cfg = "\<lparr>rc_MaxAttempts = 2, rc_BaseDelay = 0, rc_MaxDelay = 0, rc_Jitter = False\<rparr>"
    and ?rl = "\<lparr>rl_limiter = None, rl_enabled = False\<rparr>" and ?cb = "\<lparr>cb_cb = 0, cb_enabled = False, cb_filters = []\<rparr>"
  obtain r p' w' where run: "WithRetry ?rt ra ba ?cfg flaky ?rl ?cb 0 7 = (r, p', w')" by (rule prod_cases3)
  have x: "cb_Execute ba ?cb flaky p w = flaky p w" "rl_Wait ra ?rl w = (None, w)" for p w
    by (simp_all add: cb_Execute_def rl_Wait_def)
  have t: "isRetryable (Some (ErrNew ''i/o timeout''))" by code_simp
  obtain n p1 w1 where n: "n < 2" "retried ?rt ra ba ?cfg ?rl ?cb flaky 0 7 n p1 w1" "retry_ends ?rt ra ba ?cfg ?rl ?cb flaky 2 n p1 w1 r p' w'"
    using with_retry_outcome [OF run refl] by auto
  have "p1 = n" using n(1,2) by (cases n) (auto simp: x flaky_def less_Suc_eq numeral_2_eq_2 elim!: retried_SucE retried_0E split: if_splits)
  with n(1,3) have "r = Inr 42 \<and> p' = 2" using t by (auto simp: x flaky_def elim!: retry_ends.cases split: if_splits)
  with run show "\<exists>w'. WithRetry ?rt ra ba ?cfg flaky ?rl ?cb 0 7 = (Inr 42, 2, w')" by blast
qed

text \<open>
  C28: Backoff bounds. Let the exact delay be \<open>BaseDelay * 2^(attempt-1)\<close>, capped at \<open>MaxDelay\<close> if that is positive and not capped
  otherwise. For sane configurations (a cap, or where there is none an exact delay, of at most \<open>2^51\<close> ns, 26 days; at most 1024 attempts) the delay the code
  computes in floating point is the exact delay, but at least one millisecond, without jitter; with jitter it is at least
  that, and at most one and a half times the exact delay or one millisecond.
\<close>

theorem backoff_bounds:
  assumes attempt: "1 \<le> attempt" "attempt \<le> 1024"
    and base: "0 \<le> rc_BaseDelay cfg" "rc_BaseDelay cfg \<le> 2 ^ 53" and cap: "rc_MaxDelay cfg \<le> 2 ^ 51"
    and nocap: "rc_MaxDelay cfg \<le> 0 \<longrightarrow> rc_BaseDelay cfg * 2 ^ (attempt - 1) \<le> 2 ^ 51"
    and e_def: "e = (if 0 < rc_MaxDelay cfg then min (rc_MaxDelay cfg) (rc_BaseDelay cfg * 2 ^ (attempt - 1))
                     else rc_BaseDelay cfg * 2 ^ (attempt - 1))"
    and rand: "\<And>w u w'. rt_Float64 rt w = (u, w') \<Longrightarrow> \<exists>x. u = Fin x \<and> 0 \<le> x \<and> x \<le> 1"
    and run: "calculateBackoff rt attempt cfg w = (d, w')"
  shows "(\<not> rc_Jitter cfg \<longrightarrow> d = max 1000000 e) \<and> max 1000000 e \<le> d \<and> 2 * d \<le> max 2000000 (3 * e)"
proof -
  have e: "0 \<le> e" "e \<le> 2 ^ 51" using base cap nocap by (auto simp: e_def)
  have n: "attempt - 1 < 1024" using attempt by linarith
  have delay: "(if 0 < rc_MaxDelay cfg \<and> f64_lt (f64_of_int (rc_MaxDelay cfg)) (f64_mul (f64_of_int (rc_BaseDelay cfg)) (math_Pow2 (attempt - 1)))
      then f64_of_int (rc_MaxDelay cfg) else f64_mul (f64_of_int (rc_BaseDelay cfg)) (math_Pow2 (attempt - 1))) = Fin (of_int e)"
  proof (cases "0 < rc_MaxDelay cfg")
    case True
    with backoff_product [OF base n True] cap show ?thesis by (simp add: e_def)
  next
    case False
    with backoff_exact [OF base n] nocap show ?thesis by (simp add: e_def)
  qed
  have e2: "rat_of_int e \<le> 2 ^ 51"
  proof -
    have "rat_of_int e \<le> of_int (2 ^ 51)" using e(2) by (simp only: of_int_le_iff)
    then show ?thesis by simp
  qed
  obtain x where x: "x = f64_to_i64 (rt_OutOfRange rt) (if rc_Jitter cfg then
      f64_add (Fin (of_int e)) (f64_mul (f64_mul (fst (rt_Float64 rt w)) (Fin (1 / 2))) (Fin (of_int e))) else Fin (of_int e))"
    "d = (if minBackoffDelay < x then x else minBackoffDelay)"
    using run unfolding calculateBackoff_def Let_def delay by (auto split: if_splits prod.splits)
  have "(\<not> rc_Jitter cfg \<longrightarrow> x = e) \<and> e \<le> x \<and> 2 * x \<le> 3 * e"
  proof (cases "rc_Jitter cfg")
    case False
    then have "x = e" using x(1) f64_to_i64_floor [of "of_int e"] e e2 by simp
    with e show ?thesis by simp
  next
    case True
    obtain u where u: "fst (rt_Float64 rt w) = Fin u" "0 \<le> u" "u \<le> 1" using rand [of w] by (cases "rt_Float64 rt w") auto
    with True x(1) jitter_bounds [OF e(1) e2 u(2,3), of x "rt_OutOfRange rt"] show ?thesis by (simp only: if_True) simp
  qed
  then show ?thesis using x(2) unfolding minBackoffDelay_def by auto
qed

theorem backoff_bounds_witness:
  "\<forall>(rt :: nat runtime_api) w.
     fst (calculateBackoff (rt\<lparr>rt_Float64 := \<lambda>w. (Fin 0, w)\<rparr>) 3
       \<lparr>rc_MaxAttempts = 5, rc_BaseDelay = 1000000000, rc_MaxDelay = 3000000000, rc_Jitter = False\<rparr> w) = 3000000000 \<and>
     fst (calculateBackoff (rt\<lparr>rt_Float64 := \<lambda>w. (Fin 0, w)\<rparr>) 3
       \<lparr>rc_MaxAttempts = 5, rc_BaseDelay = 1000000000, rc_MaxDelay = 0, rc_Jitter = False\<rparr> w) = 4000000000"
proof (intro allI)
  fix rt :: "nat runtime_api" and w
  let ?rt = "rt\<lparr>rt_Float64 := \<lambda>w. (Fin 0, w)\<rparr>"
  let ?cfg = "\<lambda>m. \<lparr>rc_MaxAttempts = 5, rc_BaseDelay = 1000000000, rc_MaxDelay = m, rc_Jitter = False\<rparr>"
  have r: "\<exists>x. u = Fin x \<and> 0 \<le> x \<and> x \<le> 1" if "rt_Float64 ?rt w = (u, w')" for w u w' using that by auto
  have "fst (calculateBackoff ?rt 3 (?cfg m) w) = (if 0 < m then min m 4000000000 else 4000000000)" if "m = 3000000000 \<or> m = 0" for m
    using backoff_bounds [of 3 "?cfg m" _ ?rt w "fst (calculateBackoff ?rt 3 (?cfg m) w)" "snd (calculateBackoff ?rt 3 (?cfg m) w)", OF _ _ _ _ _ _ refl r] that
    by auto
  from this [of 3000000000] this [of 0]
  show "fst (calculateBackoff ?rt 3 (?cfg 3000000000) w) = 3000000000 \<and> fst (calculateBackoff ?rt 3 (?cfg 0) w) = 4000000000" by simp
qed

end
