(* ===== verification/Quota.thy ===== *)
theory Quota
  imports Config
begin

text \<open>
  The \<open>QuotaManager\<close> of \<^verbatim>\<open>provider.go\<close>: a request budget and an optional credit budget, each with
  its own period. Every operation runs under the manager's mutex; \<open>now\<close> is the value
  \<open>time.Now()\<close> returns inside it.
\<close>

record QuotaManager =
  qm_limit :: int
  qm_period :: duration
  qm_used :: int
  qm_resetTime :: gotime
  qm_credits :: "CreditsConfig option"
  qm_creditUsed :: int
  qm_creditLimit :: int
  qm_creditReset :: gotime

definition newQuotaManager :: "gotime \<Rightarrow> QuotaConfig \<Rightarrow> QuotaManager" where
  "newQuotaManager now cfg =
     (let qm = \<lparr>qm_limit = qc_Limit cfg, qm_period = qc_Period cfg, qm_used = 0,
                qm_resetTime = now + qc_Period cfg, qm_credits = None, qm_creditUsed = 0,
                qm_creditLimit = 0, qm_creditReset = 0\<rparr>
      in case qc_Credits cfg of
           Some c \<Rightarrow> if cc_Enabled c
                     then qm\<lparr>qm_credits := Some c, qm_creditLimit := cc_Limit c,
                             qm_creditReset := now + cc_Period c\<rparr>
                     else qm
         | None \<Rightarrow> qm)"

definition rolloverLocked :: "gotime \<Rightarrow> QuotaManager \<Rightarrow> QuotaManager" where
  "rolloverLocked now qm =
     (let qm1 = (if 0 < qm_period qm \<and> qm_resetTime qm < now
                 then qm\<lparr>qm_used := 0, qm_resetTime := now + qm_period qm\<rparr> else qm)
      in case qm_credits qm1 of
           Some c \<Rightarrow> if qm_creditReset qm1 < now
                     then qm1\<lparr>qm_creditUsed := 0, qm_creditReset := now + cc_Period c\<rparr> else qm1
         | None \<Rightarrow> qm1)"

definition Remaining :: "gotime \<Rightarrow> QuotaManager \<Rightarrow> bool \<times> QuotaManager" where
  "Remaining now qm0 =
     (let qm = rolloverLocked now qm0 in
      if 0 < qm_limit qm \<and> qm_limit qm \<le> qm_used qm then (False, qm)
      else case qm_credits qm of
          Some c \<Rightarrow> if qm_creditLimit qm < i64 (qm_creditUsed qm + cc_PerRequest c)
                    then (False, qm) else (True, qm)
        | None \<Rightarrow> (True, qm))"

definition Consume :: "gotime \<Rightarrow> QuotaManager \<Rightarrow> bool \<times> QuotaManager" where
  "Consume now qm0 =
     (let qm = rolloverLocked now qm0 in
      if 0 < qm_limit qm \<and> qm_limit qm \<le> qm_used qm then (False, qm)
      else case qm_credits qm of
          Some c \<Rightarrow>
            if qm_creditLimit qm < i64 (qm_creditUsed qm + cc_PerRequest c) then (False, qm)
            else (True, qm\<lparr>qm_creditUsed := i64 (qm_creditUsed qm + cc_PerRequest c),
                           qm_used := i64 (qm_used qm + 1)\<rparr>)
        | None \<Rightarrow> (True, qm\<lparr>qm_used := i64 (qm_used qm + 1)\<rparr>))"

definition Usage :: "QuotaManager \<Rightarrow> int \<times> int \<times> int \<times> int" where
  "Usage qm = (qm_limit qm, qm_used qm, qm_creditLimit qm, qm_creditUsed qm)"

definition RemainingUnits :: "QuotaManager \<Rightarrow> int \<times> int \<times> int \<times> int" where
  "RemainingUnits qm = (i64 (qm_limit qm - qm_used qm), qm_used qm,
     i64 (qm_creditLimit qm - qm_creditUsed qm), qm_creditUsed qm)"

definition ResetTimes :: "QuotaManager \<Rightarrow> gotime \<times> gotime" where
  "ResetTimes qm = (qm_resetTime qm, qm_creditReset qm)"

definition RestoreUsage :: "int \<Rightarrow> gotime \<Rightarrow> QuotaManager \<Rightarrow> QuotaManager" where
  "RestoreUsage used resetAt qm =
     (let qm1 = qm\<lparr>qm_used := used\<rparr>
      in if resetAt \<noteq> 0 then qm1\<lparr>qm_resetTime := resetAt\<rparr> else qm1)"

lemmas quota_defs = rolloverLocked_def Remaining_def Consume_def Let_def

section \<open>The budget invariant\<close>

text \<open>
  Both meters stay within their limits. The credit meter needs a non-negative charge per
  request, and a limit that leaves room for one more charge in 64 bits.
\<close>

definition quota_inv :: "QuotaManager \<Rightarrow> bool" where
  "quota_inv qm \<longleftrightarrow>
     in_i64 (qm_limit qm) \<and> (0 < qm_limit qm \<longrightarrow> 0 \<le> qm_used qm \<and> qm_used qm \<le> qm_limit qm) \<and>
     (case qm_credits qm of None \<Rightarrow> True
      | Some c \<Rightarrow> 0 \<le> cc_PerRequest c \<and> 0 \<le> qm_creditUsed qm \<and>
                  qm_creditUsed qm \<le> qm_creditLimit qm \<and>
                  qm_creditLimit qm + cc_PerRequest c < 2 ^ 63)"

lemma quota_inv_New:
  assumes "in_i64 (qc_Limit cfg)"
    and "\<And>c. qc_Credits cfg = Some c \<Longrightarrow> 0 \<le> cc_PerRequest c \<and> 0 \<le> cc_Limit c \<and> cc_Limit c + cc_PerRequest c < 2 ^ 63"
  shows "quota_inv (newQuotaManager now cfg)"
  using assms by (auto simp: quota_inv_def newQuotaManager_def Let_def split: option.splits)

lemma rolloverLocked_inv: "quota_inv qm \<Longrightarrow> quota_inv (rolloverLocked now qm)"
  by (auto simp: quota_inv_def rolloverLocked_def Let_def split: option.splits)

lemma rolloverLocked_fields [simp]:
  "qm_limit (rolloverLocked now qm) = qm_limit qm"
  "qm_credits (rolloverLocked now qm) = qm_credits qm"
  "qm_creditLimit (rolloverLocked now qm) = qm_creditLimit qm"
  "qm_period (rolloverLocked now qm) = qm_period qm"
  by (auto simp: rolloverLocked_def Let_def split: option.splits)

lemma rolloverLocked_eq:
  "rolloverLocked now qm = qm\<lparr>qm_used := (if 0 < qm_period qm \<and> qm_resetTime qm < now then 0 else qm_used qm),
     qm_resetTime := (if 0 < qm_period qm \<and> qm_resetTime qm < now then now + qm_period qm else qm_resetTime qm),
     qm_creditUsed := (case qm_credits qm of None \<Rightarrow> qm_creditUsed qm | Some c \<Rightarrow> if qm_creditReset qm < now then 0 else qm_creditUsed qm),
     qm_creditReset := (case qm_credits qm of None \<Rightarrow> qm_creditReset qm
                        | Some c \<Rightarrow> if qm_creditReset qm < now then now + cc_Period c else qm_creditReset qm)\<rparr>"
  by (simp add: rolloverLocked_def Let_def split: option.split)

lemma Remaining_state [simp]: "snd (Remaining now qm) = rolloverLocked now qm"
  by (simp add: Remaining_def Let_def split: option.splits)

lemma Consume_denied: "Consume now qm = (False, qm') \<Longrightarrow> qm' = rolloverLocked now qm"
  by (auto simp: Consume_def Let_def split: option.splits if_splits)

lemma Consume_iff_Remaining: "fst (Consume now qm) = fst (Remaining now qm)"
  by (simp add: Consume_def Remaining_def Let_def split: option.splits)

lemma Consume_inv: "quota_inv qm \<Longrightarrow> Consume now qm = (g, qm') \<Longrightarrow> quota_inv qm'"
proof -
  assume inv: "quota_inv qm" and c: "Consume now qm = (g, qm')"
  from inv have r: "quota_inv (rolloverLocked now qm)" by (rule rolloverLocked_inv)
  show ?thesis
  proof (cases g)
    case False
    with c r show ?thesis by (auto dest: Consume_denied)
  next
    case True
    with c r show ?thesis
      by (auto simp: quota_inv_def Consume_def Let_def in_i64_def split: option.splits if_splits)
  qed
qed

lemma Consume_fields:
  assumes "Consume now qm = (g, qm')"
  shows "qm_limit qm' = qm_limit qm" "qm_period qm' = qm_period qm" "qm_credits qm' = qm_credits qm"
    "qm_creditLimit qm' = qm_creditLimit qm"
  using assms by (auto simp: Consume_def Let_def split: option.splits if_splits)

lemma Consume_used:
  assumes "quota_inv qm" and "0 < qm_limit qm" and "Consume now qm = (g, qm')"
  shows "qm_used qm' = qm_used (rolloverLocked now qm) + (if g then 1 else 0)"
    and "qm_resetTime qm' = qm_resetTime (rolloverLocked now qm)"
proof -
  have "quota_inv (rolloverLocked now qm)" by (rule rolloverLocked_inv [OF assms(1)])
  with assms show "qm_used qm' = qm_used (rolloverLocked now qm) + (if g then 1 else 0)"
    by (auto simp: quota_inv_def Consume_def Let_def in_i64_def split: option.splits if_splits)
  show "qm_resetTime qm' = qm_resetTime (rolloverLocked now qm)"
    using assms(3) by (auto simp: Consume_def Let_def split: option.splits if_splits)
qed

section \<open>Runs of calls\<close>

text \<open>A sequence of \<open>Consume\<close> calls at the given times: how many were granted, and the final state.\<close>

fun consume_all :: "gotime list \<Rightarrow> QuotaManager \<Rightarrow> nat \<times> QuotaManager" where
  "consume_all [] qm = (0, qm)"
| "consume_all (t # ts) qm =
     (let (g, qm1) = Consume t qm; (n, qm2) = consume_all ts qm1
      in ((if g then Suc n else n), qm2))"

lemma consume_all_rate:
  assumes "quota_inv qm" and "0 < qm_limit qm" and "0 < qm_period qm" and "\<forall>t \<in> set ts. t \<le> b"
  shows "int (fst (consume_all ts qm)) * qm_period qm \<le>
         (qm_limit qm - qm_used qm) * qm_period qm + qm_limit qm * max 0 (b - qm_resetTime qm + qm_period qm)"
  using assms
proof (induction ts arbitrary: qm)
  case Nil
  then show ?case by (auto simp: quota_inv_def intro!: add_nonneg_nonneg mult_nonneg_nonneg)
next
  case (Cons t ts)
  obtain g qm1 where c: "Consume t qm = (g, qm1)" by (cases "Consume t qm")
  let ?n = "int (fst (consume_all ts qm1))" and ?L = "qm_limit qm" and ?P = "qm_period qm"
  have f: "qm_limit qm1 = ?L" "qm_period qm1 = ?P" using Consume_fields [OF c] by simp_all
  have IH: "?n * ?P \<le> (?L - qm_used qm1) * ?P + ?L * max 0 (b - qm_resetTime qm1 + ?P)"
    using Cons.IH [of qm1] Cons.prems Consume_inv [OF Cons.prems(1) c] f by simp
  have u: "qm_used qm1 = qm_used (rolloverLocked t qm) + (if g then 1 else 0)"
    and r: "qm_resetTime qm1 = qm_resetTime (rolloverLocked t qm)"
    using Consume_used [OF Cons.prems(1,2) c] by simp_all
  have total: "int (fst (consume_all (t # ts) qm)) = ?n + (if g then 1 else 0)"
    by (simp add: c split: prod.splits)
  have step: "(?n + (if g then 1 else 0)) * ?P \<le>
      (?L - qm_used (rolloverLocked t qm)) * ?P + ?L * max 0 (b - qm_resetTime (rolloverLocked t qm) + ?P)"
    using IH unfolding u r by (simp add: algebra_simps)
  show ?case
  proof (cases "qm_resetTime qm < t")
    case False
    then have "qm_used (rolloverLocked t qm) = qm_used qm" "qm_resetTime (rolloverLocked t qm) = qm_resetTime qm"
      by (auto simp: rolloverLocked_def Let_def split: option.splits)
    with step total show ?thesis by simp
  next
    case True
    then have roll: "qm_used (rolloverLocked t qm) = 0" "qm_resetTime (rolloverLocked t qm) = t + ?P"
      using Cons.prems(3) by (auto simp: rolloverLocked_def Let_def split: option.splits)
    have "t \<le> b" using Cons.prems(4) by simp
    then have "?L * ?P + ?L * max 0 (b - (t + ?P) + ?P) = ?L * (b - t + ?P)" by (simp add: algebra_simps)
    also have "\<dots> \<le> ?L * max 0 (b - qm_resetTime qm + ?P)"
      using True Cons.prems(2) by (intro mult_left_mono) auto
    also have "\<dots> \<le> (?L - qm_used qm) * ?P + ?L * max 0 (b - qm_resetTime qm + ?P)"
      using Cons.prems by (simp add: quota_inv_def)
    finally show ?thesis using step roll total by (simp add: algebra_simps)
  qed
qed

section \<open>Properties\<close>

text \<open>
  C25: Rate bound. However a provider is called, the requests its quota grants up to time \<open>b\<close> are at most
  what the current period has left plus one full limit per started period: with \<open>n\<close> grants,
  \<open>n * period \<le> (limit - used) * period + limit * max 0 (b - periodStart)\<close>.
\<close>

theorem quota_rate_bound:
  assumes "quota_inv qm" and "0 < qm_limit qm" and "0 < qm_period qm" and "\<forall>t \<in> set ts. t \<le> b"
  shows "int (fst (consume_all ts qm)) * qm_period qm \<le>
         (qm_limit qm - qm_used qm) * qm_period qm + qm_limit qm * max 0 (b - (qm_resetTime qm - qm_period qm))"
  using consume_all_rate [OF assms] by (simp add: algebra_simps)

theorem quota_rate_bound_witness:
  "fst (consume_all [1, 2, 3, 4] (newQuotaManager 0 \<lparr>qc_Limit = 2, qc_Period = 10, qc_Credits = None\<rparr>)) * 10 \<le> (28 :: int)"
proof -
  let ?q = "newQuotaManager 0 \<lparr>qc_Limit = 2, qc_Period = 10, qc_Credits = None\<rparr>"
  have "quota_inv ?q" by (rule quota_inv_New) (simp_all add: in_i64_def)
  from quota_rate_bound [OF this, of "[1, 2, 3, 4]" 4] show ?thesis by (simp add: newQuotaManager_def)
qed

text \<open>
  C26: \<open>Consume\<close> rolls each meter over if its period has ended, and then grants exactly when both have room: the
  requests unless the limit is not positive, the credits if they are enabled; \<open>Remaining\<close> predicts the decision. A denial changes nothing else. A
  grant adds exactly one request, metered or not, and \<open>PerRequest\<close> credits, and changes nothing else; metered requests and credits
  never wrap around and stay within their limits.
\<close>

theorem quota_decision:
  assumes inv: "quota_inv qm" and run: "Consume now qm = (granted, qm')"
    and used: "used = (if 0 < qm_period qm \<and> qm_resetTime qm < now then 0 else qm_used qm)"
    and reset: "reset = (if 0 < qm_period qm \<and> qm_resetTime qm < now then now + qm_period qm else qm_resetTime qm)"
    and cused: "cused = (case qm_credits qm of None \<Rightarrow> qm_creditUsed qm | Some c \<Rightarrow> if qm_creditReset qm < now then 0 else qm_creditUsed qm)"
    and creset: "creset = (case qm_credits qm of None \<Rightarrow> qm_creditReset qm
                           | Some c \<Rightarrow> if qm_creditReset qm < now then now + cc_Period c else qm_creditReset qm)"
    and fee: "fee = (case qm_credits qm of None \<Rightarrow> 0 | Some c \<Rightarrow> cc_PerRequest c)"
  shows "(granted \<longleftrightarrow> (qm_limit qm \<le> 0 \<or> used < qm_limit qm) \<and> (qm_credits qm = None \<or> cused + fee \<le> qm_creditLimit qm)) \<and>
    fst (Remaining now qm) = granted \<and> quota_inv qm' \<and>
    qm' = (if granted
           then qm\<lparr>qm_used := (if 0 < qm_limit qm then used + 1 else i64 (used + 1)), qm_resetTime := reset,
                   qm_creditUsed := cused + fee, qm_creditReset := creset\<rparr>
           else qm\<lparr>qm_used := used, qm_resetTime := reset, qm_creditUsed := cused, qm_creditReset := creset\<rparr>)"
proof -
  let ?r = "rolloverLocked now qm"
  have r: "?r = qm\<lparr>qm_used := used, qm_resetTime := reset, qm_creditUsed := cused, qm_creditReset := creset\<rparr>"
    unfolding rolloverLocked_eq used reset cused creset by (rule refl)
  have q: "quota_inv ?r" by (rule rolloverLocked_inv [OF inv])
  have fits: "i64 (cused + cc_PerRequest c) = cused + cc_PerRequest c" if "qm_credits qm = Some c" for c
    using q that unfolding r by (simp add: quota_inv_def in_i64_def)
  have g: "granted \<longleftrightarrow> (qm_limit qm \<le> 0 \<or> used < qm_limit qm) \<and> (qm_credits qm = None \<or> cused + fee \<le> qm_creditLimit qm)"
    using run fits unfolding Consume_def Let_def r fee by (auto split: option.splits if_splits)
  have n: "i64 (used + 1) = used + 1" if "0 < qm_limit qm" "used < qm_limit qm"
    using q that unfolding r by (simp add: quota_inv_def in_i64_def)
  have "qm' = qm\<lparr>qm_used := i64 (used + 1), qm_resetTime := reset, qm_creditUsed := cused + fee, qm_creditReset := creset\<rparr>" if granted
    using run that fits unfolding Consume_def Let_def r fee by (auto split: option.splits if_splits)
  moreover have "qm' = ?r" if "\<not> granted" using run that Consume_denied by auto
  ultimately show ?thesis using g n Consume_inv [OF inv run] Consume_iff_Remaining [of now qm] run unfolding r by auto
qed

text \<open>An unmetered quota counts its requests; a quota of one request grants one and denies the next.\<close>

theorem quota_decision_witness:
  "let free = newQuotaManager 0 \<lparr>qc_Limit = 0, qc_Period = 10, qc_Credits = None\<rparr>;
       one = newQuotaManager 0 \<lparr>qc_Limit = 1, qc_Period = 10, qc_Credits = None\<rparr>
   in Consume 5 free = (True, free\<lparr>qm_used := 1\<rparr>) \<and> Consume 5 one = (True, one\<lparr>qm_used := 1\<rparr>) \<and> fst (Consume 5 (snd (Consume 5 one))) = False"
proof -
  let ?q = "\<lambda>l. newQuotaManager 0 \<lparr>qc_Limit = l, qc_Period = 10, qc_Credits = None\<rparr>"
  have i: "quota_inv (?q l)" if "in_i64 l" for l by (rule quota_inv_New) (use that in simp_all)
  have c: "Consume 5 (?q l) = (True, (?q l)\<lparr>qm_used := 1\<rparr>)" if "l = 0 \<or> l = 1" for l
    using quota_decision [OF i [of l] prod.collapse [symmetric] refl refl refl refl refl, of 5] that
    by (auto simp: newQuotaManager_def in_i64_def prod_eq_iff)
  have inv: "quota_inv ((?q 1)\<lparr>qm_used := 1\<rparr>)" using i [of 1] by (simp add: quota_inv_def newQuotaManager_def in_i64_def)
  have "fst (Consume 5 ((?q 1)\<lparr>qm_used := 1\<rparr>)) = False"
    using quota_decision [OF inv prod.collapse [symmetric] refl refl refl refl refl, of 5] by (simp add: newQuotaManager_def)
  with c [of 0] c [of 1] show ?thesis by (simp add: Let_def)
qed

end
