(* ===== verification/Provider.thy ===== *)
theory Provider
  imports Retry Quota
begin

text \<open>
  The \<open>Provider\<close> of \<^verbatim>\<open>provider.go\<close>: one upstream endpoint with its health score, and the RPC
  methods, each a client call run through quota, timeout, rate limiter, circuit breaker and retry.
\<close>

section \<open>The code outside the package\<close>

text \<open>
  The methods of a connected \<open>EthClient\<close>. Each takes the client's handle and the timeout of the
  attempt's context. \<open>eth_Close\<close> takes the receiver pointer, which may be nil, and can panic.
\<close>

record 'w eth_api =
  eth_BlockByNumber :: "nat \<Rightarrow> duration option \<Rightarrow> int \<Rightarrow> 'w \<Rightarrow> (goerr + block) \<times> 'w"
  eth_BlockByHash :: "nat \<Rightarrow> duration option \<Rightarrow> hash \<Rightarrow> 'w \<Rightarrow> (goerr + block) \<times> 'w"
  eth_TransactionByHash :: "nat \<Rightarrow> duration option \<Rightarrow> hash \<Rightarrow> 'w \<Rightarrow> (goerr + transaction \<times> bool) \<times> 'w"
  eth_TransactionReceipt :: "nat \<Rightarrow> duration option \<Rightarrow> hash \<Rightarrow> 'w \<Rightarrow> (goerr + receipt) \<times> 'w"
  eth_FilterLogs :: "nat \<Rightarrow> duration option \<Rightarrow> FilterQuery \<Rightarrow> 'w \<Rightarrow> (goerr + log list) \<times> 'w"
  eth_SubscribeNewHead :: "nat \<Rightarrow> 'w \<Rightarrow> (goerr + nat) \<times> 'w"
  eth_HeaderByNumber :: "nat \<Rightarrow> duration option \<Rightarrow> int \<Rightarrow> 'w \<Rightarrow> (goerr + header) \<times> 'w"
  eth_BlockNumber :: "nat \<Rightarrow> duration option \<Rightarrow> 'w \<Rightarrow> (goerr + u64) \<times> 'w"
  eth_BalanceAt :: "nat \<Rightarrow> duration option \<Rightarrow> address \<Rightarrow> 'w \<Rightarrow> (goerr + int) \<times> 'w"
  eth_CallContract :: "nat \<Rightarrow> duration option \<Rightarrow> callmsg \<Rightarrow> 'w \<Rightarrow> (goerr + bytes) \<times> 'w"
  eth_CodeAt :: "nat \<Rightarrow> duration option \<Rightarrow> address \<Rightarrow> 'w \<Rightarrow> (goerr + bytes) \<times> 'w"
  eth_Close :: "nat option \<Rightarrow> 'w \<Rightarrow> goerr option \<times> 'w"

record 'w ext =
  x_rt :: "'w runtime_api"
  x_rate :: "'w rate_api"
  x_gb :: "'w breaker_api"
  x_eth :: "'w eth_api"
  x_DialContext :: "string \<Rightarrow> 'w \<Rightarrow> (nat option \<times> goerr option) \<times> 'w"

section \<open>State and construction\<close>

record Provider =
  p_name :: string
  p_priority :: int
  p_client :: EthClient
  p_dialErr :: "goerr option"
  p_limiter :: RateLimiter
  p_circuitBreaker :: CircuitBreaker
  p_quota :: QuotaManager
  p_retryCfg :: RetryConfig
  p_requestTimeout :: duration
  p_maxLogBlockRange :: int
  p_healthy :: bool
  p_lastUsed :: gotime
  p_baseScore :: f64
  p_currentScore :: f64
  p_closed :: bool

definition provider_url :: "'w ProviderConfig \<Rightarrow> string" where
  "provider_url cfg = (if pc_APIKey cfg \<noteq> [] then pc_URL cfg @ ''/'' @ pc_APIKey cfg else pc_URL cfg)"

definition NewProvider :: "'w ext \<Rightarrow> 'w ProviderConfig \<Rightarrow> 'w \<Rightarrow> Provider \<times> 'w" where
  "NewProvider E cfg w0 =
     (let dial = (case pc_Dial cfg of None \<Rightarrow> dialEthClient (x_DialContext E) | Some d \<Rightarrow> d);
          ((client, err), w1) = dial (provider_url cfg) w0;
          (limiter, w2) = NewRateLimiter (x_rate E) (pc_RateLimit cfg) w1;
          (cb, w3) = NewCircuitBreaker (x_gb E) (pc_CircuitBreaker cfg) w2;
          (now, w4) = rt_Now (x_rt E) w3
      in (\<lparr>p_name = pc_Name cfg, p_priority = pc_Priority cfg, p_client = client, p_dialErr = err,
           p_limiter = limiter, p_circuitBreaker = cb, p_quota = newQuotaManager now (pc_Quota cfg),
           p_retryCfg = pc_Retry cfg, p_requestTimeout = pc_RequestTimeout cfg,
           p_maxLogBlockRange = pc_MaxLogBlockRange cfg,
           p_healthy = (err = None \<and> client \<noteq> NilIface), p_lastUsed = 0,
           p_baseScore = f64_of_int (pc_Priority cfg), p_currentScore = f64_of_int (pc_Priority cfg),
           p_closed = False\<rparr>, w4))"

definition p_Name :: "Provider \<Rightarrow> string" where
  "p_Name p = p_name p"

definition p_Priority :: "Provider \<Rightarrow> int" where
  "p_Priority p = p_priority p"

definition p_SetScore :: "f64 \<Rightarrow> Provider \<Rightarrow> Provider" where
  "p_SetScore score p = p\<lparr>p_currentScore := score\<rparr>"

definition p_MaxLogBlockRange :: "Provider \<Rightarrow> int" where
  "p_MaxLogBlockRange p = p_maxLogBlockRange p"

definition p_Score :: "Provider \<Rightarrow> f64" where
  "p_Score p = p_currentScore p"

definition p_BaseScore :: "Provider \<Rightarrow> f64" where
  "p_BaseScore p = p_baseScore p"

definition p_LastUsed :: "Provider \<Rightarrow> gotime" where
  "p_LastUsed p = p_lastUsed p"

lemmas p_getters = p_Name_def p_Priority_def p_MaxLogBlockRange_def p_Score_def p_BaseScore_def p_LastUsed_def

definition p_IsAvailable :: "'w ext \<Rightarrow> Provider \<Rightarrow> 'w \<Rightarrow> bool \<times> Provider \<times> 'w" where
  "p_IsAvailable E p w =
     (if p_dialErr p \<noteq> None \<or> p_client p = NilIface then (False, p, w)
      else if \<not> p_healthy p then (False, p, w)
      else case cb_IsAvailable (x_gb E) (p_circuitBreaker p) w of
        (False, w1) \<Rightarrow> (False, p, w1)
      | (True, w1) \<Rightarrow>
          (case rt_Now (x_rt E) w1 of
             (now, w2) \<Rightarrow> (case Remaining now (p_quota p) of (b, q) \<Rightarrow> (b, p\<lparr>p_quota := q\<rparr>, w2))))"

section \<open>Health score\<close>

definition defaultScoreHeadroom :: f64 where
  "defaultScoreHeadroom = Fin 1"

definition score_cap :: "Provider \<Rightarrow> f64" where
  "score_cap p = (let m = f64_mul (p_baseScore p) (Fin 2)
                  in if f64_le m (Fin 0) then defaultScoreHeadroom else m)"

definition p_RecordSuccess :: "'w ext \<Rightarrow> Provider \<Rightarrow> 'w \<Rightarrow> Provider \<times> 'w" where
  "p_RecordSuccess E p w =
     (let score = f64_add (p_currentScore p) (f64_of_rat (1 / 10));
          score = (if f64_lt (score_cap p) score then score_cap p else score);
          (now, w') = rt_Now (x_rt E) w
      in (p\<lparr>p_healthy := True, p_currentScore := score, p_lastUsed := now\<rparr>, w'))"

definition p_RecordFailure :: "goerr \<Rightarrow> Provider \<Rightarrow> Provider" where
  "p_RecordFailure err p =
     (let score = f64_sub (p_currentScore p) (f64_of_rat (1 / 5))
      in if f64_lt score (Fin (- 1)) then p\<lparr>p_currentScore := score, p_healthy := False\<rparr>
         else p\<lparr>p_currentScore := score\<rparr>)"

section \<open>RPC methods\<close>

definition quota_denied :: "Provider \<Rightarrow> goerr" where
  "quota_denied p = errorf_w (''provider '' @ p_name p @ '': '') (Sentinel ErrQuotaExceeded)"

text \<open>
  The function \<open>withRetry\<close> hands to \<open>WithRetry\<close>: one physical attempt. A call through the nil
  interface or a nil client pointer is a nil dereference.
\<close>

definition p_attempt :: "'w ext \<Rightarrow> (nat \<Rightarrow> duration option \<Rightarrow> 'w \<Rightarrow> (goerr + 'a) \<times> 'w) \<Rightarrow> (Provider, 'w, 'a) rpc" where
  "p_attempt E call p w =
     (case rt_Now (x_rt E) w of
        (now, w1) \<Rightarrow>
          (case Consume now (p_quota p) of
             (False, q) \<Rightarrow> (Inl (quota_denied p), p\<lparr>p_quota := q\<rparr>, w1)
           | (True, q) \<Rightarrow>
               (let timeout = (if 0 < p_requestTimeout p then Some (p_requestTimeout p) else None)
                in case p_client p of
                     ClientPtr h \<Rightarrow> (case call h timeout w1 of (r, w2) \<Rightarrow> (r, p\<lparr>p_quota := q\<rparr>, w2))
                   | _ \<Rightarrow> (Inl nil_deref, p\<lparr>p_quota := q\<rparr>, w1))))"

definition p_withRetry :: "'w ext \<Rightarrow> (nat \<Rightarrow> duration option \<Rightarrow> 'w \<Rightarrow> (goerr + 'a) \<times> 'w) \<Rightarrow> (Provider, 'w, 'a) rpc" where
  "p_withRetry E call p w =
     WithRetry (x_rt E) (x_rate E) (x_gb E) (p_retryCfg p) (p_attempt E call) (p_limiter p) (p_circuitBreaker p) p w"

definition p_BlockByNumber :: "'w ext \<Rightarrow> u64 \<Rightarrow> (Provider, 'w, block) rpc" where
  "p_BlockByNumber E blockNum = p_withRetry E (\<lambda>h t. eth_BlockByNumber (x_eth E) h t (big_SetUint64 blockNum))"

definition p_BlockByHash :: "'w ext \<Rightarrow> hash \<Rightarrow> (Provider, 'w, block) rpc" where
  "p_BlockByHash E hash = p_withRetry E (\<lambda>h t. eth_BlockByHash (x_eth E) h t hash)"

definition p_TransactionByHash :: "'w ext \<Rightarrow> hash \<Rightarrow> (Provider, 'w, transaction \<times> bool) rpc" where
  "p_TransactionByHash E hash = p_withRetry E (\<lambda>h t. eth_TransactionByHash (x_eth E) h t hash)"

definition p_TransactionReceipt :: "'w ext \<Rightarrow> hash \<Rightarrow> (Provider, 'w, receipt) rpc" where
  "p_TransactionReceipt E hash = p_withRetry E (\<lambda>h t. eth_TransactionReceipt (x_eth E) h t hash)"

definition p_FilterLogs :: "'w ext \<Rightarrow> FilterQuery \<Rightarrow> (Provider, 'w, log list) rpc" where
  "p_FilterLogs E q = p_withRetry E (\<lambda>h t. eth_FilterLogs (x_eth E) h t q)"

text \<open>A subscription bypasses retry, breaker, timeout and quota.\<close>

definition p_SubscribeNewHead :: "'w ext \<Rightarrow> (Provider, 'w, nat) rpc" where
  "p_SubscribeNewHead E p w = (case p_client p of
      NilIface \<Rightarrow> (Inl (ErrNew (''provider '' @ p_name p @ '': not connected'')), p, w)
    | NilPtr \<Rightarrow> (Inl nil_deref, p, w)
    | ClientPtr h \<Rightarrow> (case eth_SubscribeNewHead (x_eth E) h w of (r, w') \<Rightarrow> (r, p, w')))"

definition p_HeaderByNumber :: "'w ext \<Rightarrow> int \<Rightarrow> (Provider, 'w, header) rpc" where
  "p_HeaderByNumber E number = p_withRetry E (\<lambda>h t. eth_HeaderByNumber (x_eth E) h t number)"

definition p_BlockNumber :: "'w ext \<Rightarrow> (Provider, 'w, u64) rpc" where
  "p_BlockNumber E = p_withRetry E (\<lambda>h t. eth_BlockNumber (x_eth E) h t)"

definition p_BalanceAt :: "'w ext \<Rightarrow> address \<Rightarrow> (Provider, 'w, int) rpc" where
  "p_BalanceAt E address = p_withRetry E (\<lambda>h t. eth_BalanceAt (x_eth E) h t address)"

definition p_Call :: "'w ext \<Rightarrow> callmsg \<Rightarrow> (Provider, 'w, bytes) rpc" where
  "p_Call E msg = p_withRetry E (\<lambda>h t. eth_CallContract (x_eth E) h t msg)"

definition p_CodeAt :: "'w ext \<Rightarrow> address \<Rightarrow> (Provider, 'w, bytes) rpc" where
  "p_CodeAt E address = p_withRetry E (\<lambda>h t. eth_CodeAt (x_eth E) h t address)"

section \<open>Closing and quota bookkeeping\<close>

text \<open>\<open>closeOnce\<close> runs its function once; the result is the panic of \<open>client.Close\<close>, if any.\<close>

definition p_Close :: "'w ext \<Rightarrow> Provider \<Rightarrow> 'w \<Rightarrow> goerr option \<times> Provider \<times> 'w" where
  "p_Close E p w =
     (if p_closed p then (None, p, w)
      else let p' = p\<lparr>p_closed := True\<rparr> in
        case p_client p of
          NilIface \<Rightarrow> (None, p', w)
        | NilPtr \<Rightarrow> (case eth_Close (x_eth E) None w of (pan, w') \<Rightarrow> (pan, p', w'))
        | ClientPtr h \<Rightarrow> (case eth_Close (x_eth E) (Some h) w of (pan, w') \<Rightarrow> (pan, p', w')))"

definition p_GetQuotaUsage :: "Provider \<Rightarrow> int \<times> int \<times> int \<times> int" where
  "p_GetQuotaUsage p = Usage (p_quota p)"

definition p_GetQuotaRemaining :: "Provider \<Rightarrow> int \<times> int \<times> int \<times> int" where
  "p_GetQuotaRemaining p = RemainingUnits (p_quota p)"

definition p_GetQuotaReset :: "Provider \<Rightarrow> gotime \<times> gotime" where
  "p_GetQuotaReset p = ResetTimes (p_quota p)"

definition p_RestoreQuotaUsage :: "int \<Rightarrow> gotime \<Rightarrow> Provider \<Rightarrow> Provider" where
  "p_RestoreQuotaUsage used resetAt p = p\<lparr>p_quota := RestoreUsage used resetAt (p_quota p)\<rparr>"

lemmas p_rpc_defs = p_BlockByNumber_def p_BlockByHash_def p_TransactionByHash_def
  p_TransactionReceipt_def p_FilterLogs_def p_HeaderByNumber_def p_BlockNumber_def p_BalanceAt_def
  p_Call_def p_CodeAt_def

section \<open>What a call does to the provider\<close>

lemma p_attempt_consumes:
  "p_attempt E call p w = (r, p', w') \<Longrightarrow>
   \<exists>now. p' = p\<lparr>p_quota := snd (Consume now (p_quota p))\<rparr>"
  by (auto simp: p_attempt_def Let_def split: prod.splits bool.splits EthClient.splits)
    (metis snd_conv)+

lemma p_attempt_value:
  "p_attempt E call p w = (Inr x, p', w') \<Longrightarrow>
   \<exists>h t w0 w1. p_client p = ClientPtr h \<and> call h t w0 = (Inr x, w1)"
  by (auto simp: p_attempt_def Let_def split: prod.splits bool.splits EthClient.splits)

lemma consume_all_state_Cons [simp]:
  "snd (consume_all (t # ts) qm) = snd (consume_all ts (snd (Consume t qm)))"
  by (simp split: prod.splits)

declare consume_all.simps(2) [simp del]

lemma attempts_consume:
  "attempts (p_attempt E call) n p p' \<Longrightarrow>
   \<exists>ts. length ts = n \<and> p' = p\<lparr>p_quota := snd (consume_all ts (p_quota p))\<rparr>"
proof (induction rule: attempts.induct)
  case (none p)
  then show ?case by (intro exI [of _ "[]"]) simp
next
  case (more p w r p1 w' n p2)
  then obtain ts where ts: "length ts = n" "p2 = p1\<lparr>p_quota := snd (consume_all ts (p_quota p1))\<rparr>" by blast
  from p_attempt_consumes [OF more.hyps(1)] obtain now where
    "p1 = p\<lparr>p_quota := snd (Consume now (p_quota p))\<rparr>" by blast
  with ts have "length (now # ts) = Suc n \<and> p2 = p\<lparr>p_quota := snd (consume_all (now # ts) (p_quota p))\<rparr>"
    by simp
  then show ?case by blast
qed

lemma p_withRetry_consumes:
  assumes "p_withRetry E call p w = (r, p', w')"
  shows "\<exists>ts. length ts \<le> nat (max 1 (rc_MaxAttempts (p_retryCfg p))) \<and>
              p' = p\<lparr>p_quota := snd (consume_all ts (p_quota p))\<rparr>"
proof -
  let ?m = "max 1 (rc_MaxAttempts (p_retryCfg p))"
  obtain n where n: "n \<le> Suc (nat (?m - 1))" "attempts (p_attempt E call) n p p'"
    using retry_from_attempts [OF assms [unfolded p_withRetry_def WithRetry_eq]] by blast
  then have "n \<le> nat ?m" by simp
  with attempts_consume [OF n(2)] show ?thesis by blast
qed

lemma consume_all_inv: "quota_inv qm \<Longrightarrow> quota_inv (snd (consume_all ts qm))"
proof (induction ts arbitrary: qm)
  case (Cons t ts)
  then have "quota_inv (snd (Consume t qm))" using Consume_inv [of qm t] by (metis prod.collapse)
  with Cons.IH show ?case by simp
qed simp

lemma attempts_client: "attempts (p_attempt E call) n p p' \<Longrightarrow> p_client p' = p_client p"
  by (auto dest: attempts_consume)

lemma retry_from_value_client:
  "retry_from rt ra ba cfg m limiter cb (p_attempt E call) left attempt p w = (Inr x, p', w') \<Longrightarrow>
   \<exists>h t w0 w1. p_client p = ClientPtr h \<and> call h t w0 = (Inr x, w1)"
proof (induction left arbitrary: attempt p w)
  case 0
  then show ?case by (cases rule: retry_from_cases) (auto dest!: Execute_value p_attempt_value)
next
  case (Suc k)
  from Suc.prems show ?case
  proof (cases rule: retry_from_cases)
    case (again k' err w1 p2 w2 w4)
    with Suc.IH have "\<exists>h t w0 w1. p_client p2 = ClientPtr h \<and> call h t w0 = (Inr x, w1)" by blast
    moreover have "p_client p2 = p_client p"
      using Execute_attempts [OF again(2), of 0] attempts_client by blast
    ultimately show ?thesis by simp
  qed (auto dest!: Execute_value p_attempt_value)
qed

lemma p_withRetry_value:
  "p_withRetry E call p w = (Inr x, p', w') \<Longrightarrow>
   \<exists>h t w0 w1. p_client p = ClientPtr h \<and> call h t w0 = (Inr x, w1)"
  unfolding p_withRetry_def WithRetry_eq by (rule retry_from_value_client)

lemma p_IsAvailable_state:
  assumes "p_IsAvailable E p w = (b, p', w')"
  shows "p' = p \<or> (\<exists>now. p' = p\<lparr>p_quota := rolloverLocked now (p_quota p)\<rparr>)"
    and "b \<Longrightarrow> p_dialErr p = None \<and> p_client p \<noteq> NilIface \<and> p_healthy p"
  using assms Remaining_state
  by (auto simp: p_IsAvailable_def prod_eq_iff split: if_splits prod.splits bool.splits)

end
