(* ===== verification/Pool.thy ===== *)
theory Pool
  imports Provider
begin

text \<open>
  The \<open>Pool\<close> of \<^verbatim>\<open>pool.go\<close>: ranking and selection of providers, the RPC methods that route to
  the selected provider and feed its health score, and the block-range limits. The parallel
  fan-out has its own theory.

  A \<open>*Provider\<close> is shared between the map \<open>providers\<close> and the slice \<open>orderedList\<close>. \<open>NewPool\<close>
  rejects duplicate names, so the name identifies the object: the map holds the providers and the
  slice holds names.
\<close>

section \<open>State and ranking\<close>

record Pool =
  providers :: "string \<rightharpoonup> Provider"
  orderedList :: "string list"
  penalties :: "string \<rightharpoonup> f64"
  pool_updateInterval :: duration
  pool_maxLogBlockRange :: int
  pool_maxParallelJobAttempts :: int
  pool_rangeTooLargeFilters :: "string list"
  pool_logAddresses :: "address list"
  pool_logTopics :: "hash list list"
  pool_closed :: bool

definition defaultPoolUpdateInterval :: duration where
  "defaultPoolUpdateInterval = 30000000000"

definition DefaultMaxLogBlockRange :: int where
  "DefaultMaxLogBlockRange = 1"

definition set_provider :: "string \<Rightarrow> Provider \<Rightarrow> Pool \<Rightarrow> Pool" where
  "set_provider n p pool = pool\<lparr>providers := (providers pool)(n \<mapsto> p)\<rparr>"

text \<open>A missing entry of \<open>penalties\<close> reads as the zero value.\<close>

definition penalty_of :: "Pool \<Rightarrow> string \<Rightarrow> f64" where
  "penalty_of pool n = (case penalties pool n of None \<Rightarrow> Fin 0 | Some x \<Rightarrow> x)"

definition adjustedScoreLocked :: "Pool \<Rightarrow> Provider \<Rightarrow> f64" where
  "adjustedScoreLocked pool p = f64_sub (p_currentScore p) (penalty_of pool (p_name p))"

text \<open>What the comparison of \<open>sortOrderedListLocked\<close> reads of a provider, and the comparison.\<close>

definition rank_of :: "Pool \<Rightarrow> string \<Rightarrow> int \<times> f64" where
  "rank_of pool n = (case providers pool n of
      None \<Rightarrow> (0, Fin 0)
    | Some p \<Rightarrow> (p_priority p, adjustedScoreLocked pool p))"

definition rank_less :: "int \<times> f64 \<Rightarrow> int \<times> f64 \<Rightarrow> bool" where
  "rank_less a b = (if fst a \<noteq> fst b then fst a < fst b else f64_lt (snd b) (snd a))"

definition sortOrderedListLocked :: "Pool \<Rightarrow> Pool" where
  "sortOrderedListLocked pool = pool\<lparr>orderedList :=
     sort_Slice (\<lambda>a b. rank_less (rank_of pool a) (rank_of pool b)) (orderedList pool)\<rparr>"

section \<open>Construction\<close>

fun check_names :: "string list \<Rightarrow> string list \<Rightarrow> goerr option" where
  "check_names seen [] = None"
| "check_names seen (n # ns) =
     (if n = [] then Some (ErrNew ''idx: provider name is required'')
      else if n \<in> set seen then Some (ErrNew (''idx: duplicate provider name '' @ ''\"'' @ n @ ''\"''))
      else check_names (n # seen) ns)"

fun add_providers :: "'w ext \<Rightarrow> 'w ProviderConfig list \<Rightarrow> Pool \<Rightarrow> 'w \<Rightarrow> Pool \<times> 'w" where
  "add_providers E [] pool w = (pool, w)"
| "add_providers E (pc # pcs) pool w =
     (case NewProvider E pc w of (p, w') \<Rightarrow>
        add_providers E pcs
          ((set_provider (pc_Name pc) p pool)\<lparr>orderedList := orderedList pool @ [pc_Name pc]\<rparr>) w')"

definition NewPool :: "'w ext \<Rightarrow> 'w PoolConfig \<Rightarrow> 'w \<Rightarrow> (goerr + Pool) \<times> 'w" where
  "NewPool E cfg w =
     (if plc_Providers cfg = [] then (Inl (ErrNew ''idx: pool requires at least one provider''), w)
      else case check_names [] (map pc_Name (plc_Providers cfg)) of
        Some err \<Rightarrow> (Inl err, w)
      | None \<Rightarrow>
          (let updateInterval = (if plc_UpdateInterval cfg \<le> 0 then defaultPoolUpdateInterval
                                 else plc_UpdateInterval cfg);
               maxRange = (if plc_MaxLogBlockRange cfg \<le> 0 then DefaultMaxLogBlockRange
                           else plc_MaxLogBlockRange cfg);
               pool = \<lparr>providers = Map.empty, orderedList = [], penalties = Map.empty,
                       pool_updateInterval = updateInterval, pool_maxLogBlockRange = maxRange,
                       pool_maxParallelJobAttempts = plc_MaxParallelJobAttempts cfg,
                       pool_rangeTooLargeFilters = plc_RangeTooLargeFilters cfg,
                       pool_logAddresses = plc_LogAddresses cfg, pool_logTopics = plc_LogTopics cfg,
                       pool_closed = False\<rparr>;
               (pool', w') = add_providers E (plc_Providers cfg) pool w
           in (Inr (sortOrderedListLocked pool'), w')))"

section \<open>Re-ranking\<close>

definition quota_penalty :: "Provider \<Rightarrow> f64" where
  "quota_penalty p = (case p_GetQuotaUsage p of (limit, used, creditsLimit, creditsUsed) \<Rightarrow>
     (let penalty = Fin 0;
          penalty = (if 0 < limit \<and> limit \<le> used then f64_add penalty (Fin 10) else penalty)
      in if 0 < creditsLimit \<and> creditsLimit \<le> creditsUsed then f64_add penalty (Fin 5) else penalty))"

fun set_penalties :: "string list \<Rightarrow> Pool \<Rightarrow> Pool" where
  "set_penalties [] pool = pool"
| "set_penalties (n # ns) pool = set_penalties ns
     (case providers pool n of None \<Rightarrow> pool
      | Some p \<Rightarrow> pool\<lparr>penalties := (penalties pool)(p_name p \<mapsto> quota_penalty p)\<rparr>)"

definition recalculateScores :: "Pool \<Rightarrow> Pool" where
  "recalculateScores pool = sortOrderedListLocked (set_penalties (orderedList pool) pool)"

section \<open>Selection and health feedback\<close>

fun first_available :: "'w ext \<Rightarrow> string list \<Rightarrow> Pool \<Rightarrow> 'w \<Rightarrow> string option \<times> Pool \<times> 'w" where
  "first_available E [] pool w = (None, pool, w)"
| "first_available E (n # ns) pool w = (case providers pool n of
      None \<Rightarrow> first_available E ns pool w
    | Some p \<Rightarrow> (case p_IsAvailable E p w of (b, p', w') \<Rightarrow>
        (let pool' = set_provider n p' pool
         in if b then (Some n, pool', w') else first_available E ns pool' w')))"

definition pool_GetProvider :: "'w ext \<Rightarrow> Pool \<Rightarrow> 'w \<Rightarrow> string option \<times> Pool \<times> 'w" where
  "pool_GetProvider E pool w = first_available E (orderedList pool) pool w"

definition pool_GetAllProviders :: "Pool \<Rightarrow> string list" where
  "pool_GetAllProviders pool = orderedList pool"

definition pool_RecordSuccess :: "'w ext \<Rightarrow> string \<Rightarrow> Pool \<Rightarrow> 'w \<Rightarrow> Pool \<times> 'w" where
  "pool_RecordSuccess E n pool w = (case providers pool n of
      None \<Rightarrow> (pool, w)
    | Some p \<Rightarrow> (case p_RecordSuccess E p w of (p', w') \<Rightarrow> (set_provider n p' pool, w')))"

definition pool_RecordFailure :: "string \<Rightarrow> goerr \<Rightarrow> Pool \<Rightarrow> Pool" where
  "pool_RecordFailure n err pool =
     (if errors_Is err ErrQuotaExceeded then pool
      else case providers pool n of
             None \<Rightarrow> pool
           | Some p \<Rightarrow> set_provider n (p_RecordFailure err p) pool)"

section \<open>RPC methods\<close>

text \<open>A call on the provider object behind a name.\<close>

definition on_provider :: "string \<Rightarrow> (Provider, 'w, 'a) rpc \<Rightarrow> (Pool, 'w, 'a) rpc" where
  "on_provider n rpc pool w = (case providers pool n of
      None \<Rightarrow> (Inl nil_deref, pool, w)
    | Some p \<Rightarrow> (case rpc p w of (r, p', w') \<Rightarrow> (r, set_provider n p' pool, w')))"

text \<open>
  The common shape of the methods: select a provider, call it, record the outcome. \<open>counts\<close>
  tells which errors are recorded as failures.
\<close>

definition pool_rpc :: "'w ext \<Rightarrow> (goerr \<Rightarrow> bool) \<Rightarrow> (Provider, 'w, 'a) rpc \<Rightarrow> (Pool, 'w, 'a) rpc" where
  "pool_rpc E counts rpc pool w =
     (case pool_GetProvider E pool w of
        (None, pool1, w1) \<Rightarrow> (Inl (Sentinel ErrNoAvailableProvider), pool1, w1)
      | (Some n, pool1, w1) \<Rightarrow>
          (case on_provider n rpc pool1 w1 of
             (Inl err, pool2, w2) \<Rightarrow>
               (Inl err, if counts err then pool_RecordFailure n err pool2 else pool2, w2)
           | (Inr x, pool2, w2) \<Rightarrow>
               (case pool_RecordSuccess E n pool2 w2 of (pool3, w3) \<Rightarrow> (Inr x, pool3, w3))))"

text \<open>Methods that record nothing: \<open>SubscribeNewHead\<close> and \<open>CodeAt\<close>.\<close>

definition pool_rpc_unrecorded :: "'w ext \<Rightarrow> (Provider, 'w, 'a) rpc \<Rightarrow> (Pool, 'w, 'a) rpc" where
  "pool_rpc_unrecorded E rpc pool w =
     (case pool_GetProvider E pool w of
        (None, pool1, w1) \<Rightarrow> (Inl (Sentinel ErrNoAvailableProvider), pool1, w1)
      | (Some n, pool1, w1) \<Rightarrow> on_provider n rpc pool1 w1)"

definition pool_BlockByNumber :: "'w ext \<Rightarrow> u64 \<Rightarrow> (Pool, 'w, block) rpc" where
  "pool_BlockByNumber E blockNum =
     pool_rpc E (\<lambda>err. \<not> isLocalDecodeError (Some err)) (p_BlockByNumber E blockNum)"

definition pool_BlockByHash :: "'w ext \<Rightarrow> hash \<Rightarrow> (Pool, 'w, block) rpc" where
  "pool_BlockByHash E hash = pool_rpc E (\<lambda>_. True) (p_BlockByHash E hash)"

definition pool_TransactionByHash :: "'w ext \<Rightarrow> hash \<Rightarrow> (Pool, 'w, transaction \<times> bool) rpc" where
  "pool_TransactionByHash E hash = pool_rpc E (\<lambda>_. True) (p_TransactionByHash E hash)"

definition pool_TransactionReceipt :: "'w ext \<Rightarrow> hash \<Rightarrow> (Pool, 'w, receipt) rpc" where
  "pool_TransactionReceipt E hash = pool_rpc E (\<lambda>_. True) (p_TransactionReceipt E hash)"

definition pool_FilterLogs :: "'w ext \<Rightarrow> FilterQuery \<Rightarrow> (Pool, 'w, log list) rpc" where
  "pool_FilterLogs E q = pool_rpc E (\<lambda>_. True) (p_FilterLogs E q)"

definition logFilterQuery :: "Pool \<Rightarrow> u64 \<Rightarrow> u64 \<Rightarrow> FilterQuery" where
  "logFilterQuery pool fromBlock toBlock =
     \<lparr>fq_FromBlock = big_SetUint64 fromBlock, fq_ToBlock = big_SetUint64 toBlock,
      fq_Addresses = pool_logAddresses pool, fq_Topics = pool_logTopics pool\<rparr>"

definition pool_LogsByBlockNumber :: "'w ext \<Rightarrow> u64 \<Rightarrow> (Pool, 'w, log list) rpc" where
  "pool_LogsByBlockNumber E blockNum pool w =
     pool_FilterLogs E (logFilterQuery pool blockNum blockNum) pool w"

definition pool_LogsByBlockRange :: "'w ext \<Rightarrow> u64 \<Rightarrow> u64 \<Rightarrow> (Pool, 'w, log list) rpc" where
  "pool_LogsByBlockRange E fromBlock toBlock pool w =
     pool_FilterLogs E (logFilterQuery pool fromBlock toBlock) pool w"

definition pool_SubscribeNewHead :: "'w ext \<Rightarrow> (Pool, 'w, nat) rpc" where
  "pool_SubscribeNewHead E = pool_rpc_unrecorded E (p_SubscribeNewHead E)"

definition pool_HeaderByNumber :: "'w ext \<Rightarrow> int \<Rightarrow> (Pool, 'w, header) rpc" where
  "pool_HeaderByNumber E number = pool_rpc E (\<lambda>_. True) (p_HeaderByNumber E number)"

definition pool_BlockNumber :: "'w ext \<Rightarrow> (Pool, 'w, u64) rpc" where
  "pool_BlockNumber E = pool_rpc E (\<lambda>_. True) (p_BlockNumber E)"

definition pool_BalanceAt :: "'w ext \<Rightarrow> address \<Rightarrow> (Pool, 'w, int) rpc" where
  "pool_BalanceAt E address = pool_rpc E (\<lambda>_. True) (p_BalanceAt E address)"

definition pool_CodeAt :: "'w ext \<Rightarrow> address \<Rightarrow> (Pool, 'w, bytes) rpc" where
  "pool_CodeAt E address = pool_rpc_unrecorded E (p_CodeAt E address)"

section \<open>Range limits\<close>

definition effectiveMaxLogBlockRange :: "Pool \<Rightarrow> Provider \<Rightarrow> int" where
  "effectiveMaxLogBlockRange pool p =
     (if 0 < p_maxLogBlockRange p then p_maxLogBlockRange p else pool_maxLogBlockRange pool)"

definition pool_MaxLogBlockRange :: "'w ext \<Rightarrow> Pool \<Rightarrow> 'w \<Rightarrow> int \<times> Pool \<times> 'w" where
  "pool_MaxLogBlockRange E pool w =
     (case pool_GetProvider E pool w of
        (Some n, pool1, w1) \<Rightarrow>
          (case providers pool1 n of
             Some p \<Rightarrow> if 0 < p_maxLogBlockRange p then (p_maxLogBlockRange p, pool1, w1)
                       else (pool_maxLogBlockRange pool1, pool1, w1)
           | None \<Rightarrow> (pool_maxLogBlockRange pool1, pool1, w1))
      | (None, pool1, w1) \<Rightarrow> (pool_maxLogBlockRange pool1, pool1, w1))"

definition pool_IsRangeTooLargeError :: "Pool \<Rightarrow> goerr option \<Rightarrow> bool" where
  "pool_IsRangeTooLargeError pool err = isRangeTooLargeErrorWithFilters err (pool_rangeTooLargeFilters pool)"

section \<open>Closing, scores and quota persistence\<close>

fun close_all :: "'w ext \<Rightarrow> string list \<Rightarrow> Pool \<Rightarrow> 'w \<Rightarrow> goerr option \<times> Pool \<times> 'w" where
  "close_all E [] pool w = (None, pool, w)"
| "close_all E (n # ns) pool w = (case providers pool n of
      None \<Rightarrow> close_all E ns pool w
    | Some p \<Rightarrow> (case p_Close E p w of
        (Some pan, p', w') \<Rightarrow> (Some pan, set_provider n p' pool, w')
      | (None, p', w') \<Rightarrow> close_all E ns (set_provider n p' pool) w'))"

text \<open>The result is a panic raised while closing, if any.\<close>

definition pool_Close :: "'w ext \<Rightarrow> Pool \<Rightarrow> 'w \<Rightarrow> goerr option \<times> Pool \<times> 'w" where
  "pool_Close E pool w =
     (if pool_closed pool then (None, pool, w)
      else case rt_MapOrder (x_rt E) (orderedList pool) w of
        (ns, w1) \<Rightarrow> close_all E ns (pool\<lparr>pool_closed := True\<rparr>) w1)"

definition pool_GetScores :: "Pool \<Rightarrow> string \<rightharpoonup> f64" where
  "pool_GetScores pool n = map_option (adjustedScoreLocked pool) (providers pool n)"

text \<open>The callback is the method \<open>SetQuotaUsage\<close> of the storage, on the storage's state.\<close>

fun persist_quotas :: "(string \<Rightarrow> string \<Rightarrow> int \<Rightarrow> gotime \<Rightarrow> 'st \<Rightarrow> goerr option \<times> 'st) \<Rightarrow>
    string list \<Rightarrow> Pool \<Rightarrow> 'st \<Rightarrow> goerr option \<times> 'st" where
  "persist_quotas set_usage [] pool st = (None, st)"
| "persist_quotas set_usage (n # ns) pool st = (case providers pool n of
      None \<Rightarrow> persist_quotas set_usage ns pool st
    | Some p \<Rightarrow>
        (case p_GetQuotaUsage p of (_, used, _, _) \<Rightarrow>
          (case set_usage (p_name p) ''requests'' used (fst (p_GetQuotaReset p)) st of
             (Some err, st') \<Rightarrow> (Some (errorf_w (''persist quota for '' @ p_name p @ '': '') err), st')
           | (None, st') \<Rightarrow> persist_quotas set_usage ns pool st')))"

end
