(* ===== verification/Pool_Invariant.thy ===== *)
theory Pool_Invariant
  imports Pool
begin

text \<open>
  What every operation of the pool keeps: the providers' identities and configuration, the
  ranking by priority, and scores that are numbers.
\<close>

section \<open>Static and dynamic parts\<close>

definition p_static :: "Provider \<Rightarrow> string \<times> int \<times> EthClient \<times> goerr option \<times> RetryConfig \<times> int" where
  "p_static p = (p_name p, p_priority p, p_client p, p_dialErr p, p_retryCfg p, p_maxLogBlockRange p)"

definition score_ok :: "Provider \<Rightarrow> bool" where
  "score_ok p \<longleftrightarrow> p_currentScore p \<noteq> NaN"

definition scores_ok :: "Pool \<Rightarrow> bool" where
  "scores_ok pool \<longleftrightarrow> (\<forall>n p. providers pool n = Some p \<longrightarrow> score_ok p)"

text \<open>\<open>pool_evolves pool pool'\<close>: only quotas, scores, health flags and timestamps have changed.\<close>

definition pool_evolves :: "Pool \<Rightarrow> Pool \<Rightarrow> bool" where
  "pool_evolves pool pool' \<longleftrightarrow>
     orderedList pool' = orderedList pool \<and> penalties pool' = penalties pool \<and>
     pool_maxLogBlockRange pool' = pool_maxLogBlockRange pool \<and>
     pool_maxParallelJobAttempts pool' = pool_maxParallelJobAttempts pool \<and>
     pool_rangeTooLargeFilters pool' = pool_rangeTooLargeFilters pool \<and>
     pool_logAddresses pool' = pool_logAddresses pool \<and> pool_logTopics pool' = pool_logTopics pool \<and>
     (\<forall>n. map_option p_static (providers pool' n) = map_option p_static (providers pool n)) \<and>
     (scores_ok pool \<longrightarrow> scores_ok pool')"

lemma pool_evolves_refl [simp]: "pool_evolves pool pool"
  by (simp add: pool_evolves_def)

lemma pool_evolves_trans: "pool_evolves a b \<Longrightarrow> pool_evolves b c \<Longrightarrow> pool_evolves a c"
  by (simp add: pool_evolves_def)

lemma set_provider_evolves:
  assumes "providers pool n = Some p" and "p_static p' = p_static p" and "score_ok p \<Longrightarrow> score_ok p'"
  shows "pool_evolves pool (set_provider n p' pool)"
  using assms by (auto simp: pool_evolves_def set_provider_def scores_ok_def)

text \<open>The same, up to the ranking, which \<open>recalculateScores\<close> changes.\<close>

definition pool_like :: "Pool \<Rightarrow> Pool \<Rightarrow> bool" where
  "pool_like pool pool' \<longleftrightarrow>
     mset (orderedList pool') = mset (orderedList pool) \<and>
     pool_maxLogBlockRange pool' = pool_maxLogBlockRange pool \<and>
     pool_maxParallelJobAttempts pool' = pool_maxParallelJobAttempts pool \<and>
     pool_rangeTooLargeFilters pool' = pool_rangeTooLargeFilters pool \<and>
     pool_logAddresses pool' = pool_logAddresses pool \<and> pool_logTopics pool' = pool_logTopics pool \<and>
     (\<forall>n. map_option p_static (providers pool' n) = map_option p_static (providers pool n))"

lemma pool_like_refl [simp]: "pool_like pool pool"
  by (simp add: pool_like_def)

lemma pool_like_trans: "pool_like a b \<Longrightarrow> pool_like b c \<Longrightarrow> pool_like a c"
  by (simp add: pool_like_def)

lemma evolves_like: "pool_evolves a b \<Longrightarrow> pool_like a b"
  by (simp add: pool_like_def pool_evolves_def)

section \<open>Each operation\<close>

lemma f64_of_rat_small:
  assumes "\<bar>x\<bar> \<le> 2 ^ 53"
  shows "\<exists>y. f64_of_rat x = Fin y \<and> \<bar>y\<bar> \<le> 2 ^ 53"
proof -
  have r: "f64_round (2 ^ 53) = 2 ^ 53" using f64_round_of_int [of "2 ^ 53"] by simp
  have "f64_round x \<le> 2 ^ 53" using f64_round_mono [of x "2 ^ 53"] assms r by (simp add: abs_le_iff)
  moreover have "f64_round (- x) \<le> 2 ^ 53" using f64_round_mono [of "- x" "2 ^ 53"] assms r by (simp add: abs_le_iff)
  ultimately have b: "\<bar>f64_round x\<bar> \<le> 2 ^ 53" by (simp add: f64_round_minus abs_le_iff)
  have "(2 :: rat) ^ 53 < 2 ^ 1024" by simp
  with b have "f64_of_rat x = Fin (f64_round x)" by (simp add: f64_of_rat_def abs_le_iff)
  with b show ?thesis by blast
qed

lemma f64_add_not_NaN: "a \<noteq> NaN \<Longrightarrow> f64_add a (Fin y) \<noteq> NaN"
  by (cases a) auto

lemma f64_sub_not_NaN: "a \<noteq> NaN \<Longrightarrow> f64_sub a (Fin y) \<noteq> NaN"
  by (simp add: f64_sub_def f64_add_not_NaN)

lemma f64_tenth: "\<exists>y. f64_of_rat (1 / 10) = Fin y" "\<exists>y. f64_of_rat (1 / 5) = Fin y"
  using f64_of_rat_small [of "1 / 10"] f64_of_rat_small [of "1 / 5"] by auto

lemma p_RecordSuccess_ok:
  assumes "p_RecordSuccess E p w = (p', w')"
  shows "p_static p' = p_static p" and "score_ok p \<Longrightarrow> score_ok p'"
proof -
  show "p_static p' = p_static p" using assms by (auto simp: p_RecordSuccess_def p_static_def Let_def split: prod.splits)
  obtain y where "f64_of_rat (1 / 10) = Fin y" using f64_tenth by blast
  moreover have "f64_lt (score_cap p) s \<Longrightarrow> score_cap p \<noteq> NaN" for s by auto
  ultimately show "score_ok p \<Longrightarrow> score_ok p'"
    using assms f64_add_not_NaN [of "p_currentScore p" y]
    by (auto simp: p_RecordSuccess_def score_ok_def Let_def split: prod.splits if_splits)
qed

lemma p_RecordFailure_ok:
  "p_static (p_RecordFailure err p) = p_static p"
  "score_ok p \<Longrightarrow> score_ok (p_RecordFailure err p)"
proof -
  show "p_static (p_RecordFailure err p) = p_static p" by (simp add: p_RecordFailure_def p_static_def Let_def)
  obtain y where "f64_of_rat (1 / 5) = Fin y" using f64_tenth by blast
  then show "score_ok p \<Longrightarrow> score_ok (p_RecordFailure err p)"
    using f64_sub_not_NaN by (auto simp: p_RecordFailure_def score_ok_def Let_def)
qed

lemma p_IsAvailable_ok:
  assumes "p_IsAvailable E p w = (b, p', w')"
  shows "p_static p' = p_static p" "score_ok p' = score_ok p"
  using p_IsAvailable_state(1) [OF assms] by (auto simp: p_static_def score_ok_def)

text \<open>A provider method that changes at most the quota.\<close>

definition quota_only :: "(Provider, 'w, 'a) rpc \<Rightarrow> bool" where
  "quota_only rpc \<longleftrightarrow> (\<forall>p w r p' w'. rpc p w = (r, p', w') \<longrightarrow> (\<exists>q. p' = p\<lparr>p_quota := q\<rparr>))"

lemma quota_only_withRetry: "quota_only (p_withRetry E call)"
proof -
  have "\<exists>q. p' = p\<lparr>p_quota := q\<rparr>" if "p_withRetry E call p w = (r, p', w')" for p w r p' w'
    using p_withRetry_consumes [OF that] by blast
  then show ?thesis by (simp add: quota_only_def)
qed

lemma quota_only_rpcs [simp]:
  "quota_only (p_BlockByNumber E n)" "quota_only (p_BlockByHash E h)"
  "quota_only (p_TransactionByHash E h)" "quota_only (p_TransactionReceipt E h)"
  "quota_only (p_FilterLogs E q)" "quota_only (p_HeaderByNumber E i)"
  "quota_only (p_BlockNumber E)" "quota_only (p_BalanceAt E a)" "quota_only (p_CodeAt E a)"
  by (simp_all add: p_rpc_defs quota_only_withRetry)

lemma quota_only_Subscribe [simp]: "quota_only (p_SubscribeNewHead E)"
proof -
  have "\<exists>q. p = p\<lparr>p_quota := q\<rparr>" for p :: Provider
    by (rule exI [of _ "p_quota p"]) simp
  then show ?thesis
    by (auto simp: quota_only_def p_SubscribeNewHead_def split: EthClient.splits prod.splits)
qed

lemma first_available_evolves:
  "first_available E ns pool w = (r, pool', w') \<Longrightarrow> pool_evolves pool pool'"
proof (induction ns arbitrary: pool w)
  case Nil
  then show ?case by simp
next
  case (Cons n ns)
  show ?case
  proof (cases "providers pool n")
    case None
    with Cons show ?thesis by simp
  next
    case (Some p)
    obtain b p1 w1 where a: "p_IsAvailable E p w = (b, p1, w1)" by (cases "p_IsAvailable E p w")
    have step: "pool_evolves pool (set_provider n p1 pool)"
      using Some p_IsAvailable_ok [OF a] by (intro set_provider_evolves) auto
    with Some a Cons.prems Cons.IH show ?thesis
      by (cases b) (auto simp: Let_def intro: pool_evolves_trans)
  qed
qed

lemma GetProvider_evolves: "pool_GetProvider E pool w = (r, pool', w') \<Longrightarrow> pool_evolves pool pool'"
  unfolding pool_GetProvider_def by (rule first_available_evolves)

lemma RecordSuccess_evolves: "pool_RecordSuccess E n pool w = (pool', w') \<Longrightarrow> pool_evolves pool pool'"
  by (auto simp: pool_RecordSuccess_def split: option.splits prod.splits
      intro!: set_provider_evolves dest: p_RecordSuccess_ok)

lemma RecordFailure_evolves: "pool_evolves pool (pool_RecordFailure n err pool)"
  by (auto simp: pool_RecordFailure_def p_RecordFailure_ok split: option.splits intro!: set_provider_evolves)

lemma on_provider_evolves:
  assumes "quota_only rpc" and "on_provider n rpc pool w = (r, pool', w')"
  shows "pool_evolves pool pool'"
proof (cases "providers pool n")
  case None
  with assms show ?thesis by (simp add: on_provider_def)
next
  case (Some p)
  with assms(2) obtain p' where "rpc p w = (r, p', w')" "pool' = set_provider n p' pool"
    by (auto simp: on_provider_def split: prod.splits)
  with assms(1) obtain q where "pool' = set_provider n (p\<lparr>p_quota := q\<rparr>) pool"
    unfolding quota_only_def by blast
  with Some show ?thesis by (auto simp: p_static_def score_ok_def intro!: set_provider_evolves)
qed

lemma pool_rpc_evolves:
  assumes "quota_only rpc" and "pool_rpc E counts rpc pool w = (r, pool', w')"
  shows "pool_evolves pool pool'"
proof -
  obtain a pool1 w1 where g: "pool_GetProvider E pool w = (a, pool1, w1)" by (cases "pool_GetProvider E pool w")
  have e1: "pool_evolves pool pool1" by (rule GetProvider_evolves [OF g])
  show ?thesis
  proof (cases a)
    case None
    with g e1 assms(2) show ?thesis by (simp add: pool_rpc_def)
  next
    case (Some n)
    obtain x pool2 w2 where o: "on_provider n rpc pool1 w1 = (x, pool2, w2)"
      by (cases "on_provider n rpc pool1 w1")
    have e2: "pool_evolves pool pool2"
      using e1 on_provider_evolves [OF assms(1) o] by (rule pool_evolves_trans)
    show ?thesis
      using g Some o assms(2) e2
      by (auto simp: pool_rpc_def split: sum.splits prod.splits if_splits
          intro: pool_evolves_trans RecordFailure_evolves dest!: RecordSuccess_evolves)
  qed
qed

lemma MaxLogBlockRange_evolves: "pool_MaxLogBlockRange E pool w = (r, pool', w') \<Longrightarrow> pool_evolves pool pool'"
  using GetProvider_evolves by (fastforce simp: pool_MaxLogBlockRange_def split: prod.splits option.splits if_splits)

section \<open>The invariant\<close>

definition priority_at :: "Pool \<Rightarrow> string \<Rightarrow> int" where
  "priority_at pool n = (case providers pool n of None \<Rightarrow> 0 | Some p \<Rightarrow> p_priority p)"

definition pool_inv :: "Pool \<Rightarrow> bool" where
  "pool_inv pool \<longleftrightarrow>
     distinct (orderedList pool) \<and> dom (providers pool) = set (orderedList pool) \<and>
     (\<forall>n p. providers pool n = Some p \<longrightarrow> p_name p = n) \<and> scores_ok pool \<and>
     (\<forall>n x. penalties pool n = Some x \<longrightarrow> (\<exists>y. x = Fin y)) \<and>
     1 \<le> pool_maxLogBlockRange pool \<and>
     sorted_wrt (\<lambda>a b. priority_at pool a \<le> priority_at pool b) (orderedList pool)"

lemma evolves_provider:
  assumes "pool_evolves pool pool'"
  shows "providers pool' n = Some p' \<Longrightarrow> \<exists>p. providers pool n = Some p \<and> p_static p' = p_static p"
    and "providers pool n = Some p \<Longrightarrow> \<exists>p'. providers pool' n = Some p' \<and> p_static p' = p_static p"
  using assms unfolding pool_evolves_def by (metis map_option_eq_Some)+

lemma evolves_priority: "pool_evolves pool pool' \<Longrightarrow> priority_at pool' n = priority_at pool n"
  unfolding priority_at_def
  by (cases "providers pool n"; cases "providers pool' n")
    (auto simp: p_static_def dest: evolves_provider)

lemma evolves_dom: "pool_evolves pool pool' \<Longrightarrow> dom (providers pool') = dom (providers pool)"
  by (auto dest: evolves_provider)

lemma pool_inv_evolves:
  assumes "pool_inv pool" and e: "pool_evolves pool pool'"
  shows "pool_inv pool'"
proof -
  have "p_name p' = n" if "providers pool' n = Some p'" for n p'
    using evolves_provider(1) [OF e that] assms(1) by (auto simp: pool_inv_def p_static_def)
  then show ?thesis
    using assms evolves_dom [OF e] evolves_priority [OF e]
    by (auto simp: pool_inv_def pool_evolves_def)
qed

interpretation provider_rank: slice_order rank_less "{k. snd k \<noteq> NaN}"
  by unfold_locales
    (auto simp: rank_less_def split: if_splits dest: f64_lt_asym f64_lt_neg_trans)

lemma rank_ok:
  assumes "scores_ok pool" and "\<forall>n x. penalties pool n = Some x \<longrightarrow> (\<exists>y. x = Fin y)"
  shows "snd (rank_of pool n) \<noteq> NaN"
proof (cases "providers pool n")
  case None
  then show ?thesis by (simp add: rank_of_def)
next
  case (Some p)
  obtain y where "penalty_of pool (p_name p) = Fin y"
    using assms(2) by (cases "penalties pool (p_name p)") (auto simp: penalty_of_def)
  with Some assms(1) show ?thesis
    by (auto simp: rank_of_def adjustedScoreLocked_def scores_ok_def score_ok_def f64_sub_not_NaN)
qed

lemma sortOrderedList_sorted:
  assumes "scores_ok pool" and "\<forall>n x. penalties pool n = Some x \<longrightarrow> (\<exists>y. x = Fin y)"
  shows "sorted_wrt (\<lambda>a b. \<not> rank_less (rank_of pool b) (rank_of pool a))
           (orderedList (sortOrderedListLocked pool))"
  unfolding sortOrderedListLocked_def
  using provider_rank.sorted_sort_Slice [of "rank_of pool" "orderedList pool"] rank_ok [OF assms]
  by auto

lemma rank_priority: "\<not> rank_less (rank_of pool b) (rank_of pool a) \<Longrightarrow> n = fst (rank_of pool a) \<Longrightarrow> n \<le> fst (rank_of pool b)"
  by (auto simp: rank_less_def split: if_splits)

lemma fst_rank_of [simp]: "fst (rank_of pool n) = priority_at pool n"
  by (simp add: rank_of_def priority_at_def split: option.splits)

lemma priority_at_sort [simp]: "priority_at (sortOrderedListLocked pool) n = priority_at pool n"
  by (simp add: priority_at_def sortOrderedListLocked_def)

lemma sort_priority_sorted:
  assumes "scores_ok pool" and "\<forall>n x. penalties pool n = Some x \<longrightarrow> (\<exists>y. x = Fin y)"
  shows "sorted_wrt (\<lambda>a b. priority_at pool a \<le> priority_at pool b) (orderedList (sortOrderedListLocked pool))"
  by (rule sorted_wrt_mono_rel [OF _ sortOrderedList_sorted [OF assms]])
    (auto dest: rank_priority)

lemma sort_inv:
  assumes "distinct (orderedList pool)" and "dom (providers pool) = set (orderedList pool)"
    and "\<forall>n p. providers pool n = Some p \<longrightarrow> p_name p = n" and "scores_ok pool"
    and "\<forall>n x. penalties pool n = Some x \<longrightarrow> (\<exists>y. x = Fin y)" and "1 \<le> pool_maxLogBlockRange pool"
  shows "pool_inv (sortOrderedListLocked pool)"
  using assms sort_priority_sorted [OF assms(4,5)]
  unfolding pool_inv_def priority_at_sort
  by (simp add: sortOrderedListLocked_def scores_ok_def)

lemma quota_penalty_finite: "\<exists>y. quota_penalty p = Fin y"
proof -
  have five: "f64_of_rat 5 = Fin 5" "f64_of_rat 10 = Fin 10" "f64_of_rat 15 = Fin 15"
    using f64_of_int_exact [of 5] f64_of_int_exact [of 10] f64_of_int_exact [of 15] by (simp_all add: f64_of_int_def)
  show ?thesis by (cases "p_GetQuotaUsage p") (simp add: quota_penalty_def Let_def five)
qed

lemma set_penalties_fields [simp]:
  "providers (set_penalties ns pool) = providers pool"
  "orderedList (set_penalties ns pool) = orderedList pool"
  "pool_maxLogBlockRange (set_penalties ns pool) = pool_maxLogBlockRange pool"
  "pool_logAddresses (set_penalties ns pool) = pool_logAddresses pool"
  "pool_logTopics (set_penalties ns pool) = pool_logTopics pool"
  "pool_maxParallelJobAttempts (set_penalties ns pool) = pool_maxParallelJobAttempts pool"
  "pool_rangeTooLargeFilters (set_penalties ns pool) = pool_rangeTooLargeFilters pool"
  by (induction ns arbitrary: pool) (auto split: option.splits)

lemma set_penalties_finite:
  "\<forall>n x. penalties pool n = Some x \<longrightarrow> (\<exists>y. x = Fin y) \<Longrightarrow>
   \<forall>n x. penalties (set_penalties ns pool) n = Some x \<longrightarrow> (\<exists>y. x = Fin y)"
proof (induction ns arbitrary: pool)
  case (Cons n ns)
  show ?case
  proof (cases "providers pool n")
    case None
    with Cons show ?thesis by simp
  next
    case (Some p)
    let ?pool = "pool\<lparr>penalties := (penalties pool)(p_name p \<mapsto> quota_penalty p)\<rparr>"
    have "\<forall>n x. penalties ?pool n = Some x \<longrightarrow> (\<exists>y. x = Fin y)"
      using Cons.prems quota_penalty_finite [of p] by simp
    then have "\<forall>n x. penalties (set_penalties ns ?pool) n = Some x \<longrightarrow> (\<exists>y. x = Fin y)"
      by (rule Cons.IH)
    with Some show ?thesis by simp
  qed
qed simp

lemma recalculateScores_inv: "pool_inv pool \<Longrightarrow> pool_inv (recalculateScores pool)"
  unfolding recalculateScores_def
  by (rule sort_inv) (auto simp: pool_inv_def scores_ok_def set_penalties_finite)

lemma recalculateScores_like: "pool_like pool (recalculateScores pool)"
  by (simp add: pool_like_def recalculateScores_def sortOrderedListLocked_def)

lemma NewProvider_fields:
  "NewProvider E cfg w = (p, w') \<Longrightarrow> p_name p = pc_Name cfg \<and> p_priority p = pc_Priority cfg \<and> score_ok p"
  by (auto simp: NewProvider_def Let_def score_ok_def f64_of_int_def split: prod.splits)

lemma check_names_ok:
  "check_names seen ns = None \<Longrightarrow> distinct ns \<and> set ns \<inter> set seen = {} \<and> [] \<notin> set ns"
  by (induction seen ns rule: check_names.induct) (auto split: if_splits)

lemma add_providers_inv:
  assumes "add_providers E pcs pool w = (pool', w')"
    and "distinct (orderedList pool @ map pc_Name pcs)" and "dom (providers pool) = set (orderedList pool)"
    and "\<forall>n p. providers pool n = Some p \<longrightarrow> p_name p = n" and "scores_ok pool"
  shows "orderedList pool' = orderedList pool @ map pc_Name pcs \<and>
         dom (providers pool') = set (orderedList pool') \<and>
         (\<forall>n p. providers pool' n = Some p \<longrightarrow> p_name p = n) \<and> scores_ok pool' \<and>
         penalties pool' = penalties pool \<and> pool_maxLogBlockRange pool' = pool_maxLogBlockRange pool"
  using assms
proof (induction pcs arbitrary: pool w)
  case (Cons pc pcs)
  obtain p w1 where p: "NewProvider E pc w = (p, w1)" by (cases "NewProvider E pc w")
  let ?pool = "(set_provider (pc_Name pc) p pool)\<lparr>orderedList := orderedList pool @ [pc_Name pc]\<rparr>"
  have a: "add_providers E pcs ?pool w1 = (pool', w')" using Cons.prems(1) p by simp
  have b: "distinct (orderedList ?pool @ map pc_Name pcs)" using Cons.prems(2) by simp
  have c: "dom (providers ?pool) = set (orderedList ?pool)"
    using Cons.prems(3) by (simp add: set_provider_def)
  have d: "\<forall>n p. providers ?pool n = Some p \<longrightarrow> p_name p = n" and e: "scores_ok ?pool"
    using Cons.prems(4,5) NewProvider_fields [OF p] by (simp_all add: set_provider_def scores_ok_def)
  show ?case using Cons.IH [OF a b c d e] by (simp add: set_provider_def)
qed simp

lemma add_providers_fields:
  "add_providers E ps pool w = (pool', w') \<Longrightarrow>
   pool_logAddresses pool' = pool_logAddresses pool \<and> pool_logTopics pool' = pool_logTopics pool \<and> pool_closed pool' = pool_closed pool"
  by (induction ps arbitrary: pool w) (auto simp: set_provider_def Let_def split: prod.splits)

lemma NewPool_fields:
  assumes "NewPool E cfg w = (Inr pool, w')"
  shows "pool_logAddresses pool = plc_LogAddresses cfg \<and> pool_logTopics pool = plc_LogTopics cfg \<and> \<not> pool_closed pool"
  using assms
  by (auto simp: NewPool_def Let_def sortOrderedListLocked_def split: if_splits option.splits prod.splits dest!: add_providers_fields)

lemma NewPool_inv:
  assumes "NewPool E cfg w = (Inr pool, w')"
  shows "pool_inv pool \<and> mset (orderedList pool) = mset (map pc_Name (plc_Providers cfg))"
proof -
  have names: "check_names [] (map pc_Name (plc_Providers cfg)) = None"
    using assms by (auto simp: NewPool_def split: if_splits option.splits)
  define pool0 where "pool0 = \<lparr>providers = Map.empty, orderedList = [], penalties = Map.empty,
    pool_updateInterval = (if plc_UpdateInterval cfg \<le> 0 then defaultPoolUpdateInterval else plc_UpdateInterval cfg),
    pool_maxLogBlockRange = (if plc_MaxLogBlockRange cfg \<le> 0 then DefaultMaxLogBlockRange else plc_MaxLogBlockRange cfg),
    pool_maxParallelJobAttempts = plc_MaxParallelJobAttempts cfg,
    pool_rangeTooLargeFilters = plc_RangeTooLargeFilters cfg,
    pool_logAddresses = plc_LogAddresses cfg, pool_logTopics = plc_LogTopics cfg, pool_closed = False\<rparr>"
  obtain pool1 where a: "add_providers E (plc_Providers cfg) pool0 w = (pool1, w')"
    and pool: "pool = sortOrderedListLocked pool1"
    using assms names
    by (auto simp: NewPool_def pool0_def Let_def split: if_splits option.splits prod.splits)
  have ok: "distinct (map pc_Name (plc_Providers cfg))" using check_names_ok [OF names] by simp
  have "orderedList pool1 = map pc_Name (plc_Providers cfg) \<and>
    dom (providers pool1) = set (orderedList pool1) \<and>
    (\<forall>n p. providers pool1 n = Some p \<longrightarrow> p_name p = n) \<and> scores_ok pool1 \<and>
    penalties pool1 = Map.empty \<and> 1 \<le> pool_maxLogBlockRange pool1"
    using add_providers_inv [OF a] ok by (simp add: pool0_def scores_ok_def DefaultMaxLogBlockRange_def)
  with ok show ?thesis unfolding pool
    by (auto intro!: sort_inv) (simp add: sortOrderedListLocked_def)
qed

section \<open>Selection\<close>

lemma first_available_None:
  "first_available E ns pool w = (None, pool', w') \<Longrightarrow> n \<in> set ns \<Longrightarrow> distinct ns \<Longrightarrow>
   providers pool n = Some p \<Longrightarrow> \<exists>w0 p0 w1. p_IsAvailable E p w0 = (False, p0, w1)"
proof (induction ns arbitrary: pool w)
  case (Cons m ns)
  show ?case
  proof (cases "providers pool m")
    case None
    with Cons show ?thesis by auto
  next
    case (Some pm)
    obtain b p1 w1 where a: "p_IsAvailable E pm w = (b, p1, w1)" by (cases "p_IsAvailable E pm w")
    with Some Cons.prems(1) have b: "\<not> b" "first_available E ns (set_provider m p1 pool) w1 = (None, pool', w')"
      by (auto simp: Let_def split: if_splits)
    show ?thesis
    proof (cases "n = m")
      case True
      with Some a b Cons.prems show ?thesis by auto
    next
      case False
      with Cons.prems Cons.IH [OF b(2)] show ?thesis by (simp add: set_provider_def)
    qed
  qed
qed simp

text \<open>
  The selected provider is the first of the list whose check succeeded: all providers before it
  were checked, in the state the pool had, and found unavailable.
\<close>

lemma first_available_Some:
  assumes "first_available E ns pool w = (Some n, pool', w')" and "distinct ns"
  shows "\<exists>pre post. ns = pre @ n # post \<and>
           (\<exists>pool1 w1. first_available E pre pool w = (None, pool1, w1) \<and>
              (\<exists>p p'. providers pool n = Some p \<and> p_IsAvailable E p w1 = (True, p', w') \<and>
                      pool' = set_provider n p' pool1))"
  using assms
proof (induction ns arbitrary: pool w)
  case (Cons m ns)
  show ?case
  proof (cases "providers pool m")
    case None
    with Cons.prems have "first_available E ns pool w = (Some n, pool', w')" "distinct ns" by auto
    from Cons.IH [OF this] obtain pre post where "ns = pre @ n # post"
      "\<exists>pool1 w1. first_available E pre pool w = (None, pool1, w1) \<and>
        (\<exists>p p'. providers pool n = Some p \<and> p_IsAvailable E p w1 = (True, p', w') \<and>
                pool' = set_provider n p' pool1)" by blast
    moreover from None have "first_available E (m # pre) pool w = first_available E pre pool w" by simp
    ultimately show ?thesis by (metis append_Cons)
  next
    case (Some pm)
    obtain b p1 w1 where a: "p_IsAvailable E pm w = (b, p1, w1)" by (cases "p_IsAvailable E pm w")
    let ?pool = "set_provider m p1 pool"
    show ?thesis
    proof (cases b)
      case True
      with Some a Cons.prems(1) have "m = n" "pool' = set_provider n p1 pool" "w1 = w'"
        by (auto simp: Let_def)
      with Some a True have "m # ns = [] @ n # ns \<and> first_available E [] pool w = (None, pool, w) \<and>
        providers pool n = Some pm \<and> p_IsAvailable E pm w = (True, p1, w') \<and> pool' = set_provider n p1 pool"
        by simp
      then show ?thesis by metis
    next
      case False
      with Some a Cons.prems have f: "first_available E ns ?pool w1 = (Some n, pool', w')" "distinct ns"
        by (auto simp: Let_def)
      from Cons.IH [OF this] obtain pre post where split: "ns = pre @ n # post"
        and rest: "\<exists>pool1 w2. first_available E pre ?pool w1 = (None, pool1, w2) \<and>
          (\<exists>p p'. providers ?pool n = Some p \<and> p_IsAvailable E p w2 = (True, p', w') \<and>
                  pool' = set_provider n p' pool1)" by blast
      have "providers ?pool n = providers pool n"
        using split Cons.prems(2) by (auto simp: set_provider_def)
      moreover have "first_available E (m # pre) pool w = first_available E pre ?pool w1"
        using Some a False by (simp add: Let_def)
      ultimately show ?thesis using split rest by (metis append_Cons)
    qed
  qed
qed simp

text \<open>What a successful call returned came from the client of a provider of the pool.\<close>

lemma pool_rpc_value:
  assumes "pool_rpc E counts (p_withRetry E call) pool w = (Inr x, pool', w')"
  shows "\<exists>n p h t w0 w1. providers pool n = Some p \<and> p_client p = ClientPtr h \<and> call h t w0 = (Inr x, w1)"
proof -
  obtain a pool1 w1 where g: "pool_GetProvider E pool w = (a, pool1, w1)" by (cases "pool_GetProvider E pool w")
  obtain n where n: "a = Some n" using assms g by (cases a) (auto simp: pool_rpc_def)
  obtain y pool2 w2 where o: "on_provider n (p_withRetry E call) pool1 w1 = (y, pool2, w2)"
    by (cases "on_provider n (p_withRetry E call) pool1 w1")
  with assms g n have "y = Inr x" by (auto simp: pool_rpc_def split: sum.splits prod.splits)
  with o obtain p1 p2 where p1: "providers pool1 n = Some p1" "p_withRetry E call p1 w1 = (Inr x, p2, w2)"
    by (auto simp: on_provider_def split: option.splits prod.splits)
  obtain p where p: "providers pool n = Some p" "p_static p1 = p_static p"
    using evolves_provider(1) [OF GetProvider_evolves [OF g] p1(1)] by blast
  from p_withRetry_value [OF p1(2)] obtain h t w0 w1 where
    "p_client p1 = ClientPtr h" "call h t w0 = (Inr x, w1)" by blast
  moreover have "p_client p1 = p_client p" using p by (simp add: p_static_def)
  ultimately show ?thesis using p(1) by metis
qed

lemma MaxLogBlockRange_pos:
  "pool_inv pool \<Longrightarrow> pool_MaxLogBlockRange E pool w = (r, pool', w') \<Longrightarrow> 1 \<le> r"
  using GetProvider_evolves
  by (fastforce simp: pool_MaxLogBlockRange_def pool_inv_def pool_evolves_def split: prod.splits option.splits if_splits)

section \<open>Closing\<close>

lemma close_all_evolves: "close_all E ns pool w = (r, pool', w') \<Longrightarrow> pool_evolves pool pool'"
proof (induction ns arbitrary: pool w)
  case (Cons n ns)
  show ?case
  proof (cases "providers pool n")
    case None
    with Cons show ?thesis by auto
  next
    case (Some p)
    obtain pan p' w1 where c: "p_Close E p w = (pan, p', w1)" by (cases "p_Close E p w")
    have "p_static p' = p_static p" "score_ok p \<Longrightarrow> score_ok p'"
      using c by (auto simp: p_Close_def p_static_def score_ok_def Let_def split: if_splits EthClient.splits prod.splits)
    then have "pool_evolves pool (set_provider n p' pool)" by (rule set_provider_evolves [OF Some])
    moreover have "pool' = set_provider n p' pool \<or> pool_evolves (set_provider n p' pool) pool'"
      using Cons Some c by (auto split: option.splits)
    ultimately show ?thesis by (auto intro: pool_evolves_trans)
  qed
qed simp

lemma pool_Close_evolves: "pool_Close E pool w = (r, pool', w') \<Longrightarrow> pool_evolves pool pool'"
proof -
  assume c: "pool_Close E pool w = (r, pool', w')"
  have "pool_evolves pool (pool\<lparr>pool_closed := True\<rparr>)" by (simp add: pool_evolves_def scores_ok_def)
  with c show ?thesis
    by (auto simp: pool_Close_def split: if_splits prod.splits dest!: close_all_evolves intro: pool_evolves_trans)
qed

end
