(* ===== verification/Parallel_Backfill.thy ===== *)
theory Parallel_Backfill
  imports Pool_Invariant
begin

text \<open>
  The parallel backfill of \<^verbatim>\<open>pool.go\<close>: \<open>ParallelLogPlan\<close> and \<open>LogsByBlockRangeParallel\<close>. The goroutines
  of a round are workers with a program counter over one shared state. A step of a worker is one
  channel operation, one call, or one update of a shared variable; \<open>round_step\<close> interleaves the
  steps of all workers with everything the environment may do meanwhile. \<open>run_round\<close> is one run
  under the scheduler of the runtime.
\<close>

section \<open>Planning\<close>

definition parallelJobAttemptLimit :: "Pool \<Rightarrow> int \<Rightarrow> int" where
  "parallelJobAttemptLimit pool available =
     (if 0 < pool_maxParallelJobAttempts pool then pool_maxParallelJobAttempts pool
      else i64 (available * 2))"

fun available_of :: "'w ext \<Rightarrow> string list \<Rightarrow> Pool \<Rightarrow> 'w \<Rightarrow> string list \<times> Pool \<times> 'w" where
  "available_of E [] pool w = ([], pool, w)"
| "available_of E (n # ns) pool w = (case providers pool n of
      None \<Rightarrow> available_of E ns pool w
    | Some p \<Rightarrow> (case p_IsAvailable E p w of (b, p', w') \<Rightarrow>
        (case available_of E ns (set_provider n p' pool) w' of (out, pool'', w'') \<Rightarrow>
           (if b then n # out else out, pool'', w''))))"

definition availableProvidersSnapshot :: "'w ext \<Rightarrow> Pool \<Rightarrow> 'w \<Rightarrow> string list \<times> Pool \<times> 'w" where
  "availableProvidersSnapshot E pool w = available_of E (orderedList pool) pool w"

definition limit_of :: "Pool \<Rightarrow> string \<Rightarrow> int" where
  "limit_of pool n = (case providers pool n of None \<Rightarrow> 0 | Some p \<Rightarrow> effectiveMaxLogBlockRange pool p)"

fun smallest_limit :: "int list \<Rightarrow> int \<Rightarrow> int" where
  "smallest_limit [] smallest = smallest"
| "smallest_limit (l # ls) smallest =
     (let limit = (if l \<le> 0 then 1 else l)
      in smallest_limit ls (if smallest = 0 \<or> limit < smallest then limit else smallest))"

definition ParallelLogPlan :: "'w ext \<Rightarrow> Pool \<Rightarrow> 'w \<Rightarrow> (int \<times> int) \<times> Pool \<times> 'w" where
  "ParallelLogPlan E pool w = (case availableProvidersSnapshot E pool w of (available, pool', w') \<Rightarrow>
     (if available = [] then (0, 0)
      else (int (length available), smallest_limit (map (limit_of pool') available) 0), pool', w'))"

text \<open>The sizing loop of \<open>LogsByBlockRangeParallel\<close>, from the initial \<open>chunkSize\<close> of 1.\<close>

fun parallel_chunk :: "int list \<Rightarrow> u64 \<Rightarrow> u64" where
  "parallel_chunk [] chunkSize = chunkSize"
| "parallel_chunk (l # ls) chunkSize =
     (let limit = to_u64 l
      in parallel_chunk ls (if 0 < limit \<and> (chunkSize = 1 \<or> limit < chunkSize) then limit else chunkSize))"

record parallelLogJob =
  job_index :: nat
  job_from :: u64
  job_to :: u64
  job_attempts :: int

definition split_body :: "u64 \<Rightarrow> u64 \<Rightarrow> u64 \<times> nat \<times> parallelLogJob list \<Rightarrow>
    parallelLogJob list + (u64 \<times> nat \<times> parallelLogJob list)" where
  "split_body chunkSize toBlock = (\<lambda>(start, i, jobs).
     if start \<le> toBlock
     then let e = start + chunkSize - 1;
              e = (if toBlock < e then toBlock else e)
          in Inr (e + 1, i + 1, jobs @ [\<lparr>job_index = i, job_from = start, job_to = e, job_attempts = 0\<rparr>])
     else Inl jobs)"

definition split_jobs :: "u64 \<Rightarrow> u64 \<Rightarrow> u64 \<Rightarrow> parallelLogJob list option" where
  "split_jobs chunkSize fromBlock toBlock = go_for (split_body chunkSize toBlock) (fromBlock, 0, [])"

section \<open>Workers\<close>

text \<open>
  \<open>Idle\<close> is the \<open>select\<close> at the head of the loop. \<open>Calling\<close> has received a job and is about to call
  the provider; \<open>Failed\<close> and \<open>Got\<close> hold the outcome of the call; \<open>Requeue\<close> is the \<open>select\<close> that
  sends the job back; \<open>Check\<close> is about to test the provider's availability; \<open>Stored\<close> has written
  the result and is about to decrement \<open>remaining\<close>. The channel is never closed, so \<open>ok\<close> holds for
  every receive.
\<close>

datatype worker =
    Idle
  | Calling parallelLogJob
  | Failed parallelLogJob goerr
  | Requeue parallelLogJob goerr
  | Check goerr
  | Got parallelLogJob "log list"
  | Stored
  | Exited

text \<open>
  The shared variables of a round. An entry of \<open>results\<close> is \<open>None\<close> while it is nil. \<open>rd_cancelled\<close>
  tells that \<open>cancel()\<close> has been called and \<open>rd_ctx\<close> is \<open>ctx.Err()\<close> of the caller's context;
  \<open>runCtx\<close> is done when either is. A worker is paired with the name of its provider.
\<close>

record 'w round =
  rd_pool :: Pool
  rd_world :: 'w
  rd_queue :: "parallelLogJob list"
  rd_results :: "log list option list"
  rd_remaining :: int
  rd_active :: int
  rd_firstErr :: "goerr option"
  rd_cancelled :: bool
  rd_ctx :: "goerr option"
  rd_workers :: "(string \<times> worker) list"

definition i32 :: "int \<Rightarrow> int" where
  "i32 x = (x + 2 ^ 31) mod 2 ^ 32 - 2 ^ 31"

definition run_done :: "'w round \<Rightarrow> bool" where
  "run_done s \<longleftrightarrow> rd_cancelled s \<or> rd_ctx s \<noteq> None"

definition set_worker :: "nat \<Rightarrow> worker \<Rightarrow> 'w round \<Rightarrow> 'w round" where
  "set_worker i pc s = s\<lparr>rd_workers := (rd_workers s)[i := (fst (rd_workers s ! i), pc)]\<rparr>"

definition fail_round :: "goerr \<Rightarrow> 'w round \<Rightarrow> 'w round" where
  "fail_round err s = s\<lparr>rd_firstErr := (case rd_firstErr s of None \<Rightarrow> Some err | Some e \<Rightarrow> Some e),
                        rd_cancelled := True\<rparr>"

definition chunk_error :: "parallelLogJob \<Rightarrow> string \<Rightarrow> goerr \<Rightarrow> goerr" where
  "chunk_error job what err = errorf_w (''idx: parallel backfill chunk '' @ fmt_u64 (job_from job) @
     ''..'' @ fmt_u64 (job_to job) @ what @ '': '') err"

definition worker_select :: "nat \<Rightarrow> bool \<Rightarrow> 'w round \<Rightarrow> 'w round option" where
  "worker_select i prefer_done s =
     (if run_done s \<and> (prefer_done \<or> rd_queue s = []) then Some (set_worker i Exited s)
      else case rd_queue s of
             [] \<Rightarrow> None
           | job # q \<Rightarrow> Some (set_worker i (Calling job) (s\<lparr>rd_queue := q\<rparr>)))"

definition worker_call :: "'w ext \<Rightarrow> nat \<Rightarrow> string \<Rightarrow> parallelLogJob \<Rightarrow> 'w round \<Rightarrow> 'w round" where
  "worker_call E i n job s =
     (case on_provider n (p_FilterLogs E (logFilterQuery (rd_pool s) (job_from job) (job_to job)))
             (rd_pool s) (rd_world s) of
        (r, pool', w') \<Rightarrow>
          set_worker i (case r of Inl err \<Rightarrow> Failed job err | Inr logs \<Rightarrow> Got job logs)
            (s\<lparr>rd_pool := pool', rd_world := w'\<rparr>))"

definition worker_failed :: "int \<Rightarrow> nat \<Rightarrow> string \<Rightarrow> parallelLogJob \<Rightarrow> goerr \<Rightarrow> 'w round \<Rightarrow> 'w round" where
  "worker_failed attemptLimit i n job err s =
     (let s1 = s\<lparr>rd_pool := pool_RecordFailure n err (rd_pool s)\<rparr> in
      if pool_IsRangeTooLargeError (rd_pool s1) (Some err)
      then set_worker i Exited (fail_round (chunk_error job '' rejected as too large'' err) s1)
      else let job' = job\<lparr>job_attempts := i64 (job_attempts job + 1)\<rparr> in
        if attemptLimit \<le> job_attempts job'
        then set_worker i Exited (fail_round
               (chunk_error job' ('' failed after '' @ fmt_d (job_attempts job') @ '' attempts'') err) s1)
        else set_worker i (Requeue job' err) s1)"

definition worker_requeue :: "nat \<Rightarrow> nat \<Rightarrow> bool \<Rightarrow> parallelLogJob \<Rightarrow> goerr \<Rightarrow> 'w round \<Rightarrow> 'w round option" where
  "worker_requeue capacity i prefer_done job err s =
     (if run_done s \<and> (prefer_done \<or> capacity \<le> length (rd_queue s)) then Some (set_worker i Exited s)
      else if length (rd_queue s) < capacity
           then Some (set_worker i (Check err) (s\<lparr>rd_queue := rd_queue s @ [job]\<rparr>))
           else None)"

definition worker_check :: "'w ext \<Rightarrow> nat \<Rightarrow> string \<Rightarrow> goerr \<Rightarrow> 'w round \<Rightarrow> 'w round" where
  "worker_check E i n err s =
     (case providers (rd_pool s) n of
        None \<Rightarrow> set_worker i Exited s
      | Some p \<Rightarrow>
          (case p_IsAvailable E p (rd_world s) of
             (b, p', w') \<Rightarrow>
               (let s1 = s\<lparr>rd_pool := set_provider n p' (rd_pool s), rd_world := w'\<rparr> in
                if b then set_worker i Idle s1
                else let s2 = s1\<lparr>rd_active := i32 (rd_active s1 - 1)\<rparr> in
                  set_worker i Exited
                    (if rd_active s2 = 0
                     then fail_round (errorf_w ''idx: parallel backfill exhausted every provider before finishing: '' err) s2
                     else s2))))"

definition worker_store :: "'w ext \<Rightarrow> nat \<Rightarrow> string \<Rightarrow> parallelLogJob \<Rightarrow> log list \<Rightarrow> 'w round \<Rightarrow> 'w round" where
  "worker_store E i n job logs s =
     (case pool_RecordSuccess E n (rd_pool s) (rd_world s) of
        (pool', w') \<Rightarrow>
          set_worker i Stored
            (s\<lparr>rd_pool := pool', rd_world := w', rd_results := (rd_results s)[job_index job := Some logs]\<rparr>))"

definition worker_count :: "nat \<Rightarrow> 'w round \<Rightarrow> 'w round" where
  "worker_count i s =
     (let s1 = s\<lparr>rd_remaining := i32 (rd_remaining s - 1)\<rparr> in
      if rd_remaining s1 = 0 then set_worker i Exited (s1\<lparr>rd_cancelled := True\<rparr>)
      else set_worker i Idle s1)"

text \<open>
  One step of worker \<open>i\<close>; \<open>None\<close> when it has exited or is blocked on a channel. When both cases of
  a \<open>select\<close> are ready, \<open>prefer_done\<close> decides.
\<close>

definition worker_step :: "'w ext \<Rightarrow> int \<Rightarrow> nat \<Rightarrow> nat \<Rightarrow> bool \<Rightarrow> 'w round \<Rightarrow> 'w round option" where
  "worker_step E attemptLimit capacity i prefer_done s =
     (if length (rd_workers s) \<le> i then None
      else case rd_workers s ! i of (n, pc) \<Rightarrow>
        (case pc of
           Idle \<Rightarrow> worker_select i prefer_done s
         | Calling job \<Rightarrow> Some (worker_call E i n job s)
         | Failed job err \<Rightarrow> Some (worker_failed attemptLimit i n job err s)
         | Requeue job err \<Rightarrow> worker_requeue capacity i prefer_done job err s
         | Check err \<Rightarrow> Some (worker_check E i n err s)
         | Got job logs \<Rightarrow> Some (worker_store E i n job logs s)
         | Stored \<Rightarrow> Some (worker_count i s)
         | Exited \<Rightarrow> None))"

section \<open>Interleavings\<close>

text \<open>
  The environment: the world may change at any moment (the network, the clock, the cancellation of
  a context as a provider sees it), the caller's context may be cancelled, and the pool's
  \<open>updateLoop\<close> may re-rank the providers.
\<close>

inductive env_step :: "'w round \<Rightarrow> 'w round \<Rightarrow> bool" where
  world: "env_step s (s\<lparr>rd_world := w\<rparr>)"
| ctx_done: "rd_ctx s = None \<Longrightarrow> env_step s (s\<lparr>rd_ctx := Some e\<rparr>)"
| rerank: "env_step s (s\<lparr>rd_pool := recalculateScores (rd_pool s)\<rparr>)"

inductive round_step :: "'w ext \<Rightarrow> int \<Rightarrow> nat \<Rightarrow> 'w round \<Rightarrow> 'w round \<Rightarrow> bool" for E attemptLimit capacity where
  work: "worker_step E attemptLimit capacity i prefer_done s = Some s' \<Longrightarrow>
         round_step E attemptLimit capacity s s'"
| env: "env_step s s' \<Longrightarrow> round_step E attemptLimit capacity s s'"

text \<open>\<open>round_runs E attemptLimit capacity k s s'\<close>: a run from \<open>s\<close> to \<open>s'\<close> with \<open>k\<close> steps of workers.\<close>

inductive round_runs :: "'w ext \<Rightarrow> int \<Rightarrow> nat \<Rightarrow> nat \<Rightarrow> 'w round \<Rightarrow> 'w round \<Rightarrow> bool"
  for E attemptLimit capacity where
  stop: "round_runs E attemptLimit capacity 0 s s"
| work: "round_runs E attemptLimit capacity k s s1 \<Longrightarrow>
         worker_step E attemptLimit capacity i prefer_done s1 = Some s2 \<Longrightarrow>
         round_runs E attemptLimit capacity (Suc k) s s2"
| env: "round_runs E attemptLimit capacity k s s1 \<Longrightarrow> env_step s1 s2 \<Longrightarrow>
         round_runs E attemptLimit capacity k s s2"

section \<open>A whole round\<close>

definition init_round :: "parallelLogJob list \<Rightarrow> string list \<Rightarrow> Pool \<Rightarrow> 'w \<Rightarrow> 'w round" where
  "init_round jobs available pool w =
     \<lparr>rd_pool = pool, rd_world = w, rd_queue = jobs, rd_results = replicate (length jobs) None,
      rd_remaining = i32 (int (length jobs)), rd_active = i32 (int (length available)),
      rd_firstErr = None, rd_cancelled = False, rd_ctx = None,
      rd_workers = map (\<lambda>n. (n, Idle)) available\<rparr>"

definition all_exited :: "'w round \<Rightarrow> bool" where
  "all_exited s \<longleftrightarrow> list_all (\<lambda>x. snd x = Exited) (rd_workers s)"

definition runnable :: "nat \<Rightarrow> 'w round \<Rightarrow> nat \<Rightarrow> bool" where
  "runnable capacity s i = (case snd (rd_workers s ! i) of
      Exited \<Rightarrow> False
    | Idle \<Rightarrow> run_done s \<or> rd_queue s \<noteq> []
    | Requeue _ _ \<Rightarrow> run_done s \<or> length (rd_queue s) < capacity
    | _ \<Rightarrow> True)"

text \<open>The caller's context stays done once it is done.\<close>

definition poll_ctx :: "'w ext \<Rightarrow> 'w round \<Rightarrow> 'w round" where
  "poll_ctx E s = (case rd_ctx s of None \<Rightarrow> s\<lparr>rd_ctx := rt_CtxErr (x_rt E) (rd_world s)\<rparr> | Some e \<Rightarrow> s)"

text \<open>A round in which no worker can run and not all have exited would wait for ever.\<close>

definition round_body :: "'w ext \<Rightarrow> int \<Rightarrow> nat \<Rightarrow> 'w round \<Rightarrow> 'w round + 'w round" where
  "round_body E attemptLimit capacity s =
     (let s1 = poll_ctx E s in
      if all_exited s1 then Inl s1
      else let ws = filter (runnable capacity s1) [0..<length (rd_workers s1)] in
        case rt_Sched (x_rt E) (length ws) (rd_world s1) of
          ((k, prefer_done), w') \<Rightarrow>
            (let s2 = s1\<lparr>rd_world := w'\<rparr> in
             if ws = [] then Inr s2
             else case worker_step E attemptLimit capacity (ws ! (k mod length ws)) prefer_done s2 of
                    None \<Rightarrow> Inr s2
                  | Some s3 \<Rightarrow> Inr s3))"

definition run_round :: "'w ext \<Rightarrow> int \<Rightarrow> nat \<Rightarrow> 'w round \<Rightarrow> 'w round option" where
  "run_round E attemptLimit capacity s = go_for (round_body E attemptLimit capacity) s"

definition round_result :: "u64 \<Rightarrow> u64 \<Rightarrow> 'w round \<Rightarrow> goerr + log list" where
  "round_result fromBlock toBlock s = (case rd_firstErr s of
      Some err \<Rightarrow> Inl err
    | None \<Rightarrow>
        if rd_remaining s \<noteq> 0
        then (case rd_ctx s of
                Some err \<Rightarrow> Inl err
              | None \<Rightarrow> Inl (ErrNew (''idx: parallel backfill of '' @ fmt_u64 fromBlock @ ''..'' @
                               fmt_u64 toBlock @ '' aborted before completion'')))
        else Inr (concat (map (\<lambda>r. case r of None \<Rightarrow> [] | Some logs \<Rightarrow> logs) (rd_results s))))"

definition LogsByBlockRangeParallel ::
  "'w ext \<Rightarrow> u64 \<Rightarrow> u64 \<Rightarrow> Pool \<Rightarrow> 'w \<Rightarrow> ((goerr + log list) \<times> Pool \<times> 'w) option" where
  "LogsByBlockRangeParallel E fromBlock toBlock pool w =
     (if toBlock < fromBlock then Some (Inr [], pool, w)
      else case availableProvidersSnapshot E pool w of (available, pool1, w1) \<Rightarrow>
        if available = [] then Some (Inl (Sentinel ErrNoAvailableProvider), pool1, w1)
        else let chunkSize = parallel_chunk (map (limit_of pool1) available) 1;
                 totalBlocks = toBlock - fromBlock + 1 in
          if length available < 2 \<or> totalBlocks \<le> chunkSize
          then Some (pool_LogsByBlockRange E fromBlock toBlock pool1 w1)
          else case split_jobs chunkSize fromBlock toBlock of
              None \<Rightarrow> None
            | Some jobs \<Rightarrow>
                (case run_round E (parallelJobAttemptLimit pool1 (int (length available))) (length jobs)
                        (init_round jobs available pool1 w1) of
                   None \<Rightarrow> None
                 | Some s \<Rightarrow> Some (round_result fromBlock toBlock s, rd_pool s, rd_world s)))"

end
