(* ===== verification/Parallel_Plan.thy ===== *)
theory Parallel_Plan
  imports Parallel_Backfill
begin

text \<open>
  The planning half of the parallel backfill: the snapshot of available providers, the chunk size,
  and the split of a block range into jobs.
\<close>

section \<open>The snapshot\<close>

lemma available_of_evolves:
  "available_of E ns pool w = (out, pool', w') \<Longrightarrow>
   pool_evolves pool pool' \<and> subseq out ns \<and> (\<forall>n \<in> set out. providers pool' n \<noteq> None)"
proof (induction ns arbitrary: pool w out)
  case Nil
  then show ?case by simp
next
  case (Cons n ns)
  show ?case
  proof (cases "providers pool n")
    case None
    with Cons show ?thesis by auto
  next
    case (Some p)
    obtain b p1 w1 where a: "p_IsAvailable E p w = (b, p1, w1)" by (cases "p_IsAvailable E p w")
    obtain out1 where r: "available_of E ns (set_provider n p1 pool) w1 = (out1, pool', w')"
      and out: "out = (if b then n # out1 else out1)"
      using Cons.prems Some a by (auto split: prod.splits)
    have e1: "pool_evolves pool (set_provider n p1 pool)"
      using Some p_IsAvailable_ok [OF a] by (intro set_provider_evolves) auto
    have IH: "pool_evolves (set_provider n p1 pool) pool'" "subseq out1 ns"
      "\<forall>m \<in> set out1. providers pool' m \<noteq> None" using Cons.IH [OF r] by auto
    have "providers pool' n \<noteq> None"
      using evolves_provider(2) [OF IH(1), of n p1] by (auto simp: set_provider_def)
    with IH out pool_evolves_trans [OF e1 IH(1)] show ?thesis by auto
  qed
qed

lemma snapshot_evolves:
  assumes "availableProvidersSnapshot E pool w = (out, pool', w')"
  shows "pool_evolves pool pool'" and "subseq out (orderedList pool)"
    and "n \<in> set out \<Longrightarrow> providers pool' n \<noteq> None"
  using available_of_evolves [OF assms [unfolded availableProvidersSnapshot_def]] by auto

section \<open>The plan\<close>

lemma smallest_limit_Min:
  assumes "\<forall>l \<in> set ls. 1 \<le> l" and "0 \<le> s"
  shows "smallest_limit ls s = (if ls = [] then s else if s = 0 then Min (set ls) else min s (Min (set ls)))"
  using assms
proof (induction ls arbitrary: s)
  case Nil
  then show ?case by simp
next
  case (Cons l ls)
  let ?s = "if s = 0 \<or> l < s then l else s"
  have IH: "smallest_limit ls ?s = (if ls = [] then ?s else min ?s (Min (set ls)))"
    using Cons.IH [of ?s] Cons.prems by auto
  have step: "smallest_limit (l # ls) s = smallest_limit ls ?s" using Cons.prems by simp
  show ?case
  proof (cases "ls = []")
    case True
    with IH step show ?thesis by auto
  next
    case False
    then have "Min (set (l # ls)) = min l (Min (set ls))" by simp
    with False IH step Cons.prems show ?thesis by auto
  qed
qed

text \<open>
  The sizing loop of the fan-out agrees with the plan as long as no available provider is limited
  to single blocks.
\<close>

lemma parallel_chunk_Min:
  assumes "\<forall>l \<in> set ls. 2 \<le> l \<and> l < 2 ^ 63" and "c = 1 \<or> (2 \<le> c \<and> c < 2 ^ 63)"
  shows "parallel_chunk ls (to_u64 c) =
         to_u64 (if ls = [] then c else if c = 1 then Min (set ls) else min c (Min (set ls)))"
  using assms
proof (induction ls arbitrary: c)
  case Nil
  then show ?case by simp
next
  case (Cons l ls)
  let ?c = "if c = 1 \<or> l < c then l else c"
  have l: "2 \<le> l" "l < 2 ^ 63" using Cons.prems by auto
  have lt: "to_u64 a < to_u64 b \<longleftrightarrow> a < b" if "0 \<le> a" "a < 2 ^ 63" "0 \<le> b" "b < 2 ^ 63" for a b
    using that by (auto simp: u64_less unat_to_u64)
  have eq: "to_u64 a = to_u64 b \<longleftrightarrow> a = b" if "0 \<le> a" "a < 2 ^ 63" "0 \<le> b" "b < 2 ^ 63" for a b
    using lt [OF that] lt [OF that(3,4,1,2)] by (metis less_irrefl linorder_neqE_linordered_idom)
  have one: "to_u64 1 = 1" "to_u64 0 = 0" by (simp_all add: to_u64_def)
  have "parallel_chunk (l # ls) (to_u64 c) = parallel_chunk ls (to_u64 ?c)"
    using l Cons.prems(2) lt [of 0 l] lt [of l c] eq [of c 1] one by (auto simp: Let_def)
  moreover have "?c \<noteq> 1" "2 \<le> ?c" "?c < 2 ^ 63" using l Cons.prems(2) by auto
  moreover from this have "parallel_chunk ls (to_u64 ?c) =
      to_u64 (if ls = [] then ?c else min ?c (Min (set ls)))"
    using Cons.IH [of ?c] Cons.prems(1) by auto
  moreover have "ls \<noteq> [] \<Longrightarrow> Min (set (l # ls)) = min l (Min (set ls))" by simp
  ultimately show ?case using Cons.prems(2) by (auto simp: min_def)
qed

section \<open>The jobs\<close>

definition job_blocks :: "parallelLogJob \<Rightarrow> u64 list" where
  "job_blocks j = blocks (job_from j) (job_to j)"

definition jobs_ok :: "u64 \<Rightarrow> parallelLogJob list \<Rightarrow> bool" where
  "jobs_ok chunkSize jobs \<longleftrightarrow> map job_index jobs = [0..<length jobs] \<and>
     (\<forall>j \<in> set jobs. job_attempts j = 0 \<and> job_from j \<le> job_to j \<and>
                     length (job_blocks j) \<le> unat chunkSize)"

text \<open>The end of the job that starts at \<open>start\<close>.\<close>

lemma job_end:
  fixes start chunkSize toBlock :: u64
  assumes chunk: "1 \<le> chunkSize" and bound: "unat toBlock + unat chunkSize < 2 ^ 64" and le: "start \<le> toBlock"
    and e: "e = (if toBlock < start + chunkSize - 1 then toBlock else start + chunkSize - 1)"
  shows "start \<le> e" and "e \<le> toBlock" and "unat (e + 1) = Suc (unat e)" and "length (blocks start e) \<le> unat chunkSize"
    and "blocks start e @ blocks (e + 1) toBlock = blocks start toBlock"
proof -
  have c: "1 \<le> unat chunkSize" and st: "unat start \<le> unat toBlock" using chunk le by (simp_all add: u64_le)
  have sum: "unat (start + chunkSize) = unat start + unat chunkSize"
    using bound st by (intro unat_u64_add) linarith
  then have "1 \<le> start + chunkSize" using c by (simp add: u64_le)
  then have "unat (start + chunkSize - 1) = unat start + unat chunkSize - 1"
    using sum by (simp add: unat_u64_sub)
  then have u: "unat e = min (unat toBlock) (unat start + unat chunkSize - 1)" by (auto simp: e u64_less min_def)
  then show e1: "unat (e + 1) = Suc (unat e)" using bound c by (intro trans [OF unat_u64_add]) auto
  show ge: "start \<le> e" and le': "e \<le> toBlock" using u st c by (auto simp: u64_le)
  show "blocks start e @ blocks (e + 1) toBlock = blocks start toBlock"
  proof (cases "e = toBlock")
    case True
    then have "blocks (e + 1) toBlock = []" using e1 by (intro blocks_empty) (simp add: u64_less)
    with True show ?thesis by simp
  next
    case False
    with ge le' show ?thesis by (intro blocks_append) auto
  qed
  have "unat e \<le> unat start + unat chunkSize - 1" using u by simp
  then show "length (blocks start e) \<le> unat chunkSize" using c by (simp add: length_blocks)
qed

lemma split_jobs_ok:
  assumes chunk: "1 \<le> chunkSize" and bound: "unat toBlock + unat chunkSize < 2 ^ 64" and le: "fromBlock \<le> toBlock"
  shows "\<exists>jobs. split_jobs chunkSize fromBlock toBlock = Some jobs \<and> jobs_ok chunkSize jobs \<and>
           concat (map job_blocks jobs) = blocks fromBlock toBlock \<and> jobs \<noteq> [] \<and>
           length jobs \<le> Suc (unat toBlock) - unat fromBlock"
proof -
  let ?I = "\<lambda>(start, i, jobs). i = length jobs \<and> jobs_ok chunkSize jobs \<and>
     unat fromBlock \<le> unat start \<and> unat start \<le> Suc (unat toBlock) \<and>
     concat (map job_blocks jobs) @ blocks start toBlock = blocks fromBlock toBlock \<and>
     i + (Suc (unat toBlock) - unat start) \<le> Suc (unat toBlock) - unat fromBlock"
  let ?Q = "\<lambda>jobs. jobs_ok chunkSize jobs \<and> concat (map job_blocks jobs) = blocks fromBlock toBlock \<and>
     length jobs \<le> Suc (unat toBlock) - unat fromBlock"
  have "\<exists>jobs. go_for (split_body chunkSize toBlock) (fromBlock, 0, []) = Some jobs \<and> ?Q jobs"
  proof (rule go_for_total [where R = "measure (\<lambda>(start, _). Suc (unat toBlock) - unat start)" and I = ?I])
    show "?I (fromBlock, 0, [])" using le by (simp add: jobs_ok_def u64_le)
  next
    fix a r
    assume I: "?I a" and out: "split_body chunkSize toBlock a = Inl r"
    obtain start i jobs where a: "a = (start, i, jobs)" by (cases a)
    have r: "\<not> start \<le> toBlock" "r = jobs" using out a by (auto simp: split_body_def Let_def split: if_splits)
    then have "blocks start toBlock = []" by (simp add: blocks_empty)
    with I a r show "?Q r" by simp
  next
    fix a a'
    assume I: "?I a" and step: "split_body chunkSize toBlock a = Inr a'"
    obtain start i jobs where a: "a = (start, i, jobs)" by (cases a)
    define e where "e = (if toBlock < start + chunkSize - 1 then toBlock else start + chunkSize - 1)"
    let ?job = "\<lparr>job_index = i, job_from = start, job_to = e, job_attempts = 0\<rparr>"
    have a': "start \<le> toBlock" "a' = (e + 1, i + 1, jobs @ [?job])"
      using step a by (auto simp: split_body_def Let_def e_def split: if_splits)
    note je = job_end [OF chunk bound a'(1) e_def]
    then have u: "unat start \<le> unat e" "unat e \<le> unat toBlock" by (simp_all add: u64_le)
    have "?I a'" using I a a' je u by (simp add: jobs_ok_def job_blocks_def) linarith
    moreover have "(a', a) \<in> measure (\<lambda>(start, _). Suc (unat toBlock) - unat start)"
      using je(3) u unfolding a a'(2) by simp
    ultimately show "?I a' \<and> (a', a) \<in> measure (\<lambda>(start, _). Suc (unat toBlock) - unat start)"
      by (rule conjI)
  qed simp
  then obtain jobs where jobs: "split_jobs chunkSize fromBlock toBlock = Some jobs" "?Q jobs"
    unfolding split_jobs_def by blast
  moreover from this have "jobs \<noteq> []" using le by (auto dest: arg_cong [where f = set])
  ultimately show ?thesis by blast
qed

end
