(* ===== verification/Parallel_Round.thy ===== *)
theory Parallel_Round
  imports Parallel_Plan
begin

text \<open>
  Correctness of a round of the parallel backfill under every interleaving of its workers and
  every behaviour of the environment: no job is lost or served twice, a successful round returns
  the answers of all jobs in order, no interleaving deadlocks, and the number of steps is bounded.
\<close>

section \<open>Job accounting\<close>

fun held :: "worker \<Rightarrow> parallelLogJob multiset" where
  "held (Calling j) = {#j#}"
| "held (Failed j _) = {#j#}"
| "held (Requeue j _) = {#j#}"
| "held (Got j _) = {#j#}"
| "held _ = {#}"

definition wsum :: "(worker \<Rightarrow> 'a :: comm_monoid_add) \<Rightarrow> 'w round \<Rightarrow> 'a" where
  "wsum f s = sum_list (map (\<lambda>x. f (snd x)) (rd_workers s))"

definition pending :: "'w round \<Rightarrow> parallelLogJob multiset" where
  "pending s = mset (rd_queue s) + wsum held s"

definition live :: "worker \<Rightarrow> nat" where
  "live pc = (if pc = Exited then 0 else 1)"

definition storing :: "worker \<Rightarrow> nat" where
  "storing pc = (if pc = Stored then 1 else 0)"

lemma live_simps [simp]:
  "live Idle = 1" "live (Calling j) = 1" "live (Failed j e) = 1" "live (Requeue j e) = 1"
  "live (Check e) = 1" "live (Got j logs) = 1" "live Stored = 1" "live Exited = 0"
  by (simp_all add: live_def)

lemma storing_simps [simp]:
  "storing Idle = 0" "storing (Calling j) = 0" "storing (Failed j e) = 0" "storing (Requeue j e) = 0"
  "storing (Check e) = 0" "storing (Got j logs) = 0" "storing Stored = 1" "storing Exited = 0"
  by (simp_all add: storing_def)

definition undone :: "log list option list \<Rightarrow> nat" where
  "undone R = sum_list (map (\<lambda>r. if r = None then 1 else 0) R)"

definition job_ok :: "int \<Rightarrow> parallelLogJob list \<Rightarrow> parallelLogJob \<Rightarrow> bool" where
  "job_ok limit jobs j \<longleftrightarrow> job_index j < length jobs \<and> job_from j = job_from (jobs ! job_index j) \<and>
     job_to j = job_to (jobs ! job_index j) \<and> 0 \<le> job_attempts j \<and> job_attempts j < limit"

text \<open>
  Every job is pending at most once and never after its result has been stored; when \<open>strict\<close>, it
  is exactly one of the two.
\<close>

definition slot :: "parallelLogJob multiset \<Rightarrow> log list option list \<Rightarrow> nat \<Rightarrow> nat" where
  "slot P R i = count (image_mset job_index P) i + (if R ! i = None then 0 else 1)"

definition acct :: "int \<Rightarrow> parallelLogJob list \<Rightarrow> bool \<Rightarrow> parallelLogJob multiset \<Rightarrow> log list option list \<Rightarrow> bool" where
  "acct limit jobs strict P R \<longleftrightarrow> length R = length jobs \<and> (\<forall>j \<in># P. job_ok limit jobs j) \<and>
     (\<forall>i < length jobs. slot P R i \<le> 1 \<and> (strict \<longrightarrow> slot P R i = 1))"

lemma acct_weaken: "acct limit jobs strict P R \<Longrightarrow> (strict' \<Longrightarrow> strict) \<Longrightarrow> acct limit jobs strict' P R"
  by (auto simp: acct_def)

lemma acct_drop:
  assumes "acct limit jobs strict (add_mset j P) R"
  shows "acct limit jobs False P R"
  unfolding acct_def
proof (intro conjI ballI allI impI)
  fix i assume "i < length jobs"
  with assms have "slot (add_mset j P) R i \<le> 1" by (simp add: acct_def)
  then show "slot P R i \<le> 1" by (simp add: slot_def split: if_splits)
qed (use assms in \<open>auto simp: acct_def\<close>)

lemma acct_swap:
  assumes "acct limit jobs strict (add_mset j P) R" and "job_ok limit jobs j'" and "job_index j' = job_index j"
  shows "acct limit jobs strict (add_mset j' P) R"
proof -
  have "slot (add_mset j' P) R i = slot (add_mset j P) R i" for i
    using assms(3) by (simp add: slot_def)
  with assms(1,2) show ?thesis by (auto simp: acct_def)
qed

lemma acct_store:
  assumes a: "acct limit jobs strict (add_mset j P) R"
  shows "acct limit jobs strict P (R[job_index j := Some logs])" and "R ! job_index j = None"
    and "job_index j < length R"
proof -
  have j: "job_index j < length jobs" "length R = length jobs" using a by (auto simp: acct_def job_ok_def)
  then have "slot (add_mset j P) R (job_index j) \<le> 1" using a by (simp add: acct_def)
  then show n: "R ! job_index j = None" by (simp add: slot_def split: if_splits)
  have "slot P (R[job_index j := Some logs]) i = slot (add_mset j P) R i" if "i < length jobs" for i
    using that n j by (cases "i = job_index j") (simp_all add: slot_def)
  with a show "acct limit jobs strict P (R[job_index j := Some logs])" by (auto simp: acct_def)
  show "job_index j < length R" using j by simp
qed

lemma undone_store: "i < length R \<Longrightarrow> R ! i = None \<Longrightarrow> Suc (undone (R[i := Some logs])) = undone R"
  using sum_list_map_update [of i R "\<lambda>r. if r = None then 1 else 0 :: nat" "Some logs"]
  by (simp add: undone_def)

lemma undone_sum: "undone R = (\<Sum>i < length R. if R ! i = None then 1 else 0)"
  unfolding undone_def sum_list_sum_nth by (simp add: atLeast0LessThan)

lemma acct_size:
  assumes a: "acct limit jobs strict P R"
  shows "size P \<le> undone R" and "strict \<Longrightarrow> size P = undone R"
proof -
  let ?I = "image_mset job_index P"
  have sub: "set_mset ?I \<subseteq> {..<length R}" using a by (auto simp: acct_def job_ok_def)
  have "size P = size ?I" by simp
  also have "\<dots> = sum (count ?I) {..<length R}"
    unfolding size_multiset_overloaded_eq using sub
    by (intro sum.mono_neutral_left) (auto simp: count_eq_zero_iff)
  finally have P: "size P = sum (count ?I) {..<length R}" .
  have "count ?I i \<le> (if R ! i = None then 1 else 0)" if "i < length R" for i
  proof -
    have "slot P R i \<le> 1" using a that by (simp add: acct_def)
    then show ?thesis by (simp add: slot_def split: if_splits)
  qed
  then show "size P \<le> undone R" unfolding P undone_sum by (intro sum_mono) auto
  show "size P = undone R" if strict
  proof -
    have "count ?I i = (if R ! i = None then 1 else 0)" if "i < length R" for i
    proof -
      have "slot P R i = 1" using a \<open>strict\<close> that by (auto simp: acct_def)
      then show ?thesis by (auto simp: slot_def split: if_splits)
    qed
    then show ?thesis unfolding P undone_sum by (intro sum.cong) auto
  qed
qed

section \<open>Effect of moving one worker\<close>

lemma set_worker_fields [simp]:
  "rd_pool (set_worker i pc s) = rd_pool s" "rd_world (set_worker i pc s) = rd_world s"
  "rd_queue (set_worker i pc s) = rd_queue s" "rd_results (set_worker i pc s) = rd_results s"
  "rd_remaining (set_worker i pc s) = rd_remaining s" "rd_active (set_worker i pc s) = rd_active s"
  "rd_firstErr (set_worker i pc s) = rd_firstErr s" "rd_cancelled (set_worker i pc s) = rd_cancelled s"
  "rd_ctx (set_worker i pc s) = rd_ctx s" "run_done (set_worker i pc s) = run_done s"
  "length (rd_workers (set_worker i pc s)) = length (rd_workers s)"
  by (simp_all add: set_worker_def run_done_def)

lemma wsum_cong: "rd_workers s = rd_workers t \<Longrightarrow> wsum f s = wsum f t"
  by (simp add: wsum_def)

lemma wsum_fields [simp]:
  "wsum f (s\<lparr>rd_pool := a\<rparr>) = wsum f s" "wsum f (s\<lparr>rd_world := b\<rparr>) = wsum f s"
  "wsum f (s\<lparr>rd_queue := q\<rparr>) = wsum f s" "wsum f (s\<lparr>rd_results := r\<rparr>) = wsum f s"
  "wsum f (s\<lparr>rd_remaining := c\<rparr>) = wsum f s" "wsum f (s\<lparr>rd_active := c\<rparr>) = wsum f s"
  "wsum f (s\<lparr>rd_firstErr := e\<rparr>) = wsum f s" "wsum f (s\<lparr>rd_cancelled := d\<rparr>) = wsum f s"
  "wsum f (s\<lparr>rd_ctx := e\<rparr>) = wsum f s"
  by (simp_all add: wsum_def)

lemma wsum_set_worker:
  "i < length (rd_workers s) \<Longrightarrow> rd_workers s ! i = (n, pc0) \<Longrightarrow>
   wsum f (set_worker i pc s) + f pc0 = wsum f s + f pc"
  using sum_list_map_update [of i "rd_workers s" "\<lambda>x. f (snd x)" "(fst (rd_workers s ! i), pc)"]
  by (simp add: wsum_def set_worker_def)

lemma wsum_cancel:
  fixes f :: "worker \<Rightarrow> 'a :: cancel_comm_monoid_add"
  assumes "i < length (rd_workers s)" and "rd_workers s ! i = (n, pc0)" and "wsum f s = m + f pc0"
  shows "wsum f (set_worker i pc s) = m + f pc"
proof -
  have "wsum f (set_worker i pc s) + f pc0 = m + f pc + f pc0"
    using wsum_set_worker [OF assms(1,2), of f pc] assms(3) by (simp add: ac_simps)
  then show ?thesis by simp
qed

lemma wsum_split:
  assumes "i < length (rd_workers s)" and "rd_workers s ! i = (n, pc0)"
  shows "\<exists>m. wsum f s = m + f pc0"
proof -
  let ?g = "\<lambda>x. f (snd x)"
  have "rd_workers s = take i (rd_workers s) @ (n, pc0) # drop (Suc i) (rd_workers s)"
    using id_take_nth_drop [OF assms(1)] assms(2) by simp
  then have "wsum f s = sum_list (map ?g (take i (rd_workers s) @ (n, pc0) # drop (Suc i) (rd_workers s)))"
    unfolding wsum_def by simp
  also have "\<dots> = (sum_list (map ?g (take i (rd_workers s))) + sum_list (map ?g (drop (Suc i) (rd_workers s)))) + f pc0"
    by (simp add: ac_simps)
  finally show ?thesis by blast
qed

section \<open>The invariant of a round\<close>

text \<open>\<open>served E q logs\<close>: some client of some provider answered the query \<open>q\<close> with \<open>logs\<close>.\<close>

definition served :: "'w ext \<Rightarrow> FilterQuery \<Rightarrow> log list \<Rightarrow> bool" where
  "served E q logs \<longleftrightarrow> (\<exists>h t w w'. eth_FilterLogs (x_eth E) h t q w = (Inr logs, w'))"

definition job_query :: "Pool \<Rightarrow> parallelLogJob \<Rightarrow> FilterQuery" where
  "job_query pool j = logFilterQuery pool (job_from j) (job_to j)"

fun got_ok :: "'w ext \<Rightarrow> Pool \<Rightarrow> worker \<Rightarrow> bool" where
  "got_ok E pool (Got j logs) = served E (job_query pool j) logs"
| "got_ok E pool _ = True"

definition inv_acct :: "int \<Rightarrow> parallelLogJob list \<Rightarrow> 'w round \<Rightarrow> bool" where
  "inv_acct limit jobs s \<longleftrightarrow> acct limit jobs (\<not> run_done s) (pending s) (rd_results s)"

definition inv_ctl :: "'w round \<Rightarrow> bool" where
  "inv_ctl s \<longleftrightarrow>
     rd_remaining s \<le> int (length (rd_results s)) \<and>
     rd_remaining s = int (undone (rd_results s) + wsum storing s) \<and>
     (rd_remaining s = 0 \<longrightarrow> rd_cancelled s) \<and>
     (rd_cancelled s \<longrightarrow> rd_firstErr s \<noteq> None \<or> rd_remaining s = 0) \<and>
     (rd_firstErr s \<noteq> None \<longrightarrow> rd_cancelled s) \<and>
     (\<not> run_done s \<longrightarrow> rd_active s = int (wsum live s) \<and> 0 < wsum live s) \<and>
     length (rd_results s) < 2 ^ 31 \<and> length (rd_workers s) < 2 ^ 31"

definition inv_data :: "'w ext \<Rightarrow> parallelLogJob list \<Rightarrow> Pool \<Rightarrow> 'w round \<Rightarrow> bool" where
  "inv_data E jobs pool0 s \<longleftrightarrow>
     (\<forall>i logs. i < length jobs \<longrightarrow> rd_results s ! i = Some logs \<longrightarrow> served E (job_query pool0 (jobs ! i)) logs) \<and>
     (\<forall>x \<in> set (rd_workers s). got_ok E pool0 (snd x) \<and> providers (rd_pool s) (fst x) \<noteq> None) \<and>
     pool_like pool0 (rd_pool s) \<and> pool_inv (rd_pool s)"

definition round_inv :: "'w ext \<Rightarrow> int \<Rightarrow> parallelLogJob list \<Rightarrow> Pool \<Rightarrow> 'w round \<Rightarrow> bool" where
  "round_inv E limit jobs pool0 s \<longleftrightarrow> inv_acct limit jobs s \<and> inv_ctl s \<and> inv_data E jobs pool0 s"

lemma round_invI:
  "inv_acct limit jobs s \<Longrightarrow> inv_ctl s \<Longrightarrow> inv_data E jobs pool0 s \<Longrightarrow> round_inv E limit jobs pool0 s"
  by (simp add: round_inv_def)

lemma run_done_fields [simp]:
  "run_done (s\<lparr>rd_pool := a\<rparr>) = run_done s" "run_done (s\<lparr>rd_world := b\<rparr>) = run_done s"
  "run_done (s\<lparr>rd_queue := q\<rparr>) = run_done s" "run_done (s\<lparr>rd_results := r\<rparr>) = run_done s"
  "run_done (s\<lparr>rd_remaining := c\<rparr>) = run_done s" "run_done (s\<lparr>rd_active := c\<rparr>) = run_done s"
  "run_done (s\<lparr>rd_cancelled := True\<rparr>)"
  by (simp_all add: run_done_def)

lemma i32_id: "0 \<le> x \<Longrightarrow> x < 2 ^ 31 \<Longrightarrow> i32 x = x"
  by (simp add: i32_def)

lemma undone_le: "undone R \<le> length R"
  by (induction R) (auto simp: undone_def)

lemma wsum_live_le: "wsum live s \<le> length (rd_workers s)"
proof -
  have "sum_list (map (\<lambda>x. live (snd x)) ws) \<le> length ws" for ws :: "(string \<times> worker) list"
    by (induction ws) (auto simp: live_def)
  then show ?thesis by (simp add: wsum_def)
qed

lemma wsum_storing_le: "wsum storing s \<le> length (rd_workers s)"
proof -
  have "sum_list (map (\<lambda>x. storing (snd x)) ws) \<le> length ws" for ws :: "(string \<times> worker) list"
    by (induction ws) (auto simp: storing_def)
  then show ?thesis by (simp add: wsum_def)
qed

text \<open>The data part only depends on the results, the workers' outcomes and the pool.\<close>

lemma inv_data_step:
  assumes "inv_data E jobs pool0 s"
    and "rd_workers s' = (rd_workers s)[i := (fst (rd_workers s ! i), pc)]" and "got_ok E pool0 pc"
    and "rd_results s' = rd_results s \<or> (\<exists>j logs. rd_results s' = (rd_results s)[job_index j := Some logs] \<and>
           job_ok limit jobs j \<and> job_index j < length (rd_results s) \<and> served E (job_query pool0 j) logs)"
    and "pool_evolves (rd_pool s) (rd_pool s')"
  shows "inv_data E jobs pool0 s'"
proof -
  note e = assms(5)
  have "providers (rd_pool s') n \<noteq> None" if "providers (rd_pool s) n \<noteq> None" for n
    using that evolves_dom [OF e] by (auto simp: dom_def)
  moreover have "providers (rd_pool s) (fst x) \<noteq> None \<and> got_ok E pool0 (snd x)" if "x \<in> set (rd_workers s')" for x
  proof -
    have "x \<in> set (rd_workers s) \<or> (i < length (rd_workers s) \<and> x = (fst (rd_workers s ! i), pc))"
      using that unfolding assms(2)
      by (metis insertE list_update_beyond not_le set_update_subset_insert subsetD)
    then show ?thesis
    proof
      assume "x \<in> set (rd_workers s)"
      with assms(1) show ?thesis unfolding inv_data_def by blast
    next
      assume x: "i < length (rd_workers s) \<and> x = (fst (rd_workers s ! i), pc)"
      then have "rd_workers s ! i \<in> set (rd_workers s)" by simp
      with x assms(1,3) show ?thesis by (simp add: inv_data_def)
    qed
  qed
  moreover have "served E (job_query pool0 (jobs ! k)) logs" if "k < length jobs" "rd_results s' ! k = Some logs" for k logs
    using assms(4)
  proof
    assume "rd_results s' = rd_results s"
    with that assms(1) show ?thesis by (simp add: inv_data_def)
  next
    assume "\<exists>j logs. rd_results s' = (rd_results s)[job_index j := Some logs] \<and> job_ok limit jobs j \<and>
      job_index j < length (rd_results s) \<and> served E (job_query pool0 j) logs"
    then obtain j l where j: "rd_results s' = (rd_results s)[job_index j := Some l]" "job_ok limit jobs j"
      "job_index j < length (rd_results s)" "served E (job_query pool0 j) l" by blast
    show ?thesis
    proof (cases "k = job_index j")
      case True
      with j that show ?thesis by (simp add: job_ok_def job_query_def)
    next
      case False
      with j that assms(1) show ?thesis by (simp add: inv_data_def)
    qed
  qed
  moreover have "pool_inv (rd_pool s')" using assms(1) by (intro pool_inv_evolves [OF _ e]) (simp add: inv_data_def)
  moreover have "pool_like pool0 (rd_pool s')"
    using assms(1) evolves_like [OF e] pool_like_trans by (auto simp: inv_data_def)
  ultimately show ?thesis unfolding inv_data_def by blast
qed

section \<open>Every step keeps the invariant\<close>

text \<open>The worker that moves: the sums over all workers before and after.\<close>

lemma wsum_move:
  assumes "i < length (rd_workers s)" and "rd_workers s ! i = (n, pc0)" and "rd_workers t = rd_workers s"
  shows "wsum f (set_worker i pc t) + f pc0 = wsum f s + f pc"
  using wsum_set_worker [of i t n pc0 f pc] wsum_cong [OF assms(3), of f] assms by simp

lemma pending_move:
  assumes "i < length (rd_workers s)" and "rd_workers s ! i = (n, pc0)" and "rd_workers t = rd_workers s"
  shows "pending (set_worker i pc t) + held pc0 + mset (rd_queue s) = pending s + held pc + mset (rd_queue t)"
  using wsum_move [OF assms, of held pc] by (simp add: pending_def ac_simps)

lemma pending_held:
  assumes "i < length (rd_workers s)" and "rd_workers s ! i = (n, pc0)"
  shows "\<exists>P. pending s = P + held pc0"
  using wsum_split [OF assms, of held] by (metis pending_def add.assoc)

lemma set_worker_workers:
  "rd_workers t = rd_workers s \<Longrightarrow> rd_workers (set_worker i pc t) = (rd_workers s)[i := (fst (rd_workers s ! i), pc)]"
  by (simp add: set_worker_def)

text \<open>A worker that moves without touching the counters.\<close>

lemma inv_ctl_move:
  assumes "inv_ctl s" and "i < length (rd_workers s)" and "rd_workers s ! i = (n, pc0)"
    and "rd_workers t = rd_workers s" and "rd_results t = rd_results s" and "rd_remaining t = rd_remaining s"
    and "rd_active t = rd_active s" and "rd_firstErr t = rd_firstErr s" and "rd_cancelled t = rd_cancelled s"
    and "rd_ctx t = rd_ctx s" and "storing pc = storing pc0" and "\<not> run_done s \<Longrightarrow> live pc = live pc0"
  shows "inv_ctl (set_worker i pc t)"
proof -
  have st: "wsum storing (set_worker i pc t) = wsum storing s"
    using wsum_move [OF assms(2,3,4), of storing pc] assms(11) by simp
  have l: "wsum live (set_worker i pc t) = wsum live s" if "\<not> run_done s"
    using wsum_move [OF assms(2,3,4), of live pc] assms(12) [OF that] by simp
  have d: "run_done t = run_done s" using assms by (simp add: run_done_def)
  show ?thesis using assms(1) unfolding inv_ctl_def set_worker_fields st d assms(4-9)
    by (cases "run_done s") (auto simp: l)
qed

lemma inv_data_move:
  assumes "inv_data E jobs pool0 s" and "rd_workers t = rd_workers s" and "got_ok E pool0 pc"
    and "rd_results t = rd_results s" and "pool_evolves (rd_pool s) (rd_pool t)"
  shows "inv_data E jobs pool0 (set_worker i pc t)"
  by (rule inv_data_step [OF assms(1) set_worker_workers [OF assms(2)] assms(3)]) (simp_all add: assms(4,5))

lemma select_inv:
  assumes inv: "round_inv E limit jobs pool0 s" and i: "i < length (rd_workers s)" "rd_workers s ! i = (n, Idle)"
    and step: "worker_select i b s = Some s'"
  shows "round_inv E limit jobs pool0 s'"
proof -
  have parts: "inv_acct limit jobs s" "inv_ctl s" "inv_data E jobs pool0 s" using inv by (simp_all add: round_inv_def)
  consider (exit) "run_done s" "s' = set_worker i Exited s"
    | (recv) job q where "rd_queue s = job # q" "s' = set_worker i (Calling job) (s\<lparr>rd_queue := q\<rparr>)"
    using step by (auto simp: worker_select_def split: if_splits list.splits)
  then show ?thesis
  proof cases
    case exit
    have "pending s' = pending s" using pending_move [OF i, of s Exited] exit by simp
    then have "inv_acct limit jobs s'" using parts exit by (simp add: inv_acct_def)
    moreover have "inv_ctl s'" unfolding exit(2)
      by (rule inv_ctl_move [OF parts(2) i]) (simp_all add: exit)
    moreover have "inv_data E jobs pool0 s'" unfolding exit(2) by (rule inv_data_move [OF parts(3)]) simp_all
    ultimately show ?thesis by (rule round_invI)
  next
    case recv
    have "pending s' = pending s" using pending_move [OF i, of "s\<lparr>rd_queue := q\<rparr>" "Calling job"] recv by simp
    then have "inv_acct limit jobs s'" using parts recv by (simp add: inv_acct_def)
    moreover have "inv_ctl s'" unfolding recv(2)
      by (rule inv_ctl_move [OF parts(2) i]) simp_all
    moreover have "inv_data E jobs pool0 s'" unfolding recv(2) by (rule inv_data_move [OF parts(3)]) simp_all
    ultimately show ?thesis by (rule round_invI)
  qed
qed

lemma call_inv:
  assumes inv: "round_inv E limit jobs pool0 s" and i: "i < length (rd_workers s)" "rd_workers s ! i = (n, Calling job)"
  shows "round_inv E limit jobs pool0 (worker_call E i n job s)"
proof -
  have parts: "inv_acct limit jobs s" "inv_ctl s" "inv_data E jobs pool0 s" using inv by (simp_all add: round_inv_def)
  let ?q = "logFilterQuery (rd_pool s) (job_from job) (job_to job)"
  obtain r pool' w' where o: "on_provider n (p_FilterLogs E ?q) (rd_pool s) (rd_world s) = (r, pool', w')"
    by (cases "on_provider n (p_FilterLogs E ?q) (rd_pool s) (rd_world s)")
  define pc where "pc = (case r of Inl err \<Rightarrow> Failed job err | Inr logs \<Rightarrow> Got job logs)"
  let ?t = "s\<lparr>rd_pool := pool', rd_world := w'\<rparr>"
  have s': "worker_call E i n job s = set_worker i pc ?t" using o by (simp add: worker_call_def pc_def)
  have pc: "held pc = {#job#}" "storing pc = 0" "live pc = 1"
    by (auto simp: pc_def storing_def live_def split: sum.splits)
  have q: "?q = job_query pool0 job"
    using parts(3) by (simp add: inv_data_def pool_like_def job_query_def logFilterQuery_def)
  have got: "got_ok E pool0 pc"
  proof (cases r)
    case (Inr logs)
    then obtain p p' where "p_withRetry E (\<lambda>h t. eth_FilterLogs (x_eth E) h t ?q) p (rd_world s) = (Inr logs, p', w')"
      using o by (auto simp: on_provider_def p_FilterLogs_def split: option.splits prod.splits)
    from p_withRetry_value [OF this] have "served E ?q logs" unfolding served_def by blast
    with Inr q show ?thesis by (simp add: pc_def)
  qed (simp add: pc_def)
  have "pending (set_worker i pc ?t) = pending s" using pending_move [OF i, of ?t pc] pc by simp
  then have "inv_acct limit jobs (set_worker i pc ?t)" using parts by (simp add: inv_acct_def)
  moreover have "inv_ctl (set_worker i pc ?t)"
    by (rule inv_ctl_move [OF parts(2) i]) (simp_all add: pc)
  moreover have "inv_data E jobs pool0 (set_worker i pc ?t)"
    by (rule inv_data_move [OF parts(3)]) (simp_all add: got on_provider_evolves [OF quota_only_rpcs(5) o])
  ultimately show ?thesis unfolding s' by (rule round_invI)
qed

text \<open>A worker that gives up the round: it records the first error, cancels and exits.\<close>

lemma inv_ctl_fail:
  assumes "inv_ctl s" and "i < length (rd_workers s)" and "rd_workers s ! i = (n, pc0)" and "storing pc0 = 0"
    and "rd_workers t = rd_workers s" and "rd_results t = rd_results s" and "rd_remaining t = rd_remaining s"
  shows "inv_ctl (set_worker i Exited (fail_round err t))"
proof -
  have "wsum storing (set_worker i Exited (fail_round err t)) = wsum storing s"
    using wsum_move [OF assms(2,3), of "fail_round err t" storing Exited] assms(4,5)
    by (simp add: fail_round_def storing_def)
  then show ?thesis
    using assms by (simp add: inv_ctl_def fail_round_def run_done_def split: option.splits)
qed

lemma inv_fail:
  assumes "round_inv E limit jobs pool0 s" and i: "i < length (rd_workers s)" "rd_workers s ! i = (n, pc0)"
    and pc0: "storing pc0 = 0" "held pc0 = {#} \<or> (\<exists>job. held pc0 = {#job#})"
    and t: "rd_workers t = rd_workers s" "rd_results t = rd_results s" "rd_remaining t = rd_remaining s"
      "rd_queue t = rd_queue s" "pool_evolves (rd_pool s) (rd_pool t)"
  shows "round_inv E limit jobs pool0 (set_worker i Exited (fail_round err t))"
proof -
  have parts: "inv_acct limit jobs s" "inv_ctl s" "inv_data E jobs pool0 s" using assms(1) by (simp_all add: round_inv_def)
  let ?s = "set_worker i Exited (fail_round err t)"
  obtain P where P: "pending s = P + held pc0" using pending_held [OF i] by blast
  have "pending ?s = P" using pending_move [OF i, of "fail_round err t" Exited] t P by (simp add: fail_round_def)
  moreover have "acct limit jobs False P (rd_results s)"
    using pc0(2) parts(1) P by (auto simp: inv_acct_def intro: acct_drop acct_weaken)
  ultimately have "inv_acct limit jobs ?s" using t by (simp add: inv_acct_def fail_round_def run_done_def)
  moreover have "inv_ctl ?s" by (rule inv_ctl_fail [OF parts(2) i pc0(1) t(1-3)])
  moreover have "inv_data E jobs pool0 ?s"
    by (rule inv_data_move [OF parts(3)]) (simp_all add: t fail_round_def)
  ultimately show ?thesis by (rule round_invI)
qed

lemma failed_inv:
  assumes inv: "round_inv E limit jobs pool0 s" and i: "i < length (rd_workers s)" "rd_workers s ! i = (n, Failed job err)"
    and limit: "limit < 2 ^ 63"
  shows "round_inv E limit jobs pool0 (worker_failed limit i n job err s)"
proof -
  have parts: "inv_acct limit jobs s" "inv_ctl s" "inv_data E jobs pool0 s" using inv by (simp_all add: round_inv_def)
  let ?t = "s\<lparr>rd_pool := pool_RecordFailure n err (rd_pool s)\<rparr>"
  let ?job = "job\<lparr>job_attempts := i64 (job_attempts job + 1)\<rparr>"
  have fails: "round_inv E limit jobs pool0 (set_worker i Exited (fail_round e ?t))" for e
    by (rule inv_fail [OF inv i]) (simp_all add: RecordFailure_evolves)
  obtain P where P: "pending s = add_mset job P" using pending_held [OF i] by auto
  then have ok: "job_ok limit jobs job" using parts(1) by (simp add: inv_acct_def acct_def)
  have "round_inv E limit jobs pool0 (set_worker i (Requeue ?job err) ?t)" if "job_attempts ?job < limit"
  proof (rule round_invI)
    have "i64 (job_attempts job + 1) = job_attempts job + 1" using ok limit by (simp add: job_ok_def in_i64_def)
    with ok that have "job_ok limit jobs ?job" by (simp add: job_ok_def)
    moreover have "pending (set_worker i (Requeue ?job err) ?t) = add_mset ?job P"
      using pending_move [OF i, of ?t "Requeue ?job err"] P by simp
    ultimately show "inv_acct limit jobs (set_worker i (Requeue ?job err) ?t)"
      using acct_swap [of limit jobs "\<not> run_done s" job P "rd_results s" ?job] parts(1) P by (simp add: inv_acct_def)
    show "inv_ctl (set_worker i (Requeue ?job err) ?t)" by (rule inv_ctl_move [OF parts(2) i]) simp_all
    show "inv_data E jobs pool0 (set_worker i (Requeue ?job err) ?t)"
      by (rule inv_data_move [OF parts(3)]) (simp_all add: RecordFailure_evolves)
  qed
  with fails show ?thesis by (simp add: worker_failed_def Let_def)
qed

lemma requeue_inv:
  assumes inv: "round_inv E limit jobs pool0 s" and i: "i < length (rd_workers s)" "rd_workers s ! i = (n, Requeue job err)"
    and step: "worker_requeue cap i b job err s = Some s'"
  shows "round_inv E limit jobs pool0 s'"
proof -
  have parts: "inv_acct limit jobs s" "inv_ctl s" "inv_data E jobs pool0 s" using inv by (simp_all add: round_inv_def)
  obtain P where P: "pending s = add_mset job P" using pending_held [OF i] by auto
  consider (exit) "run_done s" "s' = set_worker i Exited s"
    | (send) "s' = set_worker i (Check err) (s\<lparr>rd_queue := rd_queue s @ [job]\<rparr>)"
    using step by (auto simp: worker_requeue_def split: if_splits)
  then show ?thesis
  proof cases
    case exit
    have "pending s' = P" using pending_move [OF i, of s Exited] exit P by simp
    then have "inv_acct limit jobs s'"
      using parts(1) exit P by (auto simp: inv_acct_def intro: acct_drop)
    moreover have "inv_ctl s'" unfolding exit(2)
      by (rule inv_ctl_move [OF parts(2) i]) (simp_all add: exit)
    moreover have "inv_data E jobs pool0 s'" unfolding exit(2) by (rule inv_data_move [OF parts(3)]) simp_all
    ultimately show ?thesis by (rule round_invI)
  next
    case send
    have "pending s' = pending s"
      using pending_move [OF i, of "s\<lparr>rd_queue := rd_queue s @ [job]\<rparr>" "Check err"] P send by simp
    then have "inv_acct limit jobs s'" using parts(1) send by (simp add: inv_acct_def)
    moreover have "inv_ctl s'" unfolding send by (rule inv_ctl_move [OF parts(2) i]) simp_all
    moreover have "inv_data E jobs pool0 s'" unfolding send by (rule inv_data_move [OF parts(3)]) simp_all
    ultimately show ?thesis by (rule round_invI)
  qed
qed

text \<open>A worker whose provider is gone leaves; the last one to leave fails the round.\<close>

lemma leave_inv:
  assumes inv: "round_inv E limit jobs pool0 s" and i: "i < length (rd_workers s)" "rd_workers s ! i = (n, Check err)"
    and t: "rd_workers t = rd_workers s" "rd_results t = rd_results s" "rd_remaining t = rd_remaining s"
      "rd_queue t = rd_queue s" "rd_firstErr t = rd_firstErr s" "rd_cancelled t = rd_cancelled s" "rd_ctx t = rd_ctx s"
      "pool_evolves (rd_pool s) (rd_pool t)" "rd_active t = i32 (rd_active s - 1)" "rd_active t \<noteq> 0"
  shows "round_inv E limit jobs pool0 (set_worker i Exited t)"
proof (rule round_invI)
  have parts: "inv_acct limit jobs s" "inv_ctl s" "inv_data E jobs pool0 s" using inv by (simp_all add: round_inv_def)
  let ?s = "set_worker i Exited t"
  have d: "run_done ?s = run_done s" using t by (simp add: run_done_def)
  have "pending ?s = pending s" using pending_move [OF i t(1), of Exited] t by simp
  with parts(1) d t show "inv_acct limit jobs ?s" by (simp add: inv_acct_def)
  have st: "wsum storing ?s = wsum storing s" using wsum_move [OF i t(1), of storing Exited] by simp
  have l: "wsum live ?s + 1 = wsum live s" using wsum_move [OF i t(1), of live Exited] by simp
  have act: "rd_active ?s = int (wsum live ?s) \<and> 0 < wsum live ?s" if "\<not> run_done s"
  proof -
    have "rd_active s = int (wsum live s)" "length (rd_workers s) < 2 ^ 31" using parts(2) that by (simp_all add: inv_ctl_def)
    with l wsum_live_le [of s] have "i32 (rd_active s - 1) = int (wsum live ?s)" by (subst i32_id) auto
    with t(9,10) show ?thesis by auto
  qed
  show "inv_ctl ?s" using parts(2) act st d t unfolding inv_ctl_def set_worker_fields t(1,2,3,5,6)
    by (cases "run_done s") auto
  show "inv_data E jobs pool0 ?s" by (rule inv_data_move [OF parts(3) t(1) _ t(2) t(8)]) simp
qed

lemma check_inv:
  assumes inv: "round_inv E limit jobs pool0 s" and i: "i < length (rd_workers s)" "rd_workers s ! i = (n, Check err)"
  shows "round_inv E limit jobs pool0 (worker_check E i n err s)"
proof -
  have parts: "inv_acct limit jobs s" "inv_ctl s" "inv_data E jobs pool0 s" using inv by (simp_all add: round_inv_def)
  have "(n, Check err) \<in> set (rd_workers s)" using i by (metis nth_mem)
  then obtain p where p: "providers (rd_pool s) n = Some p" using parts(3) by (auto simp: inv_data_def)
  obtain b p' w' where a: "p_IsAvailable E p (rd_world s) = (b, p', w')" by (cases "p_IsAvailable E p (rd_world s)")
  have e: "pool_evolves (rd_pool s) (set_provider n p' (rd_pool s))"
    using p p_IsAvailable_ok [OF a] by (intro set_provider_evolves) auto
  let ?t = "s\<lparr>rd_pool := set_provider n p' (rd_pool s), rd_world := w'\<rparr>"
  let ?u = "?t\<lparr>rd_active := i32 (rd_active s - 1)\<rparr>"
  have stays: "round_inv E limit jobs pool0 (set_worker i Idle ?t)"
  proof (rule round_invI)
    have "pending (set_worker i Idle ?t) = pending s" using pending_move [OF i, of ?t Idle] by simp
    then show "inv_acct limit jobs (set_worker i Idle ?t)" using parts(1) by (simp add: inv_acct_def)
    show "inv_ctl (set_worker i Idle ?t)" by (rule inv_ctl_move [OF parts(2) i]) simp_all
    show "inv_data E jobs pool0 (set_worker i Idle ?t)" by (rule inv_data_move [OF parts(3)]) (simp_all add: e)
  qed
  have fails: "round_inv E limit jobs pool0 (set_worker i Exited (fail_round err' ?u))" for err'
    by (rule inv_fail [OF inv i]) (simp_all add: e)
  have leaves: "round_inv E limit jobs pool0 (set_worker i Exited ?u)" if "i32 (rd_active s - 1) \<noteq> 0"
    by (rule leave_inv [OF inv i]) (simp_all add: e that)
  show ?thesis using p a stays fails leaves
    by (cases "i32 (rd_active s - 1) = 0") (simp_all add: worker_check_def Let_def)
qed

lemma store_inv:
  assumes inv: "round_inv E limit jobs pool0 s" and i: "i < length (rd_workers s)" "rd_workers s ! i = (n, Got job logs)"
  shows "round_inv E limit jobs pool0 (worker_store E i n job logs s)"
proof -
  have parts: "inv_acct limit jobs s" "inv_ctl s" "inv_data E jobs pool0 s" using inv by (simp_all add: round_inv_def)
  obtain pool' w' where r: "pool_RecordSuccess E n (rd_pool s) (rd_world s) = (pool', w')"
    by (cases "pool_RecordSuccess E n (rd_pool s) (rd_world s)")
  let ?t = "s\<lparr>rd_pool := pool', rd_world := w', rd_results := (rd_results s)[job_index job := Some logs]\<rparr>"
  let ?s = "set_worker i Stored ?t"
  obtain P where P: "pending s = add_mset job P" using pending_held [OF i] by auto
  then have a: "acct limit jobs (\<not> run_done s) (add_mset job P) (rd_results s)" using parts(1) by (simp add: inv_acct_def)
  note store = acct_store [OF a]
  have "pending ?s = P" using pending_move [OF i, of ?t Stored] P by simp
  with store(1) have acct: "inv_acct limit jobs ?s" by (simp add: inv_acct_def)
  have "Suc (undone (rd_results ?s)) = undone (rd_results s)" using undone_store store(2,3) by simp
  moreover have "wsum storing ?s = wsum storing s + 1" using wsum_move [OF i, of ?t storing Stored] by simp
  moreover have "wsum live ?s = wsum live s" using wsum_move [OF i, of ?t live Stored] by simp
  ultimately have ctl: "inv_ctl ?s" using parts(2) by (auto simp: inv_ctl_def)
  have "(n, Got job logs) \<in> set (rd_workers s)" using i by (metis nth_mem)
  then have "got_ok E pool0 (Got job logs)" using parts(3) by (force simp: inv_data_def)
  moreover have "job_ok limit jobs job" using a by (simp add: acct_def)
  ultimately have "inv_data E jobs pool0 ?s"
    using store(3) RecordSuccess_evolves [OF r]
    by (intro inv_data_step [OF parts(3) set_worker_workers]) auto
  with acct ctl show ?thesis using r by (simp add: worker_store_def round_inv_def)
qed

lemma count_inv:
  assumes inv: "round_inv E limit jobs pool0 s" and i: "i < length (rd_workers s)" "rd_workers s ! i = (n, Stored)"
  shows "round_inv E limit jobs pool0 (worker_count i s)"
proof -
  have parts: "inv_acct limit jobs s" "inv_ctl s" "inv_data E jobs pool0 s" using inv by (simp_all add: round_inv_def)
  let ?t = "s\<lparr>rd_remaining := i32 (rd_remaining s - 1)\<rparr>"
  have st: "wsum storing (set_worker i pc t) + 1 = wsum storing s" if "rd_workers t = rd_workers s" "storing pc = 0" for pc t
    using wsum_move [OF i that(1), of storing pc] that(2) by simp
  have l: "wsum live (set_worker i Idle ?t) = wsum live s" using wsum_move [OF i, of ?t live Idle] by simp
  have bounds: "1 \<le> rd_remaining s" "rd_remaining s < 2 ^ 31"
    using parts(2) st [of s Idle] by (auto simp: inv_ctl_def)
  then have r: "i32 (rd_remaining s - 1) = rd_remaining s - 1" by (intro i32_id) simp_all
  have p: "pending (set_worker i pc t) = pending s" if "rd_workers t = rd_workers s" "rd_queue t = rd_queue s" "held pc = {#}" for pc t
    using pending_move [OF i that(1), of pc] that by simp
  show ?thesis
  proof (cases "rd_remaining s = 1")
    case True
    let ?s = "set_worker i Exited (?t\<lparr>rd_cancelled := True\<rparr>)"
    have "inv_acct limit jobs ?s" using parts(1) p [of "?t\<lparr>rd_cancelled := True\<rparr>" Exited]
      by (auto simp: inv_acct_def run_done_def intro: acct_weaken)
    moreover have "inv_ctl ?s" using parts(2) r True st [of "?t\<lparr>rd_cancelled := True\<rparr>" Exited]
      by (auto simp: inv_ctl_def run_done_def)
    moreover have "inv_data E jobs pool0 ?s" by (rule inv_data_move [OF parts(3)]) simp_all
    ultimately have "round_inv E limit jobs pool0 ?s" by (rule round_invI)
    with True r show ?thesis by (simp add: worker_count_def Let_def)
  next
    case False
    let ?s = "set_worker i Idle ?t"
    have "inv_acct limit jobs ?s" using parts(1) p [of ?t Idle] by (simp add: inv_acct_def)
    moreover have "inv_ctl ?s" using parts(2) bounds r False st [of ?t Idle] l by (auto simp: inv_ctl_def)
    moreover have "inv_data E jobs pool0 ?s" by (rule inv_data_move [OF parts(3)]) simp_all
    ultimately have "round_inv E limit jobs pool0 ?s" by (rule round_invI)
    with False r show ?thesis by (simp add: worker_count_def Let_def)
  qed
qed

lemma worker_step_inv:
  assumes "round_inv E limit jobs pool0 s" and "limit < 2 ^ 63"
    and step: "worker_step E limit cap i b s = Some s'"
  shows "round_inv E limit jobs pool0 s'"
proof -
  obtain n pc where i: "i < length (rd_workers s)" "rd_workers s ! i = (n, pc)"
    using step by (cases "rd_workers s ! i") (auto simp: worker_step_def split: if_splits)
  then show ?thesis
    using step assms(1,2)
    by (cases pc) (auto simp: worker_step_def intro: select_inv call_inv failed_inv requeue_inv check_inv store_inv count_inv)
qed

lemma env_step_inv:
  assumes "env_step s s'" and inv: "round_inv E limit jobs pool0 s"
  shows "round_inv E limit jobs pool0 s'"
  using assms(1)
proof (cases rule: env_step.cases)
  case (world w)
  with inv show ?thesis by (auto simp: round_inv_def inv_acct_def inv_ctl_def inv_data_def pending_def)
next
  case (ctx_done e)
  with inv show ?thesis
    by (auto simp: round_inv_def inv_acct_def inv_ctl_def inv_data_def pending_def run_done_def intro: acct_weaken)
next
  case rerank
  have "providers (recalculateScores p) = providers p" for p
    by (simp add: recalculateScores_def sortOrderedListLocked_def)
  with rerank inv recalculateScores_inv pool_like_trans [OF _ recalculateScores_like] show ?thesis
    by (auto simp: round_inv_def inv_acct_def inv_ctl_def inv_data_def pending_def)
qed

lemma round_runs_inv:
  assumes "round_runs E limit cap k s s'" and "round_inv E limit jobs pool0 s" and "limit < 2 ^ 63"
  shows "round_inv E limit jobs pool0 s'"
  using assms(1,2)
  by (induction rule: round_runs.induct) (auto intro: worker_step_inv [OF _ assms(3)] env_step_inv)

end
