(* ===== verification/Parallel_Correct.thy ===== *)
theory Parallel_Correct
  imports Parallel_Round
begin

text \<open>
  What a round of the parallel backfill guarantees: progress, a bound on the number of steps,
  and the meaning of its result, first for every interleaving and then for
  \<open>LogsByBlockRangeParallel\<close>.
\<close>

section \<open>The initial state\<close>

lemma wsum_init: "f Idle = 0 \<Longrightarrow> wsum f (init_round jobs avail pool w) = 0"
  by (simp add: wsum_def init_round_def comp_def sum_list_eq_0_iff)

lemma wsum_live_init: "wsum live (init_round jobs avail pool w) = length avail"
  by (simp add: wsum_def init_round_def comp_def sum_list_triv)

lemma undone_init: "undone (replicate n None) = n"
  by (simp add: undone_def map_replicate sum_list_replicate)

lemma job_indices_count:
  assumes "map job_index jobs = [0..<length jobs]" and "i < length jobs"
  shows "count (image_mset job_index (mset jobs)) i = 1"
proof -
  have "image_mset job_index (mset jobs) = mset [0..<length jobs]" using assms(1) by (metis mset_map)
  then show ?thesis using assms(2) by (simp add: count_mset_set)
qed

lemma init_inv:
  assumes "jobs_ok chunk jobs" and "0 < limit" and "pool_inv pool" and "avail \<noteq> []" and "jobs \<noteq> []"
    and "\<forall>n \<in> set avail. providers pool n \<noteq> None"
    and "length jobs < 2 ^ 31" and "length avail < 2 ^ 31"
  shows "round_inv E limit jobs pool (init_round jobs avail pool w)"
proof (rule round_invI)
  let ?s = "init_round jobs avail pool w"
  have idx: "job_index (jobs ! i) = i" if "i < length jobs" for i
    using assms(1) that by (metis jobs_ok_def nth_map nth_upt add_0)
  have "job_ok limit jobs j" if "j \<in> set jobs" for j
  proof -
    from that obtain i where i: "i < length jobs" "j = jobs ! i" by (auto simp: in_set_conv_nth)
    with that assms(1,2) idx show ?thesis by (simp add: job_ok_def jobs_ok_def)
  qed
  then have "acct limit jobs True (mset jobs) (replicate (length jobs) None)"
    using job_indices_count [of jobs] assms(1) unfolding acct_def slot_def by (simp add: jobs_ok_def)
  moreover have "pending ?s = mset jobs" by (simp add: pending_def wsum_init) (simp add: init_round_def)
  ultimately show "inv_acct limit jobs ?s" by (simp add: inv_acct_def init_round_def run_done_def)
  have "i32 (int (length jobs)) = int (length jobs)" "i32 (int (length avail)) = int (length avail)"
    using assms(7,8) by (simp_all add: i32_id)
  moreover have "wsum live ?s = length avail" "wsum storing ?s = 0" by (simp_all add: wsum_live_init wsum_init)
  ultimately show "inv_ctl ?s" using assms(4,5,7,8)
    by (simp add: inv_ctl_def undone_init run_done_def) (simp add: init_round_def undone_init)
  show "inv_data E jobs pool ?s" using assms(3,6) by (auto simp: inv_data_def init_round_def)
qed

section \<open>No deadlock\<close>

lemma runnable_step:
  assumes "i < length (rd_workers s)" and "runnable cap s i"
  shows "\<exists>s'. worker_step E limit cap i b s = Some s'"
  using assms
  by (cases "rd_workers s ! i"; cases "snd (rd_workers s ! i)")
    (auto simp: runnable_def worker_step_def worker_select_def worker_requeue_def split: list.splits)

lemma wsum_0: "(\<And>x. x \<in> set (rd_workers s) \<Longrightarrow> f (snd x) = 0) \<Longrightarrow> wsum f s = 0"
  unfolding wsum_def by (metis (no_types, lifting) map_eq_conv sum_list_0)

lemma queue_room:
  assumes "inv_acct limit jobs s" and "i < length (rd_workers s)" and "rd_workers s ! i = (n, Requeue job err)"
  shows "length (rd_queue s) < length jobs"
proof -
  obtain P where "wsum held s = P + {#job#}" using wsum_split [OF assms(2,3), of held] by auto
  then have "size (pending s) = length (rd_queue s) + size P + 1" by (simp add: pending_def)
  moreover have "size (pending s) \<le> length jobs"
    using acct_size(1) [OF assms(1) [unfolded inv_acct_def]] undone_le [of "rd_results s"] assms(1)
    by (auto simp: inv_acct_def acct_def)
  ultimately show ?thesis by simp
qed

text \<open>
  When every worker is waiting at the head of its loop, either jobs are queued or the round is over.
\<close>

lemma idle_round:
  assumes "inv_acct limit jobs s" and "inv_ctl s"
    and idle: "\<forall>x \<in> set (rd_workers s). snd x = Idle \<or> snd x = Exited"
  shows "run_done s \<or> rd_queue s \<noteq> []"
proof (rule ccontr)
  assume "\<not> ?thesis"
  then have q: "\<not> run_done s" "rd_queue s = []" by auto
  have "wsum held s = {#}" "wsum storing s = 0"
    using idle by (auto intro!: wsum_0)
  with q have "pending s = {#}" by (simp add: pending_def)
  then have "undone (rd_results s) = 0"
    using acct_size(2) [OF assms(1) [unfolded inv_acct_def]] q by simp
  with \<open>wsum storing s = 0\<close> assms(2) have "rd_cancelled s" by (simp add: inv_ctl_def)
  with q show False by (simp add: run_done_def)
qed

lemma some_runnable:
  assumes inv: "round_inv E limit jobs pool0 s" and "\<not> all_exited s"
  shows "\<exists>i < length (rd_workers s). runnable (length jobs) s i"
proof (cases "\<forall>x \<in> set (rd_workers s). snd x = Idle \<or> snd x = Exited")
  case True
  obtain i where i: "i < length (rd_workers s)" "snd (rd_workers s ! i) \<noteq> Exited"
    using assms(2) by (auto simp: all_exited_def list_all_length)
  then have "snd (rd_workers s ! i) = Idle" using True by auto
  moreover have "run_done s \<or> rd_queue s \<noteq> []" using inv True by (intro idle_round) (auto simp: round_inv_def)
  ultimately show ?thesis using i by (auto simp: runnable_def)
next
  case False
  then obtain i where i: "i < length (rd_workers s)" "snd (rd_workers s ! i) \<noteq> Idle" "snd (rd_workers s ! i) \<noteq> Exited"
    by (auto simp: in_set_conv_nth)
  have "runnable (length jobs) s i"
    using i inv queue_room [of limit jobs s i "fst (rd_workers s ! i)"]
    by (cases "snd (rd_workers s ! i)") (auto simp: runnable_def round_inv_def prod_eq_iff)
  with i show ?thesis by blast
qed

section \<open>Termination\<close>

definition job_weight :: "int \<Rightarrow> parallelLogJob \<Rightarrow> nat" where
  "job_weight limit j = 6 * nat (limit - job_attempts j)"

fun worker_weight :: "int \<Rightarrow> worker \<Rightarrow> nat" where
  "worker_weight limit Idle = 1"
| "worker_weight limit (Calling j) = job_weight limit j"
| "worker_weight limit (Failed j _) = job_weight limit j - 1"
| "worker_weight limit (Got j _) = job_weight limit j - 1"
| "worker_weight limit (Requeue j _) = job_weight limit j + 4"
| "worker_weight limit (Check _) = 2"
| "worker_weight limit Stored = 2"
| "worker_weight limit Exited = 0"

definition round_weight :: "int \<Rightarrow> 'w round \<Rightarrow> nat" where
  "round_weight limit s = sum_list (map (job_weight limit) (rd_queue s)) + wsum (worker_weight limit) s"

lemma round_weight_move:
  assumes "i < length (rd_workers s)" and "rd_workers s ! i = (n, pc0)" and "rd_workers t = rd_workers s"
    and "sum_list (map (job_weight limit) (rd_queue t)) + worker_weight limit pc <
         sum_list (map (job_weight limit) (rd_queue s)) + worker_weight limit pc0"
  shows "round_weight limit (set_worker i pc t) < round_weight limit s"
  using wsum_move [OF assms(1-3), of "worker_weight limit" pc] assms(4) by (simp add: round_weight_def)

lemma held_weight:
  assumes "inv_acct limit jobs s" and "i < length (rd_workers s)" and "rd_workers s ! i = (n, pc)" and "j \<in># held pc"
  shows "6 \<le> job_weight limit j" and "in_i64 limit \<Longrightarrow> i64 (job_attempts j + 1) = job_attempts j + 1"
proof -
  obtain P where "pending s = P + held pc" using pending_held [OF assms(2,3)] by blast
  with assms(1,4) have ok: "job_ok limit jobs j" by (auto simp: inv_acct_def acct_def)
  then show "6 \<le> job_weight limit j" by (simp add: job_ok_def job_weight_def Suc_le_eq)
  show "in_i64 limit \<Longrightarrow> i64 (job_attempts j + 1) = job_attempts j + 1"
    using ok by (simp add: job_ok_def in_i64_def)
qed

lemma fail_round_fields [simp]:
  "rd_workers (fail_round e s) = rd_workers s" "rd_queue (fail_round e s) = rd_queue s"
  by (simp_all add: fail_round_def)

text \<open>Every step of a worker decreases the weight, whatever the environment does in between.\<close>

lemma worker_step_weight:
  assumes inv: "round_inv E limit jobs pool0 s" and "in_i64 limit"
    and step: "worker_step E limit cap i b s = Some s'"
  shows "round_weight limit s' < round_weight limit s"
proof -
  obtain n pc where i: "i < length (rd_workers s)" "rd_workers s ! i = (n, pc)"
    using step by (cases "rd_workers s ! i") (auto simp: worker_step_def split: if_splits)
  note w = held_weight [OF _ i] and move = round_weight_move [OF i]
  have a: "inv_acct limit jobs s" using inv by (simp add: round_inv_def)
  show ?thesis
  proof (cases pc)
    case Idle
    with step i show ?thesis
      by (auto simp: worker_step_def worker_select_def split: if_splits list.splits intro!: move)
  next
    case (Calling j)
    with w(1) [OF a, of j] step i show ?thesis
      by (auto simp: worker_step_def worker_call_def split: prod.splits sum.splits intro!: move)
  next
    case (Failed j err)
    with w [OF a, of j] assms(2) have j: "6 \<le> job_weight limit j" "i64 (job_attempts j + 1) = job_attempts j + 1" by auto
    then have "job_weight limit (j\<lparr>job_attempts := job_attempts j + 1\<rparr>) + 6 = job_weight limit j"
      by (simp add: job_weight_def)
    with Failed j step i show ?thesis
      by (auto simp: worker_step_def worker_failed_def Let_def split: if_splits intro!: move)
  next
    case (Requeue j err)
    with step i show ?thesis
      by (auto simp: worker_step_def worker_requeue_def split: if_splits intro!: move)
  next
    case (Check err)
    with step i show ?thesis
      by (auto simp: worker_step_def worker_check_def Let_def split: option.splits prod.splits if_splits intro!: move)
  next
    case (Got j logs)
    with w(1) [OF a, of j] step i show ?thesis
      by (auto simp: worker_step_def worker_store_def split: prod.splits intro!: move)
  next
    case Stored
    with step i show ?thesis
      by (auto simp: worker_step_def worker_count_def Let_def split: if_splits intro!: move)
  next
    case Exited
    with step i show ?thesis by (simp add: worker_step_def)
  qed
qed

lemma env_step_weight: "env_step s s' \<Longrightarrow> round_weight limit s' = round_weight limit s"
  by (auto simp: round_weight_def elim!: env_step.cases)

lemma round_runs_weight:
  assumes "round_runs E limit cap k s s'" and "round_inv E limit jobs pool0 s" and "in_i64 limit"
  shows "k + round_weight limit s' \<le> round_weight limit s"
  using assms(1,2)
proof (induction rule: round_runs.induct)
  case (work k s s1 i b s2)
  have "round_inv E limit jobs pool0 s1"
    using round_runs_inv [OF work.hyps(1) work.prems] assms(3) by (simp add: in_i64_def)
  from worker_step_weight [OF this assms(3) work.hyps(2)] work.IH [OF work.prems] show ?case by simp
qed (simp_all add: env_step_weight)

lemma init_weight:
  assumes "jobs_ok chunk jobs"
  shows "round_weight limit (init_round jobs avail pool w) = length jobs * (6 * nat limit) + length avail"
proof -
  have "map (job_weight limit) jobs = map (\<lambda>_. 6 * nat limit) jobs"
    using assms by (auto simp: jobs_ok_def job_weight_def)
  then have "sum_list (map (job_weight limit) jobs) = length jobs * (6 * nat limit)"
    by (simp only: sum_list_triv) simp
  moreover have "wsum (worker_weight limit) (init_round jobs avail pool w) = length avail"
    by (simp add: wsum_def init_round_def comp_def sum_list_triv)
  moreover have "rd_queue (init_round jobs avail pool w) = jobs" by (simp add: init_round_def)
  ultimately show ?thesis by (simp add: round_weight_def)
qed

section \<open>The result\<close>

lemma exited_run_done:
  assumes "inv_ctl s" and "all_exited s"
  shows "run_done s"
proof (rule ccontr)
  assume "\<not> run_done s"
  with assms(1) have "0 < wsum live s" by (simp add: inv_ctl_def)
  moreover have "wsum live s = 0" using assms(2) by (intro wsum_0) (auto simp: all_exited_def list_all_iff)
  ultimately show False by simp
qed

text \<open>
  A finished round: success means that every job has been answered, and an error is the first
  error reported by a worker or the error of the caller's context.
\<close>

lemma round_result_ok:
  assumes inv: "round_inv E limit jobs pool0 s" and "all_exited s"
  shows "round_result fromBlock toBlock s = Inr out \<Longrightarrow>
           \<exists>chunks. length chunks = length jobs \<and> out = concat chunks \<and>
             (\<forall>i < length jobs. served E (job_query pool0 (jobs ! i)) (chunks ! i))"
    and "round_result fromBlock toBlock s = Inl err \<Longrightarrow> rd_firstErr s = Some err \<or> rd_ctx s = Some err"
proof -
  let ?f = "\<lambda>r. case r of None \<Rightarrow> [] | Some logs \<Rightarrow> logs"
  show "\<exists>chunks. length chunks = length jobs \<and> out = concat chunks \<and>
      (\<forall>i < length jobs. served E (job_query pool0 (jobs ! i)) (chunks ! i))"
    if "round_result fromBlock toBlock s = Inr out"
  proof (intro exI conjI allI impI)
    have ok: "rd_remaining s = 0" "out = concat (map ?f (rd_results s))"
      using that by (auto simp: round_result_def split: option.splits if_splits)
    have len: "length (rd_results s) = length jobs" using inv by (simp add: round_inv_def inv_acct_def acct_def)
    have u: "undone (rd_results s) = 0" using inv ok(1) by (simp add: round_inv_def inv_ctl_def)
    show "length (map ?f (rd_results s)) = length jobs" using len by simp
    show "out = concat (map ?f (rd_results s))" by (rule ok)
    fix i
    assume i: "i < length jobs"
    then have "rd_results s ! i \<noteq> None"
      using u len by (auto simp: undone_sum split: if_splits)
    then obtain logs where "rd_results s ! i = Some logs" by blast
    with inv i len show "served E (job_query pool0 (jobs ! i)) (map ?f (rd_results s) ! i)"
      by (simp add: round_inv_def inv_data_def)
  qed
  show "rd_firstErr s = Some err \<or> rd_ctx s = Some err" if "round_result fromBlock toBlock s = Inl err"
    using that exited_run_done [OF _ assms(2)] inv
    by (auto simp: round_result_def round_inv_def inv_ctl_def run_done_def split: option.splits if_splits)
qed

section \<open>The scheduled run\<close>

lemma poll_ctx_weight [simp]:
  "round_weight limit (poll_ctx E s) = round_weight limit s" "rd_pool (poll_ctx E s) = rd_pool s"
  by (auto simp: poll_ctx_def round_weight_def split: option.splits)

lemma poll_ctx_inv:
  assumes "round_inv E limit jobs pool0 s"
  shows "round_inv E limit jobs pool0 (poll_ctx E s)"
proof (cases "rd_ctx s")
  case None
  show ?thesis
  proof (cases "rt_CtxErr (x_rt E) (rd_world s)")
    case None
    with \<open>rd_ctx s = None\<close> have "poll_ctx E s = s" by (cases s) (simp add: poll_ctx_def)
    with assms show ?thesis by simp
  next
    case (Some e)
    have "env_step s (s\<lparr>rd_ctx := Some e\<rparr>)" using \<open>rd_ctx s = None\<close> by (rule env_step.ctx_done)
    from env_step_inv [OF this assms] Some \<open>rd_ctx s = None\<close> show ?thesis by (simp add: poll_ctx_def)
  qed
qed (use assms in \<open>simp add: poll_ctx_def\<close>)

lemma runnable_world [simp]: "runnable cap (s\<lparr>rd_world := w\<rparr>) i = runnable cap s i"
  by (simp add: runnable_def split: worker.split)

lemma round_body_step:
  assumes inv: "round_inv E limit jobs pool0 s" and lim: "in_i64 limit"
    and body: "round_body E limit (length jobs) s = Inr s'"
  shows "round_inv E limit jobs pool0 s' \<and> round_weight limit s' < round_weight limit s"
proof -
  let ?s1 = "poll_ctx E s"
  have inv1: "round_inv E limit jobs pool0 ?s1" using inv by (rule poll_ctx_inv)
  have live: "\<not> all_exited ?s1" using body by (auto simp: round_body_def Let_def)
  define ws where "ws = filter (runnable (length jobs) ?s1) [0..<length (rd_workers ?s1)]"
  have ne: "ws \<noteq> []" using some_runnable [OF inv1 live] by (auto simp: ws_def filter_empty_conv)
  obtain k b w' where sched: "rt_Sched (x_rt E) (length ws) (rd_world ?s1) = ((k, b), w')"
    by (metis prod.collapse)
  let ?s2 = "?s1\<lparr>rd_world := w'\<rparr>" and ?i = "ws ! (k mod length ws)"
  have inv2: "round_inv E limit jobs pool0 ?s2" by (rule env_step_inv [OF env_step.world inv1])
  have "?i \<in> set ws" using ne by (intro nth_mem) simp
  then have "?i < length (rd_workers ?s2)" "runnable (length jobs) ?s2 ?i" by (auto simp: ws_def)
  then obtain s3 where s3: "worker_step E limit (length jobs) ?i b ?s2 = Some s3" using runnable_step by metis
  then have "s' = s3" using body live sched ne by (simp add: round_body_def Let_def ws_def [symmetric])
  moreover have "round_inv E limit jobs pool0 s3" using worker_step_inv [OF inv2 _ s3] lim by (simp add: in_i64_def)
  moreover have "round_weight limit s3 < round_weight limit ?s2" by (rule worker_step_weight [OF inv2 lim s3])
  moreover have "round_weight limit ?s2 = round_weight limit s"
    by (simp add: env_step_weight [OF env_step.world])
  ultimately show ?thesis by simp
qed

lemma run_round_ok:
  assumes "round_inv E limit jobs pool0 s" and "in_i64 limit"
  shows "\<exists>s'. run_round E limit (length jobs) s = Some s' \<and> round_inv E limit jobs pool0 s' \<and> all_exited s'"
  unfolding run_round_def
proof (rule go_for_total [where R = "measure (round_weight limit)" and I = "round_inv E limit jobs pool0"])
  fix s r
  assume "round_inv E limit jobs pool0 s" and "round_body E limit (length jobs) s = Inl r"
  then show "round_inv E limit jobs pool0 r \<and> all_exited r"
    using poll_ctx_inv by (auto simp: round_body_def Let_def split: if_splits prod.splits option.splits)
next
  fix a a'
  assume "round_inv E limit jobs pool0 a" and "round_body E limit (length jobs) a = Inr a'"
  from round_body_step [OF this(1) assms(2) this(2)]
  show "round_inv E limit jobs pool0 a' \<and> (a', a) \<in> measure (round_weight limit)" by simp
qed (use assms(1) in simp_all)

section \<open>\<open>LogsByBlockRangeParallel\<close>\<close>

lemma parallel_chunk_bounds:
  "1 \<le> c \<Longrightarrow> unat c < 2 ^ 63 \<Longrightarrow> \<forall>l \<in> set ls. l < 2 ^ 63 \<and> 0 \<le> l \<Longrightarrow>
   1 \<le> parallel_chunk ls c \<and> unat (parallel_chunk ls c) < 2 ^ 63"
proof (induction ls arbitrary: c)
  case (Cons l ls)
  have "unat (to_u64 l) < 2 ^ 63" using Cons.prems(3) by (simp add: unat_to_u64 nat_less_iff)
  moreover have "0 < to_u64 l \<Longrightarrow> 1 \<le> to_u64 l" by (simp add: u64_le u64_less)
  ultimately show ?case using Cons by (simp add: Let_def)
qed simp

definition limits_ok :: "Pool \<Rightarrow> bool" where
  "limits_ok pool \<longleftrightarrow> pool_maxLogBlockRange pool < 2 ^ 63 \<and> in_i64 (pool_maxParallelJobAttempts pool) \<and>
     length (orderedList pool) < 2 ^ 31 \<and>
     (\<forall>n p. providers pool n = Some p \<longrightarrow> p_maxLogBlockRange p < 2 ^ 63)"

text \<open>The machine bounds of the configuration: \<open>int\<close> fields hold 64-bit values.\<close>

lemma limits_ok_evolves:
  assumes "limits_ok pool" and e: "pool_evolves pool pool'"
  shows "limits_ok pool'"
proof -
  have "p_maxLogBlockRange p' < 2 ^ 63" if "providers pool' n = Some p'" for n p'
    using evolves_provider(1) [OF e that] assms(1) by (auto simp: limits_ok_def p_static_def)
  with assms show ?thesis by (auto simp: limits_ok_def pool_evolves_def)
qed

lemma limit_of_bounds: "limits_ok pool \<Longrightarrow> pool_inv pool \<Longrightarrow> 0 \<le> limit_of pool n \<and> limit_of pool n < 2 ^ 63"
  by (auto simp: limits_ok_def pool_inv_def limit_of_def effectiveMaxLogBlockRange_def split: option.splits)

lemma limit_of_pos: "pool_inv pool \<Longrightarrow> providers pool n \<noteq> None \<Longrightarrow> 1 \<le> limit_of pool n"
  by (auto simp: pool_inv_def limit_of_def effectiveMaxLogBlockRange_def)

lemma attempt_limit_ok:
  assumes "limits_ok pool" and "0 < n" and "n < 2 ^ 31"
  shows "in_i64 (parallelJobAttemptLimit pool n) \<and> 0 < parallelJobAttemptLimit pool n"
proof -
  have "in_i64 (n * 2)" using assms(2,3) by (simp add: in_i64_def)
  with assms show ?thesis by (auto simp: parallelJobAttemptLimit_def limits_ok_def)
qed

definition split_answers :: "'w ext \<Rightarrow> Pool \<Rightarrow> u64 \<Rightarrow> u64 \<Rightarrow> (u64 \<times> u64) list \<Rightarrow> log list list \<Rightarrow> bool" where
  "split_answers E pool fromBlock toBlock ranges chunks \<longleftrightarrow>
     concat (map (\<lambda>(a, b). blocks a b) ranges) = blocks fromBlock toBlock \<and>
     list_all2 (\<lambda>(a, b) logs. a \<le> b \<and> served E (logFilterQuery pool a b) logs) ranges chunks"

lemma pool_LogsByBlockRange_served:
  assumes "pool_LogsByBlockRange E a b pool w = (Inr out, pool', w')"
  shows "served E (logFilterQuery pool a b) out"
  using pool_rpc_value [of E "\<lambda>_. True" _ pool w out pool' w'] assms
  unfolding pool_LogsByBlockRange_def pool_FilterLogs_def p_FilterLogs_def served_def by blast

lemma pool_LogsByBlockRange_evolves:
  "pool_LogsByBlockRange E a b pool w = (r, pool', w') \<Longrightarrow> pool_evolves pool pool'"
  unfolding pool_LogsByBlockRange_def pool_FilterLogs_def by (rule pool_rpc_evolves [OF quota_only_rpcs(5)])

lemma query_evolves: "pool_evolves pool pool' \<Longrightarrow> logFilterQuery pool' a b = logFilterQuery pool a b"
  by (simp add: pool_evolves_def logFilterQuery_def)

text \<open>What a round starts from: a well-formed pool, providers of it, and the jobs of a range of blocks.\<close>

definition round_begins :: "Pool \<Rightarrow> string list \<Rightarrow> u64 \<Rightarrow> u64 \<Rightarrow> u64 \<Rightarrow> parallelLogJob list \<Rightarrow> bool" where
  "round_begins pool avail chunkSize fromBlock toBlock jobs \<longleftrightarrow>
     pool_inv pool \<and> limits_ok pool \<and> avail \<noteq> [] \<and> (\<forall>n \<in> set avail. providers pool n \<noteq> None) \<and> length avail < 2 ^ 31 \<and>
     1 \<le> chunkSize \<and> unat chunkSize < 2 ^ 63 \<and> fromBlock \<le> toBlock \<and> unat toBlock < 2 ^ 63 \<and>
     unat toBlock - unat fromBlock < 2 ^ 31 - 1 \<and> split_jobs chunkSize fromBlock toBlock = Some jobs"

lemma round_begins_jobs:
  assumes "round_begins pool avail chunkSize fromBlock toBlock jobs"
  shows "jobs_ok chunkSize jobs" and "concat (map job_blocks jobs) = blocks fromBlock toBlock" and "jobs \<noteq> []"
    and "length jobs < 2 ^ 31"
  using split_jobs_ok [of chunkSize toBlock fromBlock] assms by (auto simp: round_begins_def)

lemma round_begins_limit:
  "round_begins pool avail chunkSize fromBlock toBlock jobs \<Longrightarrow>
   in_i64 (parallelJobAttemptLimit pool (int (length avail))) \<and> 0 < parallelJobAttemptLimit pool (int (length avail))"
  by (rule attempt_limit_ok) (auto simp: round_begins_def)

lemma round_begins_inv:
  assumes "round_begins pool avail chunkSize fromBlock toBlock jobs"
  shows "round_inv E (parallelJobAttemptLimit pool (int (length avail))) jobs pool (init_round jobs avail pool w)"
  using init_inv [OF round_begins_jobs(1) [OF assms] _ _ _ round_begins_jobs(3) [OF assms] _ round_begins_jobs(4) [OF assms]]
    round_begins_limit [OF assms] assms
  by (auto simp: round_begins_def)

lemma round_runs_begins:
  assumes "round_begins pool avail chunkSize fromBlock toBlock jobs"
    and "round_runs E (parallelJobAttemptLimit pool (int (length avail))) (length jobs) k (init_round jobs avail pool w) s"
  shows "round_inv E (parallelJobAttemptLimit pool (int (length avail))) jobs pool s"
  using round_runs_inv [OF assms(2) round_begins_inv [OF assms(1)]] round_begins_limit [OF assms(1)]
  by (simp add: in_i64_def)

lemma round_inv_result:
  assumes b: "round_begins pool avail chunkSize fromBlock toBlock jobs"
    and "round_inv E limit jobs pool s" and "all_exited s" and "round_result fromBlock toBlock s = Inr out"
  shows "\<exists>ranges chunks. split_answers E pool fromBlock toBlock ranges chunks \<and> out = concat chunks"
proof -
  obtain chunks where ch: "length chunks = length jobs" "out = concat chunks"
    "\<forall>i < length jobs. served E (job_query pool (jobs ! i)) (chunks ! i)"
    using round_result_ok(1) [OF assms(2-4)] by blast
  then have "split_answers E pool fromBlock toBlock (map (\<lambda>j. (job_from j, job_to j)) jobs) chunks"
    using round_begins_jobs(1,2) [OF b] unfolding job_blocks_def
    by (simp add: split_answers_def list_all2_conv_all_nth job_query_def comp_def jobs_ok_def)
  with ch(2) show ?thesis by blast
qed

text \<open>The executable scheduler is one of the interleavings, and it finishes.\<close>

lemma poll_ctx_runs: "round_runs E limit cap k s0 s \<Longrightarrow> round_runs E limit cap k s0 (poll_ctx E s)"
proof (cases "rd_ctx s")
  case None
  assume r: "round_runs E limit cap k s0 s"
  show ?thesis
  proof (cases "rt_CtxErr (x_rt E) (rd_world s)")
    case none: None
    with None have "poll_ctx E s = s" by (simp add: poll_ctx_def)
    with r show ?thesis by simp
  next
    case (Some e)
    with None have "poll_ctx E s = s\<lparr>rd_ctx := Some e\<rparr>" by (simp add: poll_ctx_def)
    with r None show ?thesis by (auto intro: round_runs.env env_step.ctx_done)
  qed
qed (simp add: poll_ctx_def)

lemma run_round_runs:
  assumes "run_round E limit cap s0 = Some s"
  shows "all_exited s \<and> (\<exists>k. round_runs E limit cap k s0 s)"
proof (rule go_for_partial [OF assms [unfolded run_round_def], where I = "\<lambda>s. \<exists>k. round_runs E limit cap k s0 s"])
  show "\<exists>k. round_runs E limit cap k s0 s0" by (blast intro: round_runs.stop)
next
  fix a r
  assume "\<exists>k. round_runs E limit cap k s0 a" and "round_body E limit cap a = Inl r"
  then show "all_exited r \<and> (\<exists>k. round_runs E limit cap k s0 r)"
    by (auto simp: round_body_def Let_def split: if_splits prod.splits option.splits intro: poll_ctx_runs)
next
  fix a a'
  assume "\<exists>k. round_runs E limit cap k s0 a" and body: "round_body E limit cap a = Inr a'"
  then obtain k where k: "round_runs E limit cap k s0 (poll_ctx E a)" using poll_ctx_runs by blast
  have w: "round_runs E limit cap k s0 ((poll_ctx E a)\<lparr>rd_world := w\<rparr>)" for w
    using k by (rule round_runs.env) (rule env_step.world)
  show "\<exists>k. round_runs E limit cap k s0 a'"
    using body w by (auto simp: round_body_def Let_def split: if_splits prod.splits option.splits intro: round_runs.work)
qed

lemma round_completes:
  assumes "round_begins pool avail chunkSize fromBlock toBlock jobs"
  shows "\<exists>s k. run_round E (parallelJobAttemptLimit pool (int (length avail))) (length jobs) (init_round jobs avail pool w) = Some s \<and>
           all_exited s \<and>
           round_runs E (parallelJobAttemptLimit pool (int (length avail))) (length jobs) k (init_round jobs avail pool w) s"
  using run_round_ok [OF round_begins_inv [OF assms], of E w] round_begins_limit [OF assms] run_round_runs by metis

text \<open>The fan-out proper, after the snapshot: it returns, and its result is an answer for the whole range.\<close>

lemma fan_out_ok:
  assumes "pool_inv pool" and "limits_ok pool" and "avail \<noteq> []" and "\<forall>n \<in> set avail. providers pool n \<noteq> None"
    and "length avail < 2 ^ 31" and "fromBlock \<le> toBlock" and "unat toBlock < 2 ^ 63" and "unat toBlock - unat fromBlock < 2 ^ 31 - 1"
    and chunk: "chunk = parallel_chunk (map (limit_of pool) avail) 1"
  shows "\<exists>jobs s. split_jobs chunk fromBlock toBlock = Some jobs \<and>
           run_round E (parallelJobAttemptLimit pool (int (length avail))) (length jobs)
             (init_round jobs avail pool w) = Some s \<and>
           (\<forall>out. round_result fromBlock toBlock s = Inr out \<longrightarrow>
              (\<exists>ranges chunks. split_answers E pool fromBlock toBlock ranges chunks \<and> out = concat chunks)) \<and>
           (\<forall>err. round_result fromBlock toBlock s = Inl err \<longrightarrow> rd_firstErr s = Some err \<or> rd_ctx s = Some err) \<and>
           pool_inv (rd_pool s) \<and> pool_like pool (rd_pool s)"
proof -
  let ?limit = "parallelJobAttemptLimit pool (int (length avail))"
  have c: "1 \<le> chunk \<and> unat chunk < 2 ^ 63" unfolding chunk
    using limit_of_bounds [OF assms(2,1)] by (intro parallel_chunk_bounds) auto
  then have "unat toBlock + unat chunk < 2 ^ 64" using assms(7) by simp
  from split_jobs_ok [OF _ this assms(6)] c obtain jobs where jobs: "split_jobs chunk fromBlock toBlock = Some jobs" by blast
  with assms c have b: "round_begins pool avail chunk fromBlock toBlock jobs" by (simp add: round_begins_def)
  from run_round_ok [OF round_begins_inv [OF b], of E w] round_begins_limit [OF b]
  obtain s where s: "run_round E ?limit (length jobs) (init_round jobs avail pool w) = Some s"
    "round_inv E ?limit jobs pool s" "all_exited s" by blast
  have "pool_inv (rd_pool s)" "pool_like pool (rd_pool s)" using s(2) by (simp_all add: round_inv_def inv_data_def)
  with jobs s(1) round_inv_result [OF b s(2,3)] round_result_ok(2) [OF s(2,3)] show ?thesis
    by (intro exI [of _ jobs] exI [of _ s]) simp
qed

lemma LogsByBlockRangeParallel_ok:
  assumes inv: "pool_inv pool" "limits_ok pool" and "unat toBlock < 2 ^ 63" and "unat toBlock - unat fromBlock < 2 ^ 31 - 1"
  shows "\<exists>r pool' w'. LogsByBlockRangeParallel E fromBlock toBlock pool w = Some (r, pool', w') \<and> pool_inv pool' \<and>
           pool_like pool pool' \<and> (\<forall>out. r = Inr out \<longrightarrow>
              (\<exists>ranges chunks. split_answers E pool fromBlock toBlock ranges chunks \<and> out = concat chunks))"
proof -
  obtain avail pool1 w1 where snap: "availableProvidersSnapshot E pool w = (avail, pool1, w1)"
    by (cases "availableProvidersSnapshot E pool w")
  note e = snapshot_evolves [OF snap]
  have inv1: "pool_inv pool1" "limits_ok pool1"
    using pool_inv_evolves [OF inv(1) e(1)] limits_ok_evolves [OF inv(2) e(1)] by auto
  have q: "split_answers E pool1 = split_answers E pool"
    by (intro ext) (simp add: split_answers_def query_evolves [OF e(1)])
  have like: "pool_like pool pool1" by (rule evolves_like [OF e(1)])
  have len: "length avail < 2 ^ 31"
    using list_emb_length [OF e(2)] inv(2) by (simp add: limits_ok_def)
  let ?chunk = "parallel_chunk (map (limit_of pool1) avail) 1"
  consider (empty) "toBlock < fromBlock" | (none) "fromBlock \<le> toBlock" "avail = []"
    | (single) "fromBlock \<le> toBlock" "avail \<noteq> []" "length avail < 2 \<or> toBlock - fromBlock + 1 \<le> ?chunk"
    | (fan) "fromBlock \<le> toBlock" "avail \<noteq> []" "\<not> (length avail < 2 \<or> toBlock - fromBlock + 1 \<le> ?chunk)"
    by force
  then show ?thesis
  proof cases
    case empty
    then have "split_answers E pool fromBlock toBlock [] []" by (simp add: split_answers_def blocks_empty)
    with empty inv show ?thesis by (force simp: LogsByBlockRangeParallel_def)
  next
    case none
    with snap inv1 like show ?thesis by (auto simp: LogsByBlockRangeParallel_def)
  next
    case single
    obtain r pool' w' where g: "pool_LogsByBlockRange E fromBlock toBlock pool1 w1 = (r, pool', w')"
      by (cases "pool_LogsByBlockRange E fromBlock toBlock pool1 w1")
    have "split_answers E pool1 fromBlock toBlock [(fromBlock, toBlock)] [out]" if "r = Inr out" for out
      using pool_LogsByBlockRange_served [of E fromBlock toBlock pool1 w1 out] g that single(1) by (simp add: split_answers_def)
    moreover have "pool_inv pool'" by (rule pool_inv_evolves [OF inv1(1) pool_LogsByBlockRange_evolves [OF g]])
    moreover have "pool_like pool pool'"
      by (rule pool_like_trans [OF like evolves_like [OF pool_LogsByBlockRange_evolves [OF g]]])
    ultimately show ?thesis using single snap g unfolding q
      by (force simp: LogsByBlockRangeParallel_def Let_def)
  next
    case fan
    from fan_out_ok [OF inv1 fan(2) _ len fan(1) assms(3,4) refl, of E w1] e(3)
    show ?thesis using fan snap pool_like_trans [OF like] unfolding q
      by (auto simp: LogsByBlockRangeParallel_def Let_def)
  qed
qed

end
