(* ===== verification/Sync_Env.thy ===== *)
theory Sync_Env
  imports Indexer
begin

text \<open>
  What the sync engine relies on, as interfaces: \<open>sync_env\<close> states which observable effects the
  calls behind the ports may have, \<open>sync_chain\<close> that successful answers describe one chain, and
  \<open>sync_limits\<close> the bounds that make the loops terminate. The lemmas about the sync paths are proved
  once against these contracts.

  The observers are the persisted progress \<open>lastb\<close>, the log of completed deliveries \<open>deliv\<close> (each
  log with the block time it was delivered with), the set \<open>skipped\<close> of blocks for which a call
  reported an unsupported transaction type, and an invariant \<open>ok\<close>.
\<close>

definition frame :: "('s \<Rightarrow> bool) \<Rightarrow> ('s \<Rightarrow> u64) \<Rightarrow> ('s \<Rightarrow> 'd) \<Rightarrow> ('s \<Rightarrow> u64 set) \<Rightarrow> 's \<Rightarrow> 's \<Rightarrow> bool" where
  "frame ok lastb deliv skipped s s' \<longleftrightarrow>
     ok s' \<and> lastb s' = lastb s \<and> deliv s' = deliv s \<and> skipped s \<subseteq> skipped s'"

lemma frame_trans:
  "frame ok lastb deliv skipped a b \<Longrightarrow> frame ok lastb deliv skipped b c \<Longrightarrow> frame ok lastb deliv skipped a c"
  by (auto simp: frame_def)

lemma frame_refl: "ok s \<Longrightarrow> frame ok lastb deliv skipped s s"
  by (simp add: frame_def)

definition decode_skip :: "('s \<Rightarrow> u64 set) \<Rightarrow> u64 \<Rightarrow> goerr option \<Rightarrow> 's \<Rightarrow> bool" where
  "decode_skip skipped n err s \<longleftrightarrow> (isLocalDecodeError err \<longrightarrow> n \<in> skipped s)"

definition err_of_result :: "goerr + 'a \<Rightarrow> goerr option" where
  "err_of_result r = (case r of Inl e \<Rightarrow> Some e | Inr _ \<Rightarrow> None)"

lemma err_of_result_simps [simp]: "err_of_result (Inl e) = Some e" "err_of_result (Inr x) = None"
  by (simp_all add: err_of_result_def)

lemma subseq_append_prefix: "subseq xs ys \<Longrightarrow> subseq xs (ys @ zs)"
  using list_emb_append_mono [of "(=)" xs ys "[]" zs] by simp

text \<open>The blocks a sync that counts \<open>base\<close> as processed has to handle.\<close>

definition new_blocks :: "u64 \<Rightarrow> u64 \<Rightarrow> u64 list" where
  "new_blocks base cur = (if base < cur then blocks (base + 1) cur else [])"

text \<open>
  The block counted as processed before anything has been rewound; \<open>n\<close> is the persisted one, which
  \<open>DebugMode\<close> ignores.
\<close>

definition first_base :: "IndexerConfig \<Rightarrow> u64 \<Rightarrow> u64" where
  "first_base cfg n =
     (let m = (if ic_DebugMode cfg then 0 else n) in if m = 0 \<and> 0 < ic_StartBlock cfg then ic_StartBlock cfg - 1 else m)"

text \<open>
  Deliveries against a chain given by the logs and the time of each block: what block \<open>n\<close> should
  deliver; that \<open>d\<close> is what has been delivered of block \<open>n\<close>, all of it, in order, unless a call
  reported the block as undecodable (\<open>sk\<close>) or its header has time 0; and the progress of a run over
  the blocks \<open>todo\<close>: it has handled the blocks \<open>ns\<close>, in order, the last of them is the persisted
  block (except in \<open>DebugMode\<close>, \<open>dbg\<close>, which persists nothing), and what it delivered beyond them (\<open>rest\<close>,
  empty unless it failed) is part of what the later blocks should deliver, in their order.
\<close>

definition deliveries :: "(u64 \<Rightarrow> log list) \<Rightarrow> (u64 \<Rightarrow> u64) \<Rightarrow> u64 \<Rightarrow> (log \<times> u64) list" where
  "deliveries logs time n = map (\<lambda>l. (l, time n)) (logs n)"

definition delivered :: "(u64 \<Rightarrow> log list) \<Rightarrow> (u64 \<Rightarrow> u64) \<Rightarrow> u64 set \<Rightarrow> u64 \<Rightarrow> (log \<times> u64) list \<Rightarrow> bool" where
  "delivered logs time sk n d \<longleftrightarrow>
     prefix d (deliveries logs time n) \<and> (n \<notin> sk \<and> time n \<noteq> 0 \<longrightarrow> d = deliveries logs time n)"

definition progressed :: "(u64 \<Rightarrow> log list) \<Rightarrow> (u64 \<Rightarrow> u64) \<Rightarrow> u64 set \<Rightarrow> bool \<Rightarrow> u64 list \<Rightarrow> goerr option \<Rightarrow>
    u64 \<Rightarrow> u64 \<Rightarrow> (log \<times> u64) list \<Rightarrow> (log \<times> u64) list \<Rightarrow> bool" where
  "progressed logs time sk dbg todo r lb lb' dv dv' \<longleftrightarrow>
     (\<exists>ns more ds rest. todo = ns @ more \<and> list_all2 (delivered logs time sk) ns ds \<and>
        dv' = dv @ concat ds @ rest \<and> subseq rest (concat (map (deliveries logs time) more)) \<and>
        lb' = (if dbg \<or> ns = [] then lb else last ns) \<and> (r = None \<longrightarrow> more = []))"

lemma progressed_none [intro]: "r = None \<longrightarrow> todo = [] \<Longrightarrow> progressed logs time sk dbg todo r lb lb dv dv"
  unfolding progressed_def by (intro exI [of _ "[]"] exI [of _ todo]) simp

text \<open>
  The block a sync counts as processed when it asks for the chain head: the persisted one \<open>n\<close> (or
  \<open>StartBlock - 1\<close> on a fresh start) unless the hash of \<open>n\<close> is remembered and the header fetched for
  it has another one, and then the position it rewinds to (\<open>headers\<close> are the headers clients report).
  When the head is below it, the chain was reset and \<open>StartBlock\<close> counts as processed instead.
\<close>

definition reorg_base :: "(u64 \<Rightarrow> header \<Rightarrow> bool) \<Rightarrow> Indexer \<Rightarrow> u64 \<Rightarrow> u64 \<Rightarrow> bool" where
  "reorg_base headers idx n b \<longleftrightarrow>
     (if ix_reorgDepth idx \<le> 0 \<or> n = 0 then b = n
      else case ix_recentHashes idx n of
        None \<Rightarrow> b = n
      | Some want \<Rightarrow> (\<exists>h. headers n h \<and>
          b = (if hdr_Hash h = want then n
               else rewind_target (ic_StartBlock (ix_config idx)) (ix_reorgDepth idx) n)))"

definition sync_base :: "(u64 \<Rightarrow> header \<Rightarrow> bool) \<Rightarrow> Indexer \<Rightarrow> u64 \<Rightarrow> u64 \<Rightarrow> u64 \<Rightarrow> bool" where
  "sync_base headers idx n cur base \<longleftrightarrow>
     (\<exists>b. reorg_base headers idx n b \<and> base = (if cur < b then ic_StartBlock (ix_config idx) else b))"

lemma sync_base_exhaustion [simp]:
  "sync_base headers (idx\<lparr>ix_exhaustion := t\<rparr>) n cur base \<longleftrightarrow> sync_base headers idx n cur base"
proof -
  have "ix_reorgDepth (idx\<lparr>ix_exhaustion := t\<rparr>) = ix_reorgDepth idx" "ix_config (idx\<lparr>ix_exhaustion := t\<rparr>) = ix_config idx"
    "ix_recentHashes (idx\<lparr>ix_exhaustion := t\<rparr>) = ix_recentHashes idx" by simp_all
  then show ?thesis unfolding sync_base_def reorg_base_def by (simp only:)
qed

lemma reorg_base_cases:
  "reorg_base headers idx n b \<Longrightarrow> b = n \<or> b = rewind_target (ic_StartBlock (ix_config idx)) (ix_reorgDepth idx) n"
  by (auto simp: reorg_base_def split: if_splits option.splits)

text \<open>The block ranges the sync engine asks a parallel round for.\<close>

definition round_bounds :: "u64 \<Rightarrow> u64 \<Rightarrow> bool" where
  "round_bounds a b \<longleftrightarrow> a \<le> b \<and> unat b < 2 ^ 63 \<and> unat b - unat a < 2 ^ 31 - 1"

locale sync_env =
  fixes P :: "'s ports" and chain :: string and ok :: "'s \<Rightarrow> bool" and lastb :: "'s \<Rightarrow> u64"
    and deliv :: "'s \<Rightarrow> (log \<times> u64) list" and skipped :: "'s \<Rightarrow> u64 set"
  assumes header_frame: "ok s \<Longrightarrow> pp_HeaderByNumber (pt_pool P) (big_SetUint64 n) s = (r, s') \<Longrightarrow>
      frame ok lastb deliv skipped s s' \<and> decode_skip skipped n (err_of_result r) s'"
    and logs_frame: "ok s \<Longrightarrow> pp_LogsByBlockNumber (pt_pool P) n s = (rl, s') \<Longrightarrow>
      frame ok lastb deliv skipped s s' \<and> decode_skip skipped n (err_of_result rl) s'"
    and range_frame: "ok s \<Longrightarrow> pp_LogsByBlockRange (pt_pool P) a b s = (rl, s') \<Longrightarrow> frame ok lastb deliv skipped s s'"
    and max_frame: "ok s \<Longrightarrow> pp_MaxLogBlockRange (pt_pool P) s = (m, s') \<Longrightarrow> frame ok lastb deliv skipped s s'"
    and plan_frame: "pp_parallel (pt_pool P) = Some pb \<Longrightarrow> ok s \<Longrightarrow> pb_ParallelLogPlan pb s = (pl, s') \<Longrightarrow>
      frame ok lastb deliv skipped s s'"
    and plan_bounds: "pp_parallel (pt_pool P) = Some pb \<Longrightarrow> ok s \<Longrightarrow> pb_ParallelLogPlan pb s = ((k, c), s') \<Longrightarrow>
      1 < k \<Longrightarrow> 0 < c \<Longrightarrow> c * k < 2 ^ 31 - 1"
    and parallel_frame: "pp_parallel (pt_pool P) = Some pb \<Longrightarrow> ok s \<Longrightarrow> round_bounds a b \<Longrightarrow>
      pb_LogsByBlockRangeParallel pb a b s = Some (rl, s') \<Longrightarrow> frame ok lastb deliv skipped s s'"
    and provider_frame: "ok s \<Longrightarrow> pp_GetProvider (pt_pool P) s = (g, s') \<Longrightarrow> frame ok lastb deliv skipped s s'"
    and number_frame: "ok s \<Longrightarrow> pp_BlockNumber (pt_pool P) s = (rn, s') \<Longrightarrow> frame ok lastb deliv skipped s s'"
    and after_frame: "ok s \<Longrightarrow> rs_After (pt_runtime P) d s = (timeout, s') \<Longrightarrow> frame ok lastb deliv skipped s s'"
    and exhausted_frame: "ok s \<Longrightarrow> frame ok lastb deliv skipped s (rs_OnExhausted (pt_runtime P) e s)"
    and get_ok: "ok s \<Longrightarrow> cs_GetLastBlock (pt_storage P) chain s = (rn, s') \<Longrightarrow>
      frame ok lastb deliv skipped s s' \<and> (\<forall>n. rn = Inr n \<longrightarrow> n = lastb s)"
    and set_ok: "ok s \<Longrightarrow> cs_SetLastBlock (pt_storage P) chain n s = (None, s') \<Longrightarrow>
      ok s' \<and> lastb s' = n \<and> deliv s' = deliv s \<and> skipped s \<subseteq> skipped s'"
    and set_error: "ok s \<Longrightarrow> cs_SetLastBlock (pt_storage P) chain n s = (Some e, s') \<Longrightarrow>
      frame ok lastb deliv skipped s s'"
    and dispatch_ok: "ok s \<Longrightarrow> bd_Dispatch (pt_dispatcher P) l t s = (None, s') \<Longrightarrow>
      ok s' \<and> lastb s' = lastb s \<and> deliv s' = deliv s @ [(l, t)] \<and> skipped s \<subseteq> skipped s'"
    and dispatch_error: "ok s \<Longrightarrow> bd_Dispatch (pt_dispatcher P) l t s = (Some e, s') \<Longrightarrow>
      frame ok lastb deliv skipped s s' \<and> decode_skip skipped (log_BlockNumber l) (Some e) s'"
    and scores_frame: "cs_scores (pt_storage P) = Some sc \<Longrightarrow> ok s \<Longrightarrow>
      ss_SetProviderScore sc p x y s = (re, s') \<Longrightarrow> frame ok lastb deliv skipped s s'"
    and get_scores_frame: "ok s \<Longrightarrow> pp_GetScores (pt_pool P) s = (xs, s') \<Longrightarrow> frame ok lastb deliv skipped s s'"
    and quota_frame: "cs_quotas (pt_storage P) = Some qs \<Longrightarrow> ok s \<Longrightarrow> pp_PersistQuotaUsage (pt_pool P) qs s = (re, s') \<Longrightarrow> frame ok lastb deliv skipped s s'"
begin

abbreviation same :: "'s \<Rightarrow> 's \<Rightarrow> bool" where
  "same \<equiv> frame ok lastb deliv skipped"

lemma save_scores_frame:
  "cs_scores (pt_storage P) = Some sc \<Longrightarrow> ok s \<Longrightarrow> same s (save_scores sc xs s)"
proof (induction xs arbitrary: s)
  case Nil
  then show ?case by (simp add: frame_refl)
next
  case (Cons x xs)
  obtain p v where x: "x = (p, v)" by (cases x)
  have "same s (snd (ss_SetProviderScore sc p v (Fin 0) s))"
    using scores_frame [OF Cons.prems, of p v "Fin 0"] by (metis prod.collapse)
  with Cons x show ?case by (auto intro: frame_trans simp: frame_def)
qed

lemma persist_frame: "ok s \<Longrightarrow> same s (persistProviderState P s)"
proof -
  assume ok: "ok s"
  define s1 where "s1 = (case cs_scores (pt_storage P) of None \<Rightarrow> s
    | Some sc \<Rightarrow> (case pp_GetScores (pt_pool P) s of (xs, s') \<Rightarrow> save_scores sc xs s'))"
  have "same s s1"
  proof (cases "cs_scores (pt_storage P)")
    case None
    with ok show ?thesis by (simp add: s1_def frame_refl)
  next
    case (Some sc)
    obtain xs s' where g: "pp_GetScores (pt_pool P) s = (xs, s')" by (cases "pp_GetScores (pt_pool P) s")
    from get_scores_frame [OF ok g] have "same s s'" .
    moreover from this have "same s' (save_scores sc xs s')"
      using save_scores_frame [OF Some] by (simp add: frame_def)
    ultimately show ?thesis using Some g by (auto simp: s1_def intro: frame_trans)
  qed
  moreover from this have "same s1 (persistProviderState P s)"
    using quota_frame [where s = s1]
    by (auto simp: persistProviderState_def s1_def [symmetric] Let_def frame_def prod_eq_iff split: option.splits)
  ultimately show ?thesis by (rule frame_trans)
qed

lemma record_tip_frame:
  assumes "ok s" and "record_tip P e idx s = (idx', s')"
  shows "same s s'" and "ix_config idx' = ix_config idx"
  using assms header_frame [of s e]
  by (auto simp: record_tip_def recordBlockHash_def Let_def frame_refl split: if_splits prod.splits sum.splits)

lemma store_ok:
  assumes "ok s" and "ic_Chain (ix_config idx) = chain" and "ic_DebugMode (ix_config idx) = dbg"
    and "storeLastBlock P idx n s = (r, s')"
  shows "r = None \<Longrightarrow> ok s' \<and> lastb s' = (if dbg then lastb s else n) \<and> deliv s' = deliv s \<and> skipped s \<subseteq> skipped s'"
    and "r = Some e \<Longrightarrow> same s s'"
  using assms set_ok [of s n s'] set_error [of s n e s'] by (auto simp: storeLastBlock_def frame_refl split: if_splits)

lemma parallel_part_config:
  "parallel_part P cur a idx s = Continue (a', idx', s') \<Longrightarrow> ix_config idx' = ix_config idx"
  "parallel_part P cur a idx s = Fallthrough (a', idx', s') \<Longrightarrow> idx' = idx \<and> a' = a"
  by (auto simp: parallel_part_def applyBatchChunk_def record_tip_def recordBlockHash_def Let_def
      split: option.splits prod.splits sum.splits if_splits)

end

end
