(* ===== verification/Sync_Chain.thy ===== *)
theory Sync_Chain
  imports Sync_Env
begin

text \<open>
  Delivery of the logs of a stable chain: what the two sync paths hand to the dispatcher, in which
  order, and how that relates to the progress they persist.
\<close>

locale sync_chain = sync_env +
  fixes chain_logs :: "u64 \<Rightarrow> log list" and chain_time :: "u64 \<Rightarrow> u64"
  assumes header_true: "ok s \<Longrightarrow> pp_HeaderByNumber (pt_pool P) (big_SetUint64 n) s = (Inr h, s') \<Longrightarrow>
      hdr_Time h = chain_time n"
    and logs_true: "ok s \<Longrightarrow> pp_LogsByBlockNumber (pt_pool P) n s = (Inr ls, s') \<Longrightarrow> ls = chain_logs n"
    and range_true: "ok s \<Longrightarrow> a \<le> b \<Longrightarrow> pp_LogsByBlockRange (pt_pool P) a b s = (Inr ls, s') \<Longrightarrow>
      ls = concat (map chain_logs (blocks a b))"
    and parallel_true: "pp_parallel (pt_pool P) = Some pb \<Longrightarrow> ok s \<Longrightarrow> round_bounds a b \<Longrightarrow>
      pb_LogsByBlockRangeParallel pb a b s = Some (Inr ls, s') \<Longrightarrow> ls = concat (map chain_logs (blocks a b))"
    and logs_number: "l \<in> set (chain_logs n) \<Longrightarrow> log_BlockNumber l = n"
begin

abbreviation expected :: "u64 \<Rightarrow> (log \<times> u64) list" where
  "expected \<equiv> deliveries chain_logs chain_time"

abbreviation block_done :: "'a \<Rightarrow> u64 \<Rightarrow> (log \<times> u64) list \<Rightarrow> bool" where
  "block_done s \<equiv> delivered chain_logs chain_time (skipped s)"

lemma block_done_mono: "block_done s n d \<Longrightarrow> skipped s \<subseteq> skipped s' \<Longrightarrow> block_done s' n d"
  by (auto simp: delivered_def)

lemma blocks_done_mono:
  "list_all2 (block_done s) ns ds \<Longrightarrow> skipped s \<subseteq> skipped s' \<Longrightarrow> list_all2 (block_done s') ns ds"
  by (erule list_all2_mono) (rule block_done_mono)

section \<open>The sequential path\<close>

lemma dispatch_logs_spec:
  assumes "ok s" and "dispatch_logs P t ls s = (r, s')"
  shows "ok s' \<and> lastb s' = lastb s \<and> skipped s \<subseteq> skipped s' \<and>
         (\<exists>done. prefix done ls \<and> deliv s' = deliv s @ map (\<lambda>l. (l, t)) done \<and>
            (r = None \<longrightarrow> done = ls) \<and>
            (\<forall>e. r = Some e \<longrightarrow> (\<exists>l \<in> set ls. decode_skip skipped (log_BlockNumber l) (Some e) s')))"
  using assms
proof (induction ls arbitrary: s)
  case Nil
  then show ?case by simp
next
  case (Cons l ls)
  obtain e s1 where d: "bd_Dispatch (pt_dispatcher P) l t s = (e, s1)" by (cases "bd_Dispatch (pt_dispatcher P) l t s")
  show ?case
  proof (cases e)
    case (Some err)
    with d Cons.prems have r: "r = Some err" "s' = s1" by auto
    with dispatch_error [OF Cons.prems(1) d [unfolded Some]] show ?thesis
      by (auto simp: frame_def intro!: exI [of _ "[]"])
  next
    case None
    with d Cons.prems have "dispatch_logs P t ls s1 = (r, s')" by simp
    moreover note dok = dispatch_ok [OF Cons.prems(1) d [unfolded None]]
    ultimately obtain "done" where dn: "prefix done ls" "deliv s' = deliv s1 @ map (\<lambda>l. (l, t)) done"
      "r = None \<longrightarrow> done = ls" "\<forall>e. r = Some e \<longrightarrow> (\<exists>l \<in> set ls. decode_skip skipped (log_BlockNumber l) (Some e) s')"
      "ok s'" "lastb s' = lastb s1" "skipped s1 \<subseteq> skipped s'"
      using Cons.IH [of s1] by blast
    have "prefix (l # done) (l # ls)" "deliv s' = deliv s @ map (\<lambda>l. (l, t)) (l # done)"
      "r = None \<longrightarrow> l # done = l # ls" using dn dok by auto
    moreover have "ok s' \<and> lastb s' = lastb s \<and> skipped s \<subseteq> skipped s'" using dn dok by auto
    moreover have "\<forall>e. r = Some e \<longrightarrow> (\<exists>x \<in> set (l # ls). decode_skip skipped (log_BlockNumber x) (Some e) s')"
      using dn(4) by auto
    ultimately show ?thesis by blast
  qed
qed

lemma processBlock_spec:
  assumes "ok s" and p: "processBlock P n idx s = (r, idx', s')"
  shows "ok s' \<and> lastb s' = lastb s \<and> skipped s \<subseteq> skipped s' \<and> ix_config idx' = ix_config idx \<and>
         (\<exists>d. deliv s' = deliv s @ d \<and> prefix d (expected n) \<and> (r = None \<longrightarrow> d = expected n) \<and>
            (isLocalDecodeError r \<longrightarrow> n \<in> skipped s'))"
proof -
  have y: "CHR ''y'' \<notin> set ''failed to get header for block ''" "CHR ''y'' \<notin> set ''failed to get logs for block ''"
    "CHR ''y'' \<notin> set ''failed to dispatch log for block ''" by simp_all
  note dec = isLocalDecodeError_block_error [OF y(1)] isLocalDecodeError_block_error [OF y(2)]
    isLocalDecodeError_block_error [OF y(3)]
  obtain hr s1 where h: "pp_HeaderByNumber (pt_pool P) (big_SetUint64 n) s = (hr, s1)"
    by (cases "pp_HeaderByNumber (pt_pool P) (big_SetUint64 n) s")
  note f1 = header_frame [OF assms(1) h]
  show ?thesis
  proof (cases hr)
    case (Inl e)
    with p h f1 show ?thesis by (auto simp: processBlock_def dec frame_def decode_skip_def)
  next
    case (Inr hdr)
    have t: "hdr_Time hdr = chain_time n" using header_true [OF assms(1)] h Inr by blast
    have ok1: "ok s1" using f1 by (simp add: frame_def)
    obtain lr s2 where l: "pp_LogsByBlockNumber (pt_pool P) n s1 = (lr, s2)"
      by (cases "pp_LogsByBlockNumber (pt_pool P) n s1")
    note f2 = logs_frame [OF ok1 l]
    have idx1: "ix_config (recordBlockHash n x idx) = ix_config idx" for x
      by (simp add: recordBlockHash_def Let_def split: prod.splits)
    show ?thesis
    proof (cases lr)
      case (Inl e)
      with p h \<open>hr = Inr hdr\<close> l f1 f2 idx1 show ?thesis by (auto simp: processBlock_def dec frame_def decode_skip_def)
    next
      case (Inr logs)
      have logs: "logs = chain_logs n" using logs_true [OF ok1] l Inr by blast
      have ok2: "ok s2" using f2 by (simp add: frame_def)
      obtain dr s3 where d: "dispatch_logs P (hdr_Time hdr) logs s2 = (dr, s3)"
        by (cases "dispatch_logs P (hdr_Time hdr) logs s2")
      from dispatch_logs_spec [OF ok2 d] obtain dn where dn: "ok s3" "lastb s3 = lastb s2" "skipped s2 \<subseteq> skipped s3"
        "prefix dn logs" "deliv s3 = deliv s2 @ map (\<lambda>l. (l, hdr_Time hdr)) dn" "dr = None \<longrightarrow> dn = logs"
        "\<forall>e. dr = Some e \<longrightarrow> (\<exists>l \<in> set logs. decode_skip skipped (log_BlockNumber l) (Some e) s3)" by blast
      have s3: "s' = s3" "r = map_option (block_error ''failed to dispatch log for block '' n) dr"
        "idx' = recordBlockHash n (hdr_Hash hdr) idx"
        using p h \<open>hr = Inr hdr\<close> l Inr d by (auto simp: processBlock_def Let_def split: option.splits)
      have "prefix (map (\<lambda>l. (l, hdr_Time hdr)) dn) (expected n)"
        using dn(4) logs t by (simp add: deliveries_def map_mono_prefix)
      moreover have "r = None \<longrightarrow> map (\<lambda>l. (l, hdr_Time hdr)) dn = expected n"
        using dn(6) logs t s3 by (simp add: deliveries_def)
      moreover have "isLocalDecodeError r \<longrightarrow> n \<in> skipped s'"
        using dn(7) s3 logs logs_number by (cases dr) (auto simp: dec decode_skip_def)
      moreover have "deliv s' = deliv s @ map (\<lambda>l. (l, hdr_Time hdr)) dn" using dn(5) s3 f1 f2 by (simp add: frame_def)
      ultimately show ?thesis using dn(1-3) s3 f1 f2 idx1 by (auto simp: frame_def)
    qed
  qed
qed

section \<open>The loop invariant\<close>

text \<open>
  Between iterations: the blocks of the range below \<open>n\<close> have been handled, in order, and the
  progress is the last of them.
\<close>

definition sync_inv :: "bool \<Rightarrow> u64 \<Rightarrow> u64 \<Rightarrow> 'a \<Rightarrow> u64 \<Rightarrow> 'a \<Rightarrow> bool" where
  "sync_inv dbg a cur s0 n s \<longleftrightarrow> ok s \<and> skipped s0 \<subseteq> skipped s \<and>
     (\<exists>ns ds. blocks a cur = ns @ blocks n cur \<and> list_all2 (block_done s) ns ds \<and>
        deliv s = deliv s0 @ concat ds \<and> lastb s = (if dbg \<or> ns = [] then lastb s0 else last ns))"

text \<open>After the path has returned with the error \<open>r\<close>.\<close>

definition sync_post :: "bool \<Rightarrow> u64 \<Rightarrow> u64 \<Rightarrow> 'a \<Rightarrow> goerr option \<Rightarrow> 'a \<Rightarrow> bool" where
  "sync_post dbg a cur s0 r s \<longleftrightarrow> ok s \<and> skipped s0 \<subseteq> skipped s \<and>
     progressed chain_logs chain_time (skipped s) dbg (blocks a cur) r (lastb s0) (lastb s) (deliv s0) (deliv s)"

lemma sync_inv_start: "ok s \<Longrightarrow> sync_inv dbg a cur s a s"
  unfolding sync_inv_def by (auto intro!: exI [of _ "[]"])

lemma sync_inv_frame:
  assumes "sync_inv dbg a cur s0 n s" and "same s s'"
  shows "sync_inv dbg a cur s0 n s'"
proof -
  have sk: "skipped s \<subseteq> skipped s'" using assms(2) by (simp add: frame_def)
  show ?thesis using assms blocks_done_mono [OF _ sk] unfolding sync_inv_def frame_def by fastforce
qed

lemma blocks_cut:
  assumes "n \<le> e" and "e \<le> cur" and "unat cur < 2 ^ 63"
  shows "blocks n e @ blocks (e + 1) cur = blocks n cur"
proof (cases "e = cur")
  case True
  have "unat (e + 1) = Suc (unat e)" using True assms(3) by (intro trans [OF unat_u64_add]) auto
  with True have "blocks (e + 1) cur = []" by (intro blocks_empty) (simp add: u64_less)
  with True show ?thesis by simp
next
  case False
  with assms(1,2) show ?thesis by (intro blocks_append) auto
qed

lemma sync_inv_step:
  assumes inv: "sync_inv dbg a cur s0 n s" and "n \<le> e" and "e \<le> cur" and "unat cur < 2 ^ 63"
    and s': "ok s'" "skipped s \<subseteq> skipped s'" "list_all2 (block_done s') (blocks n e) ds'"
      "deliv s' = deliv s @ concat ds'" "lastb s' = (if dbg then lastb s else e)"
  shows "sync_inv dbg a cur s0 (e + 1) s'"
proof -
  obtain ns ds where i: "blocks a cur = ns @ blocks n cur" "list_all2 (block_done s) ns ds"
    "deliv s = deliv s0 @ concat ds" "skipped s0 \<subseteq> skipped s" "dbg \<Longrightarrow> lastb s = lastb s0"
    using inv by (auto simp: sync_inv_def)
  note blocks_cut [OF assms(2-4)]
  moreover have "last (blocks n e) = e \<and> blocks n e \<noteq> []"
    using assms(2) by (auto simp: blocks_def u64_le last_map simp del: upt_Suc)
  moreover have "list_all2 (block_done s') (ns @ blocks n e) (ds @ ds')"
    using blocks_done_mono [OF i(2) s'(2)] s'(3) by (rule list_all2_appendI)
  ultimately show ?thesis unfolding sync_inv_def using i s'
    by (intro conjI exI [of _ "ns @ blocks n e"] exI [of _ "ds @ ds'"]) auto
qed

lemma sync_inv_exit:
  assumes "sync_inv dbg a cur s0 n s" and "\<not> n \<le> cur"
  shows "sync_post dbg a cur s0 None s"
proof -
  have "blocks n cur = []" using assms(2) by (simp add: blocks_empty)
  with assms(1) obtain ns ds where "ok s" "skipped s0 \<subseteq> skipped s" "blocks a cur = ns" "list_all2 (block_done s) ns ds"
    "deliv s = deliv s0 @ concat ds" "lastb s = (if dbg \<or> ns = [] then lastb s0 else last ns)" by (auto simp: sync_inv_def)
  then show ?thesis unfolding sync_post_def progressed_def
    by (intro conjI exI [of _ ns] exI [of _ "[]"] exI [of _ ds]) auto
qed

lemma sync_inv_error:
  assumes inv: "sync_inv dbg a cur s0 n s"
    and s': "ok s'" "skipped s \<subseteq> skipped s'" "deliv s' = deliv s @ rest" "lastb s' = lastb s"
    and rest: "subseq rest (concat (map expected (blocks n cur)))"
  shows "sync_post dbg a cur s0 (Some e) s'"
proof -
  obtain ns ds where i: "blocks a cur = ns @ blocks n cur" "list_all2 (block_done s) ns ds"
    "deliv s = deliv s0 @ concat ds" "skipped s0 \<subseteq> skipped s" "lastb s = (if dbg \<or> ns = [] then lastb s0 else last ns)"
    using inv by (auto simp: sync_inv_def)
  then show ?thesis unfolding sync_post_def progressed_def using s' rest blocks_done_mono [OF i(2) s'(2)]
    by (intro conjI exI [of _ ns] exI [of _ "blocks n cur"] exI [of _ ds] exI [of _ rest]) auto
qed

end

end
