(* ===== verification/Sync_Paths.thy ===== *)
theory Sync_Paths
  imports Sync_Chain
begin

text \<open>
  The two sync paths against the contracts: both return, both deliver the logs of the requested
  range block by block in ascending order, and neither persists progress beyond what it has
  delivered.
\<close>

section \<open>The sequential path\<close>

context sync_chain
begin

lemma seq_body_step:
  assumes inv: "sync_inv dbg a cur s0 n s" and cfg: "ic_Chain (ix_config idx) = chain" "ic_DebugMode (ix_config idx) = dbg"
    and cur: "unat cur < 2 ^ 63" and body: "seq_body P cur (n, idx, s) = Inr (n', idx', s')"
  shows "n \<le> cur \<and> n' = n + 1 \<and> sync_inv dbg a cur s0 n' s' \<and> ix_config idx' = ix_config idx"
proof -
  have ok: "ok s" using inv by (simp add: sync_inv_def)
  obtain r s1 where p: "processBlock P n idx s = (r, idx', s1)"
    and dec: "r = None \<or> isLocalDecodeError r" and n: "n \<le> cur" "n' = n + 1"
    using body by (auto simp: seq_body_def split: if_splits prod.splits option.splits)
  note sp = processBlock_spec [OF ok p]
  then obtain d where d: "deliv s1 = deliv s @ d" "prefix d (expected n)" "r = None \<longrightarrow> d = expected n"
    "isLocalDecodeError r \<longrightarrow> n \<in> skipped s1" by blast
  obtain s2 where st: "storeLastBlock P idx' n s1 = (None, s2)" "s' = persistProviderState P s2"
    using body p n by (auto simp: seq_body_def split: option.splits prod.splits if_splits)
  have st2: "ok s2 \<and> lastb s2 = (if dbg then lastb s1 else n) \<and> deliv s2 = deliv s1 \<and> skipped s1 \<subseteq> skipped s2"
    using store_ok(1) [OF _ _ _ st(1)] sp cfg by simp
  then have f: "same s2 s'" using persist_frame st(2) by simp
  have "block_done s1 n d" using d dec by (auto simp: delivered_def)
  then have "block_done s' n d" using block_done_mono st2 f by (auto simp: frame_def)
  then have "list_all2 (block_done s') (blocks n n) [d]" by simp
  moreover have "deliv s' = deliv s @ concat [d]" "ok s'" "skipped s \<subseteq> skipped s'" "lastb s' = (if dbg then lastb s else n)"
    using d(1) sp st2 f by (auto simp: frame_def)
  ultimately have "sync_inv dbg a cur s0 (n + 1) s'" by (intro sync_inv_step [OF inv _ n(1) cur]) auto
  with n sp show ?thesis by simp
qed

lemma seq_body_exit:
  assumes inv: "sync_inv dbg a cur s0 n s" and cfg: "ic_Chain (ix_config idx) = chain" "ic_DebugMode (ix_config idx) = dbg"
    and body: "seq_body P cur (n, idx, s) = Inl (r, idx', s')"
  shows "sync_post dbg a cur s0 r s' \<and> ix_config idx' = ix_config idx"
proof (cases "n \<le> cur")
  case False
  with body inv show ?thesis by (auto simp: seq_body_def intro: sync_inv_exit)
next
  case True
  have ok: "ok s" using inv by (simp add: sync_inv_def)
  obtain pr idx1 s1 where p: "processBlock P n idx s = (pr, idx1, s1)" by (cases "processBlock P n idx s")
  note sp = processBlock_spec [OF ok p]
  then obtain d where d: "deliv s1 = deliv s @ d" "prefix d (expected n)" by blast
  have "hd (blocks n cur) = n" "blocks n cur \<noteq> []" using True by (auto simp: blocks_def u64_le hd_map simp del: upt_Suc)
  then have "concat (map expected (blocks n cur)) = expected n @ concat (map expected (tl (blocks n cur)))" by (cases "blocks n cur") auto
  then have rest: "subseq d (concat (map expected (blocks n cur)))"
    using prefix_imp_subseq [OF d(2)] by (simp add: subseq_append_prefix)
  consider (stop) e where "r = Some e" "idx' = idx1" "s' = s1"
    | (store) e e' where "storeLastBlock P idx1 n s1 = (Some e', s')" "r = Some e" "idx' = idx1"
    using body p True by (auto simp: seq_body_def split: if_splits prod.splits option.splits)
  then show ?thesis
  proof cases
    case stop
    with sp d show ?thesis using sync_inv_error [OF inv, of s1 d] rest by simp
  next
    case store
    have "same s1 s'" using store_ok(2) [OF _ _ _ store(1)] sp cfg by simp
    with sp d store show ?thesis using sync_inv_error [OF inv, of s' d] rest by (auto simp: frame_def)
  qed
qed

lemma syncBlocksSequential_spec:
  assumes "ok s" and cfg: "ic_Chain (ix_config idx) = chain" "ic_DebugMode (ix_config idx) = dbg" and cur: "unat cur < 2 ^ 63"
  shows "\<exists>r idx' s'. syncBlocksSequential P a cur idx s = Some (r, idx', s') \<and> sync_post dbg a cur s r s' \<and>
           ix_config idx' = ix_config idx"
proof -
  let ?I = "\<lambda>(n, idx', s'). sync_inv dbg a cur s n s' \<and> ix_config idx' = ix_config idx"
  let ?Q = "\<lambda>(r, idx', s'). sync_post dbg a cur s r s' \<and> ix_config idx' = ix_config idx"
  have "\<exists>r. go_for (seq_body P cur) (a, idx, s) = Some r \<and> ?Q r"
  proof (rule go_for_total [where R = "measure (\<lambda>(n, _). Suc (unat cur) - unat n)" and I = ?I])
    show "?I (a, idx, s)" using assms(1) by (simp add: sync_inv_start)
  next
    fix st r
    assume I: "?I st" and out: "seq_body P cur st = Inl r"
    obtain n idx1 s1 r' idx2 s2 where "st = (n, idx1, s1)" "r = (r', idx2, s2)" by (metis prod_cases3)
    with I out show "?Q r" using seq_body_exit [of dbg a cur s n s1 idx1 r' idx2 s2] cfg by auto
  next
    fix st st'
    assume I: "?I st" and step: "seq_body P cur st = Inr st'"
    obtain n idx1 s1 n' idx2 s2 where st: "st = (n, idx1, s1)" "st' = (n', idx2, s2)" by (metis prod_cases3)
    from I step st have n: "n \<le> cur \<and> n' = n + 1 \<and> sync_inv dbg a cur s n' s2 \<and> ix_config idx2 = ix_config idx1"
      using seq_body_step [of dbg a cur s n s1 idx1 n' idx2 s2] cfg cur by auto
    then have "unat n' = Suc (unat n)" using cur by (auto simp: u64_le intro!: trans [OF unat_u64_add])
    with n I st show "?I st' \<and> (st', st) \<in> measure (\<lambda>(n, _). Suc (unat cur) - unat n)"
      by (auto simp: u64_le)
  qed simp
  then show ?thesis unfolding syncBlocksSequential_def by auto
qed

end

section \<open>The batched path\<close>

locale sync_limits = sync_chain +
  fixes heads :: "u64 \<Rightarrow> bool" and headers :: "u64 \<Rightarrow> header \<Rightarrow> bool"
  assumes max_bounds: "ok s \<Longrightarrow> pp_MaxLogBlockRange (pt_pool P) s = (m, s') \<Longrightarrow> 1 \<le> m \<and> m < 2 ^ 63"
    and parallel_returns: "pp_parallel (pt_pool P) = Some pb \<Longrightarrow> ok s \<Longrightarrow> round_bounds a b \<Longrightarrow>
      pb_LogsByBlockRangeParallel pb a b s \<noteq> None"
    and number_bound: "ok s \<Longrightarrow> pp_BlockNumber (pt_pool P) s = (Inr c, s') \<Longrightarrow> heads c \<and> unat c < 2 ^ 63"
    and header_reported: "ok s \<Longrightarrow> pp_HeaderByNumber (pt_pool P) (big_SetUint64 n) s = (Inr h, s') \<Longrightarrow> headers n h"

context sync_chain
begin

text \<open>
  The header times resolved so far: the true time, or 0 for a block reported as undecodable.
\<close>

definition times_ok :: "(u64 \<rightharpoonup> u64) \<Rightarrow> 'a \<Rightarrow> bool" where
  "times_ok bt s \<longleftrightarrow> (\<forall>n t. bt n = Some t \<longrightarrow> t = chain_time n \<or> t = 0 \<and> n \<in> skipped s)"

definition stamp :: "log \<Rightarrow> log \<times> u64" where
  "stamp l = (l, chain_time (log_BlockNumber l))"

text \<open>
  What \<open>apply_logs\<close> does: \<open>K\<close> is the set of blocks whose logs it delivers.
\<close>

definition applied :: "log list \<Rightarrow> (u64 \<rightharpoonup> u64) \<Rightarrow> 'a \<Rightarrow> goerr option \<Rightarrow> 'a \<Rightarrow> bool" where
  "applied logs bt s r s' \<longleftrightarrow> ok s' \<and> lastb s' = lastb s \<and> skipped s \<subseteq> skipped s' \<and>
     (\<exists>rest. deliv s' = deliv s @ rest \<and> subseq rest (map stamp logs)) \<and>
     (r = None \<longrightarrow> (\<exists>K. deliv s' = deliv s @ map stamp (filter (\<lambda>l. log_BlockNumber l \<in> K) logs) \<and>
        (\<forall>l \<in> set logs. log_BlockNumber l \<notin> K \<longrightarrow>
           log_BlockNumber l \<in> skipped s' \<or> chain_time (log_BlockNumber l) = 0) \<and>
        (\<forall>n t. bt n = Some t \<longrightarrow> (n \<in> K \<longleftrightarrow> t \<noteq> 0))))"

lemma applied_skip:
  assumes a: "applied logs bt s1 r s'" and f: "same s s1" and t: "bt (log_BlockNumber l) = Some 0"
    and why: "log_BlockNumber l \<in> skipped s1 \<or> chain_time (log_BlockNumber l) = 0"
    and sub: "\<And>n t. bt0 n = Some t \<Longrightarrow> bt n = Some t"
  shows "applied (l # logs) bt0 s r s'"
proof -
  have "\<exists>K. deliv s' = deliv s @ map stamp (filter (\<lambda>l. log_BlockNumber l \<in> K) (l # logs)) \<and>
    (\<forall>x \<in> set (l # logs). log_BlockNumber x \<notin> K \<longrightarrow> log_BlockNumber x \<in> skipped s' \<or> chain_time (log_BlockNumber x) = 0) \<and>
    (\<forall>n t. bt0 n = Some t \<longrightarrow> (n \<in> K \<longleftrightarrow> t \<noteq> 0))" if none: "r = None"
  proof -
    obtain K where K: "deliv s' = deliv s1 @ map stamp (filter (\<lambda>l. log_BlockNumber l \<in> K) logs)"
      "\<forall>l \<in> set logs. log_BlockNumber l \<notin> K \<longrightarrow> log_BlockNumber l \<in> skipped s' \<or> chain_time (log_BlockNumber l) = 0"
      "\<forall>n t. bt n = Some t \<longrightarrow> (n \<in> K \<longleftrightarrow> t \<noteq> 0)" using a none unfolding applied_def by blast
    have "log_BlockNumber l \<notin> K" using K(3) t by auto
    moreover have "skipped s1 \<subseteq> skipped s'" using a by (simp add: applied_def)
    ultimately show ?thesis using K f why sub by (intro exI [of _ K]) (auto simp: frame_def)
  qed
  with a f show ?thesis by (auto simp: applied_def frame_def)
qed

lemma applied_deliver:
  assumes a: "applied logs bt s2 r s'" and f: "same s s1" and t: "bt (log_BlockNumber l) = Some (chain_time (log_BlockNumber l))"
    and nz: "chain_time (log_BlockNumber l) \<noteq> 0"
    and d: "ok s2 \<and> lastb s2 = lastb s1 \<and> deliv s2 = deliv s1 @ [stamp l] \<and> skipped s1 \<subseteq> skipped s2"
    and sub: "\<And>n t. bt0 n = Some t \<Longrightarrow> bt n = Some t"
  shows "applied (l # logs) bt0 s r s'"
proof -
  have "\<exists>K. deliv s' = deliv s @ map stamp (filter (\<lambda>l. log_BlockNumber l \<in> K) (l # logs)) \<and>
    (\<forall>x \<in> set (l # logs). log_BlockNumber x \<notin> K \<longrightarrow> log_BlockNumber x \<in> skipped s' \<or> chain_time (log_BlockNumber x) = 0) \<and>
    (\<forall>n t. bt0 n = Some t \<longrightarrow> (n \<in> K \<longleftrightarrow> t \<noteq> 0))" if none: "r = None"
  proof -
    obtain K where K: "deliv s' = deliv s2 @ map stamp (filter (\<lambda>l. log_BlockNumber l \<in> K) logs)"
      "\<forall>l \<in> set logs. log_BlockNumber l \<notin> K \<longrightarrow> log_BlockNumber l \<in> skipped s' \<or> chain_time (log_BlockNumber l) = 0"
      "\<forall>n t. bt n = Some t \<longrightarrow> (n \<in> K \<longleftrightarrow> t \<noteq> 0)" using a none unfolding applied_def by blast
    have "log_BlockNumber l \<in> K" using K(3) t nz by auto
    then show ?thesis using K f d sub by (intro exI [of _ K]) (auto simp: frame_def)
  qed
  with a f d show ?thesis by (auto simp: applied_def frame_def)
qed

lemma applied_error:
  assumes "same s s1" and "ok s1 \<Longrightarrow> ok s'" and "lastb s' = lastb s1" and "deliv s' = deliv s1" and "skipped s1 \<subseteq> skipped s'"
  shows "applied logs bt s (Some e) s'"
  using assms by (auto simp: applied_def frame_def)

lemma same_refl: "ok s \<Longrightarrow> same s s"
  by (rule frame_refl)

text \<open>The part of an iteration after the time \<open>t\<close> of the block is known.\<close>

lemma applied_timed:
  assumes IH: "\<And>bt s. apply_logs P logs bt s = (r, s') \<Longrightarrow> ok s \<Longrightarrow> times_ok bt s \<Longrightarrow> applied logs bt s r s'"
    and f: "same s s1" and t: "bt' (log_BlockNumber l) = Some t"
    and tt: "t = chain_time (log_BlockNumber l) \<or> t = 0 \<and> log_BlockNumber l \<in> skipped s1"
    and ok1: "times_ok bt' s1" and sub: "\<And>n t. bt n = Some t \<Longrightarrow> bt' n = Some t"
    and run: "(if t = 0 then apply_logs P logs bt' s1
               else case bd_Dispatch (pt_dispatcher P) l t s1 of
                  (Some err, s2) \<Rightarrow> (Some (block_error ''failed to dispatch log for block '' (log_BlockNumber l) err), s2)
                | (None, s2) \<Rightarrow> apply_logs P logs bt' s2) = (r, s')"
  shows "applied (l # logs) bt s r s'"
proof (cases "t = 0")
  case True
  have "ok s1" using f by (simp add: frame_def)
  with True run ok1 have "applied logs bt' s1 r s'" by (simp add: IH)
  then show ?thesis by (rule applied_skip [OF _ f]) (use t tt True sub in auto)
next
  case False
  with tt have tc: "t = chain_time (log_BlockNumber l)" by simp
  have oks1: "ok s1" using f by (simp add: frame_def)
  obtain e s2 where d: "bd_Dispatch (pt_dispatcher P) l t s1 = (e, s2)" by (cases "bd_Dispatch (pt_dispatcher P) l t s1")
  show ?thesis
  proof (cases e)
    case None
    note dok = dispatch_ok [OF oks1 d [unfolded None]]
    have "times_ok bt' s2" using ok1 dok by (auto simp: times_ok_def)
    then have "applied logs bt' s2 r s'" using run False d None IH dok by simp
    then show ?thesis by (rule applied_deliver [OF _ f]) (use t tc False dok sub in \<open>auto simp: stamp_def\<close>)
  next
    case (Some err)
    with run False d dispatch_error [OF oks1 d [unfolded Some]] show ?thesis
      by (auto simp: frame_def intro!: applied_error [OF f])
  qed
qed

lemma apply_logs_spec:
  "apply_logs P logs bt s = (r, s') \<Longrightarrow> ok s \<Longrightarrow> times_ok bt s \<Longrightarrow> applied logs bt s r s'"
proof (induction logs arbitrary: bt s)
  case Nil
  then show ?case
    by (auto simp: applied_def times_ok_def intro!: exI [of _ "{n. bt n \<noteq> None \<and> bt n \<noteq> Some 0}"])
next
  case (Cons l logs)
  let ?n = "log_BlockNumber l"
  obtain hr s1 where h: "pp_HeaderByNumber (pt_pool P) (big_SetUint64 ?n) s = (hr, s1)"
    by (cases "pp_HeaderByNumber (pt_pool P) (big_SetUint64 ?n) s")
  note f = header_frame [OF Cons.prems(2) h]
  consider (known) t where "bt ?n = Some t" | (fetched) hdr where "bt ?n = None" "hr = Inr hdr"
    | (undecodable) err where "bt ?n = None" "hr = Inl err" "isLocalDecodeError (Some err)"
    | (failed) err where "bt ?n = None" "hr = Inl err" "\<not> isLocalDecodeError (Some err)" by (cases "bt ?n"; cases hr) auto
  then show ?case
  proof cases
    case known
    show ?thesis
      by (rule applied_timed [OF Cons.IH same_refl [OF Cons.prems(2)] known _ Cons.prems(3)])
        (use known Cons.prems in \<open>auto simp: times_ok_def Let_def\<close>)
  next
    case fetched
    have t: "hdr_Time hdr = chain_time ?n" using header_true [OF Cons.prems(2)] h fetched by blast
    show ?thesis
      by (rule applied_timed [OF Cons.IH, where bt' = "bt(?n \<mapsto> hdr_Time hdr)" and t = "hdr_Time hdr" and ?s1.0 = s1])
        (use f t fetched h Cons.prems in \<open>auto simp: times_ok_def frame_def Let_def\<close>)
  next
    case undecodable
    then have sk: "?n \<in> skipped s1" using f by (simp add: decode_skip_def)
    have t: "times_ok (bt(?n \<mapsto> 0)) s1" using Cons.prems(3) f sk by (auto simp: times_ok_def frame_def)
    have run: "apply_logs P logs (bt(?n \<mapsto> 0)) s1 = (r, s')" using Cons.prems(1) undecodable h by (simp add: Let_def)
    have "ok s1" using f by (simp add: frame_def)
    from Cons.IH [OF run this t] show ?thesis by (rule applied_skip) (use f sk undecodable in auto)
  next
    case failed
    with Cons.prems(1) h f show ?thesis by (auto simp: Let_def frame_def intro!: applied_error [of s s1])
  qed
qed

lemma stamp_chunk:
  "map stamp (filter (\<lambda>l. log_BlockNumber l \<in> K) (concat (map chain_logs ns))) =
   concat (map (\<lambda>n. if n \<in> K then expected n else []) ns)"
proof (induction ns)
  case (Cons n ns)
  have "filter (\<lambda>l. log_BlockNumber l \<in> K) (chain_logs n) = (if n \<in> K then chain_logs n else [])"
    using logs_number [of _ n] by (auto simp: filter_empty_conv intro!: filter_True)
  moreover have "map stamp (chain_logs n) = expected n"
    using logs_number [of _ n] by (auto simp: deliveries_def stamp_def)
  ultimately show ?case using Cons by simp
qed simp

text \<open>A chunk that has been applied without an error is done block by block.\<close>

lemma applied_chunk:
  assumes ap: "applied (concat (map chain_logs (blocks n e))) Map.empty s None s1"
  shows "\<exists>ds. list_all2 (block_done s1) (blocks n e) ds \<and> deliv s1 = deliv s @ concat ds"
proof -
  let ?logs = "concat (map chain_logs (blocks n e))"
  obtain K where K: "deliv s1 = deliv s @ map stamp (filter (\<lambda>l. log_BlockNumber l \<in> K) ?logs)"
    "\<forall>l \<in> set ?logs. log_BlockNumber l \<notin> K \<longrightarrow> log_BlockNumber l \<in> skipped s1 \<or> chain_time (log_BlockNumber l) = 0"
    using ap by (auto simp: applied_def)
  let ?ds = "map (\<lambda>n. if n \<in> K then expected n else []) (blocks n e)"
  have "block_done s1 m (if m \<in> K then expected m else [])" if "m \<in> {n..e}" for m
  proof (cases "m \<in> K \<or> chain_logs m = []")
    case False
    then obtain l where l: "l \<in> set (chain_logs m)" by (cases "chain_logs m") auto
    then have "l \<in> set ?logs" using that by auto
    with K(2) logs_number [OF l] False show ?thesis by (auto simp: delivered_def)
  qed (auto simp: delivered_def deliveries_def)
  then have "list_all2 (block_done s1) (blocks n e) ?ds" by (simp add: list_all2_conv_all_nth nth_mem [where xs = "blocks n e", simplified])
  with K(1) show ?thesis by (auto simp: stamp_chunk)
qed

lemma sync_inv_failed: "sync_inv dbg a cur s0 n s \<Longrightarrow> sync_post dbg a cur s0 (Some x) s"
  using sync_inv_error [of dbg a cur s0 n s s "[]"] by (simp add: sync_inv_def)

lemma applyBatchChunk_spec:
  assumes inv: "sync_inv dbg a cur s0 n s" and cfg: "ic_Chain (ix_config idx) = chain" "ic_DebugMode (ix_config idx) = dbg"
    and e: "n \<le> e" "e \<le> cur" "unat cur < 2 ^ 63"
    and run: "applyBatchChunk P (concat (map chain_logs (blocks n e))) e idx s = (r, idx', s')"
  shows "ix_config idx' = ix_config idx \<and> (r = None \<longrightarrow> sync_inv dbg a cur s0 (e + 1) s') \<and>
         (\<forall>x. r = Some x \<longrightarrow> sync_post dbg a cur s0 r s')"
proof -
  let ?logs = "concat (map chain_logs (blocks n e))"
  have ok: "ok s" using inv by (simp add: sync_inv_def)
  obtain ar s1 where a: "apply_logs P ?logs Map.empty s = (ar, s1)" by (cases "apply_logs P ?logs Map.empty s")
  have ap: "applied ?logs Map.empty s ar s1" by (rule apply_logs_spec [OF a ok]) (simp add: times_ok_def)
  then obtain rest where d: "ok s1" "lastb s1 = lastb s" "skipped s \<subseteq> skipped s1" "deliv s1 = deliv s @ rest"
    and sub: "subseq rest (map stamp ?logs)" by (auto simp: applied_def)
  have "map stamp ?logs = concat (map expected (blocks n e))" using stamp_chunk [of UNIV "blocks n e"] by simp
  with sub have rest: "subseq rest (concat (map expected (blocks n cur)))"
    unfolding blocks_cut [OF e, symmetric] by (simp add: subseq_append_prefix)
  show ?thesis
  proof (cases ar)
    case (Some x)
    with run a have "r = Some x" "idx' = idx" "s' = s1" by (auto simp: applyBatchChunk_def)
    with sync_inv_error [OF inv d(1,3,4,2) rest] show ?thesis by simp
  next
    case None
    obtain idx1 s2 where t: "record_tip P e idx s1 = (idx1, s2)" by (cases "record_tip P e idx s1")
    note tip = record_tip_frame [OF d(1) t]
    obtain sr s3 where st: "storeLastBlock P idx1 e s2 = (sr, s3)" by (cases "storeLastBlock P idx1 e s2")
    have ok2: "ok s2" using tip by (simp add: frame_def)
    note store = store_ok [OF ok2 _ _ st, unfolded tip(2), OF cfg]
    show ?thesis
    proof (cases sr)
      case (Some x)
      with run a None t st have "r = Some (errorf_w ''failed to save last block: '' x)" "idx' = idx1" "s' = s3"
        by (auto simp: applyBatchChunk_def)
      moreover have "same s2 s3" using store(2) Some by blast
      ultimately show ?thesis using sync_inv_error [OF inv, of s3 rest] rest d tip by (auto simp: frame_def)
    next
      case none: None
      with run a None t st have r: "r = None" "idx' = idx1" "s' = persistProviderState P s3"
        by (auto simp: applyBatchChunk_def)
      note s3 = store(1) [OF none]
      have f: "same s3 s'" using persist_frame s3 r by simp
      obtain ds where ds: "list_all2 (block_done s1) (blocks n e) ds" "deliv s1 = deliv s @ concat ds"
        using applied_chunk [OF ap [unfolded None]] by blast
      have "list_all2 (block_done s') (blocks n e) ds"
        by (rule blocks_done_mono [OF ds(1)]) (use s3 f tip in \<open>auto simp: frame_def\<close>)
      moreover have "deliv s' = deliv s @ concat ds" using ds(2) s3 f tip by (simp add: frame_def)
      moreover have "ok s'" "lastb s' = (if dbg then lastb s else e)" "skipped s \<subseteq> skipped s'" using s3 f tip d by (auto simp: frame_def)
      ultimately have "sync_inv dbg a cur s0 (e + 1) s'" by (intro sync_inv_step [OF inv e])
      with r tip show ?thesis by simp
    qed
  qed
qed

end

context sync_limits
begin

lemma span_bounds:
  assumes "n \<le> cur" and "unat cur < 2 ^ 63" and "1 < k" and "0 < c" and "c * k < 2 ^ 31 - 1"
    and spn: "spn = (if cur - n + 1 < to_u64 c * to_u64 k then cur - n + 1 else to_u64 c * to_u64 k)"
  shows "round_bounds n (n + spn - 1) \<and> n + spn - 1 \<le> cur"
proof -
  have n: "unat n \<le> unat cur" using assms(1) by (simp add: u64_le)
  have r: "unat (cur - n + 1) = unat cur - unat n + 1"
    using assms(1,2) n by (subst unat_u64_add) (simp_all add: unat_u64_sub)
  have ck: "c \<le> c * k" "k \<le> c * k"
    using mult_left_mono [of 1 k c] mult_right_mono [of 1 c k] assms(3,4) by simp_all
  then have b: "c < 2 ^ 31" "k < 2 ^ 31" "1 \<le> c * k" using assms(4,5) by linarith+
  have b' : "nat (c * k) < 2 ^ 31 - 1" using assms(5) b(3) by (simp add: nat_less_iff)
  have "unat (to_u64 c) * unat (to_u64 k) = nat (c * k)"
    using b assms(3,4) by (simp add: unat_to_u64 nat_mult_distrib)
  with b b' have p: "unat (to_u64 c * to_u64 k) = nat (c * k)" by (simp add: unat_word_ariths)
  have s: "unat spn = min (unat cur - unat n + 1) (nat (c * k))"
    using spn r p by (auto simp: u64_less min_def)
  then have s1: "1 \<le> unat spn" "unat spn \<le> unat cur - unat n + 1" "unat spn < 2 ^ 31 - 1"
    using b b' by auto
  have a: "unat (n + spn) = unat n + unat spn" using s1(2) n assms(2) by (intro unat_u64_add) simp
  then have "1 \<le> n + spn" using s1(1) by (simp add: u64_le)
  then have "unat (n + spn - 1) = unat n + unat spn - 1" using a by (simp add: unat_u64_sub)
  with s1 n assms(2) show ?thesis by (auto simp: round_bounds_def u64_le)
qed

lemma parallel_part_spec:
  assumes inv: "sync_inv dbg a cur s0 n s" and cfg: "ic_Chain (ix_config idx) = chain" "ic_DebugMode (ix_config idx) = dbg"
    and n: "n \<le> cur" "unat cur < 2 ^ 63"
  shows "case parallel_part P cur n idx s of
           Hang \<Rightarrow> False
         | Return (r, idx', s') \<Rightarrow> sync_post dbg a cur s0 r s' \<and> ix_config idx' = ix_config idx
         | Continue (n', idx', s') \<Rightarrow>
             (\<exists>e. n \<le> e \<and> e \<le> cur \<and> n' = e + 1) \<and> sync_inv dbg a cur s0 n' s' \<and> ix_config idx' = ix_config idx
         | Fallthrough (n', idx', s') \<Rightarrow> n' = n \<and> idx' = idx \<and> same s s'"
proof (cases "pp_parallel (pt_pool P)")
  case None
  with inv show ?thesis by (simp add: parallel_part_def sync_inv_def frame_refl)
next
  case (Some pb)
  have ok: "ok s" using inv by (simp add: sync_inv_def)
  obtain k c s1 where pl: "pb_ParallelLogPlan pb s = ((k, c), s1)" by (metis prod_cases3 surj_pair)
  have f1: "same s s1" by (rule plan_frame [OF Some ok pl])
  then have ok1: "ok s1" by (simp add: frame_def)
  show ?thesis
  proof (cases "1 < k \<and> 0 < c \<and> to_u64 c < cur - n + 1")
    case False
    have "parallel_part P cur n idx s = Fallthrough (n, idx, s1)"
      by (simp only: parallel_part_def Some option.case pl prod.case Let_def if_not_P [OF False])
    with f1 show ?thesis by simp
  next
    case True
    define spn where "spn = (if cur - n + 1 < to_u64 c * to_u64 k then cur - n + 1 else to_u64 c * to_u64 k)"
    define e where "e = n + spn - 1"
    have rb: "round_bounds n e" "e \<le> cur" "n \<le> e"
      using span_bounds [OF n _ _ _ spn_def] plan_bounds [OF Some ok pl] True
      by (auto simp: e_def round_bounds_def)
    obtain rl s2 where par: "pb_LogsByBlockRangeParallel pb n e s1 = Some (rl, s2)"
      using parallel_returns [OF Some ok1 rb(1)] by auto
    have "same s1 s2" by (rule parallel_frame [OF Some ok1 rb(1) par])
    then have f2: "same s s2" by (rule frame_trans [OF f1])
    have inv2: "sync_inv dbg a cur s0 n s2" by (rule sync_inv_frame [OF inv f2])
    have eq: "parallel_part P cur n idx s = (case rl of
        Inl err \<Rightarrow> if \<not> idx_isRangeTooLargeError P (Some err) s2
          then Return (Some (range_error ''failed to get logs for parallel blocks '' n e err), idx, s2)
          else Fallthrough (n, idx, s2)
      | Inr logs \<Rightarrow> (case applyBatchChunk P logs e idx s2 of
          (Some err, idx1, s3) \<Rightarrow> Return (Some err, idx1, s3) | (None, idx1, s3) \<Rightarrow> Continue (e + 1, idx1, s3)))"
      using Some pl True par unfolding parallel_part_def spn_def e_def Let_def by (simp split: sum.split)
    show ?thesis
    proof (cases rl)
      case (Inl err)
      with eq f2 sync_inv_failed [OF inv2] show ?thesis by simp
    next
      case (Inr logs)
      have logs: "logs = concat (map chain_logs (blocks n e))" using parallel_true [OF Some ok1 rb(1)] par Inr by blast
      obtain r idx1 s3 where ab: "applyBatchChunk P logs e idx s2 = (r, idx1, s3)" by (cases "applyBatchChunk P logs e idx s2")
      from applyBatchChunk_spec [OF inv2 cfg rb(3,2) n(2) ab [unfolded logs]]
      show ?thesis using eq Inr ab rb(2,3) by (cases r) auto
    qed
  qed
qed

text \<open>
  The single-provider part. Splitting keeps \<open>n\<close>, sets \<open>retrying\<close> and at least halves the chunk.
\<close>

lemma chunk_size_ok:
  assumes ok: "ok s" and csz: "1 \<le> unat csz" "unat csz < 2 ^ 63"
    and sz: "(if \<not> retrying then (case pp_MaxLogBlockRange (pt_pool P) s of
        (r, s') \<Rightarrow> (if 0 < to_u64 r then to_u64 r else csz, s')) else (csz, s)) = (sz, s1)"
  shows "same s s1" and "1 \<le> unat sz" and "unat sz < 2 ^ 63" and "retrying \<Longrightarrow> sz = csz"
proof -
  have "same s s1 \<and> 1 \<le> unat sz \<and> unat sz < 2 ^ 63 \<and> (retrying \<longrightarrow> sz = csz)"
  proof (cases retrying)
    case True
    with sz csz ok show ?thesis by (auto simp: frame_refl)
  next
    case False
    obtain m s' where m: "pp_MaxLogBlockRange (pt_pool P) s = (m, s')" by (cases "pp_MaxLogBlockRange (pt_pool P) s")
    have mb: "1 \<le> m" "m < 2 ^ 63" using max_bounds [OF ok m] by auto
    then have um: "unat (to_u64 m) = nat m" by (simp add: unat_to_u64)
    then have "0 < to_u64 m" using mb by (simp add: u64_less)
    with False sz m have "sz = to_u64 m" "s1 = s'" by auto
    with um mb max_frame [OF ok m] False show ?thesis by (auto simp: nat_less_iff)
  qed
  then show "same s s1" and "1 \<le> unat sz" and "unat sz < 2 ^ 63" and "retrying \<Longrightarrow> sz = csz" by auto
qed

lemma chunk_end_ok:
  fixes n cur sz :: u64
  assumes "n \<le> cur" and "unat cur < 2 ^ 63" and sz: "1 \<le> unat sz" "unat sz < 2 ^ 63"
    and e: "e = (if cur < n + sz - 1 then cur else n + sz - 1)"
  shows "n \<le> e" and "e \<le> cur" and "unat e - unat n + 1 \<le> unat sz"
proof -
  have un: "unat n \<le> unat cur" using assms(1) by (simp add: u64_le)
  have "unat (n + sz) = unat n + unat sz" using sz un assms(2) by (intro unat_u64_add) simp
  then have "unat (n + sz - 1) = unat n + unat sz - 1" using sz(1) by (subst unat_u64_sub) (auto simp: u64_le)
  then have "unat e = min (unat cur) (unat n + unat sz - 1)" by (auto simp: e u64_less)
  then show "n \<le> e" and "e \<le> cur" and "unat e - unat n + 1 \<le> unat sz" using sz(1) un by (auto simp: u64_le)
qed

text \<open>A chunk of more than one block is cut to a smaller one that is not empty.\<close>

lemma halved_chunk:
  fixes n e :: u64
  assumes "n < e" and "unat e < 2 ^ 63" and "unat e - unat n + 1 \<le> k"
    and h: "h = (if (e - n + 1) div 2 = 0 then 1 else (e - n + 1) div 2)"
  shows "1 \<le> unat h \<and> unat h < k"
proof -
  have lt: "unat n < unat e" using assms(1) by (simp add: u64_less)
  have "unat (e - n + 1) = unat e - unat n + 1"
    using lt assms(2) by (subst unat_u64_add) (simp_all add: unat_u64_sub u64_le)
  then have "unat ((e - n + 1) div 2) = (unat e - unat n + 1) div 2" by (simp add: unat_div)
  with lt assms(3) show ?thesis by (auto simp: h)
qed

lemma single_part_spec:
  assumes inv: "sync_inv dbg a cur s0 n s" and cfg: "ic_Chain (ix_config idx) = chain" "ic_DebugMode (ix_config idx) = dbg"
    and n: "n \<le> cur" "unat cur < 2 ^ 63" and csz: "1 \<le> unat csz" "unat csz < 2 ^ 63"
  shows "case single_part P cur csz retrying n idx s of
           Inl (r, idx', s') \<Rightarrow> sync_post dbg a cur s0 r s' \<and> ix_config idx' = ix_config idx
         | Inr (n', csz', retrying', idx', s') \<Rightarrow>
             sync_inv dbg a cur s0 n' s' \<and> ix_config idx' = ix_config idx \<and> 1 \<le> unat csz' \<and> unat csz' < 2 ^ 63 \<and>
             (if retrying' then n' = n \<and> (retrying \<longrightarrow> unat csz' < unat csz)
              else (\<exists>e. n \<le> e \<and> e \<le> cur \<and> n' = e + 1))"
proof -
  have ok: "ok s" using inv by (simp add: sync_inv_def)
  obtain sz s1 where sz: "(if \<not> retrying then (case pp_MaxLogBlockRange (pt_pool P) s of
        (r, s') \<Rightarrow> (if 0 < to_u64 r then to_u64 r else csz, s')) else (csz, s)) = (sz, s1)"
    by (rule prod.exhaust)
  note szb = chunk_size_ok [OF ok csz sz]
  have ok1: "ok s1" using szb(1) by (simp add: frame_def)
  define e where "e = (if cur < n + sz - 1 then cur else n + sz - 1)"
  note ne = chunk_end_ok [OF n szb(2,3) e_def]
  obtain rl s2 where q: "pp_LogsByBlockRange (pt_pool P) n e s1 = (rl, s2)" by (cases "pp_LogsByBlockRange (pt_pool P) n e s1")
  have inv2: "sync_inv dbg a cur s0 n s2" by (rule sync_inv_frame [OF sync_inv_frame [OF inv szb(1)] range_frame [OF ok1 q]])
  define h where "h = (if (e - n + 1) div 2 = 0 then 1 else (e - n + 1) div 2)"
  have eq: "single_part P cur csz retrying n idx s = (case rl of
      Inl err \<Rightarrow> if idx_isRangeTooLargeError P (Some err) s2 \<and> n < e then Inr (n, h, True, idx, s2)
        else Inl (Some (range_error ''failed to get logs for blocks '' n e err), idx, s2)
    | Inr logs \<Rightarrow> (case applyBatchChunk P logs e idx s2 of
        (Some err, idx1, s3) \<Rightarrow> Inl (Some err, idx1, s3) | (None, idx1, s3) \<Rightarrow> Inr (e + 1, sz, False, idx1, s3)))"
    by (simp only: single_part_def Let_def sz prod.case e_def [symmetric] h_def q)
  show ?thesis
  proof (cases rl)
    case (Inl err)
    have "unat e < 2 ^ 63" using ne(2) n(2) by (simp add: u64_le)
    from halved_chunk [OF _ this ne(3) h_def] show ?thesis using Inl eq inv2 szb sync_inv_failed [OF inv2] by auto
  next
    case (Inr logs)
    have logs: "logs = concat (map chain_logs (blocks n e))" using range_true [OF ok1 ne(1)] q Inr by blast
    obtain r idx1 s3 where ab: "applyBatchChunk P logs e idx s2 = (r, idx1, s3)" by (cases "applyBatchChunk P logs e idx s2")
    from applyBatchChunk_spec [OF inv2 cfg ne(1,2) n(2) ab [unfolded logs]]
    show ?thesis using eq Inr ab ne szb by (cases r) auto
  qed
qed

lemma batch_body_exit:
  assumes inv: "sync_inv dbg a cur s0 n s" and cfg: "ic_Chain (ix_config idx) = chain" "ic_DebugMode (ix_config idx) = dbg"
    and cur: "unat cur < 2 ^ 63" and c: "1 \<le> unat c" "unat c < 2 ^ 63"
    and out: "batch_body P cur (n, c, rt, idx, s) = Inl (r, idx', s')"
  shows "sync_post dbg a cur s0 r s' \<and> ix_config idx' = ix_config idx"
proof (cases "n \<le> cur")
  case False
  with out inv show ?thesis by (auto simp: batch_body_def intro: sync_inv_exit)
next
  case True
  note pp = parallel_part_spec [OF inv cfg True cur]
  show ?thesis
  proof (cases "parallel_part P cur n idx s")
    case (Fallthrough x)
    with pp obtain s4 where x: "x = (n, idx, s4)" "same s s4" by (cases x) auto
    from single_part_spec [OF sync_inv_frame [OF inv x(2)] cfg True cur c, of rt]
    show ?thesis using out True Fallthrough x by (simp add: batch_body_def)
  qed (use out True pp in \<open>auto simp: batch_body_def split: prod.splits\<close>)
qed

text \<open>An iteration that does not end the loop moves on, or keeps its place and cuts the chunk.\<close>

lemma batch_body_step:
  assumes inv: "sync_inv dbg a cur s0 n s" and cfg: "ic_Chain (ix_config idx) = chain" "ic_DebugMode (ix_config idx) = dbg"
    and cur: "unat cur < 2 ^ 63" and c: "1 \<le> unat c" "unat c < 2 ^ 63"
    and step: "batch_body P cur (n, c, rt, idx, s) = Inr (n', c', rt', idx', s')"
  shows "sync_inv dbg a cur s0 n' s' \<and> ix_config idx' = ix_config idx \<and> 1 \<le> unat c' \<and> unat c' < 2 ^ 63 \<and>
     ((\<exists>e. n \<le> e \<and> e \<le> cur \<and> n' = e + 1) \<or> n' = n \<and> rt' \<and> (rt \<longrightarrow> unat c' < unat c))"
proof -
  have True: "n \<le> cur" using step by (auto simp: batch_body_def split: if_splits)
  note pp = parallel_part_spec [OF inv cfg True cur]
  show ?thesis
  proof (cases "parallel_part P cur n idx s")
    case (Fallthrough x)
    with pp obtain s4 where x: "x = (n, idx, s4)" "same s s4" by (cases x) auto
    have "single_part P cur c rt n idx s4 = Inr (n', c', rt', idx', s')"
      using step True Fallthrough x by (simp add: batch_body_def)
    with single_part_spec [OF sync_inv_frame [OF inv x(2)] cfg True cur c, of rt]
    show ?thesis by (auto split: if_splits)
  next
    case (Continue x)
    with step True have "x = (n', idx', s')" "c' = c" "rt' = rt" by (auto simp: batch_body_def split: prod.splits)
    with pp Continue c show ?thesis by auto
  qed (use step True pp in \<open>auto simp: batch_body_def split: prod.splits\<close>)
qed

lemma syncBlocksBatched_spec:
  assumes "ok s" and cfg: "ic_Chain (ix_config idx) = chain" "ic_DebugMode (ix_config idx) = dbg" and cur: "unat cur < 2 ^ 63"
  shows "\<exists>r idx' s'. syncBlocksBatched P a cur idx s = Some (r, idx', s') \<and> sync_post dbg a cur s r s' \<and>
           ix_config idx' = ix_config idx"
proof -
  obtain m s1 where m: "pp_MaxLogBlockRange (pt_pool P) s = (m, s1)" by (cases "pp_MaxLogBlockRange (pt_pool P) s")
  have f1: "same s s1" and mb: "1 \<le> m" "m < 2 ^ 63" using max_frame [OF assms(1) m] max_bounds [OF assms(1) m] by auto
  have um: "unat (to_u64 m) = nat m" using mb by (simp add: unat_to_u64)
  let ?c = "if to_u64 m = 0 then 1 else to_u64 m"
  let ?I = "\<lambda>(n, c, rt, idx', s'). sync_inv dbg a cur s n s' \<and> ix_config idx' = ix_config idx \<and> 1 \<le> unat c \<and> unat c < 2 ^ 63"
  let ?Q = "\<lambda>(r, idx', s'). sync_post dbg a cur s r s' \<and> ix_config idx' = ix_config idx"
  let ?R = "inv_image (less_than <*lex*> less_than)
      (\<lambda>(n, c, rt, idx' :: Indexer, s' :: 'a). (Suc (unat cur) - unat n, if rt then unat c else 2 ^ 63))"
  have next_lt: "Suc (unat cur) - unat (e + 1) < Suc (unat cur) - unat n" if "n \<le> e" "e \<le> cur" for n e
  proof -
    have "unat (e + 1) = Suc (unat e)" using that cur by (auto simp: u64_le intro!: trans [OF unat_u64_add])
    with that show ?thesis by (auto simp: u64_le)
  qed
  have "\<exists>r. go_for (batch_body P cur) (a, ?c, False, idx, s1) = Some r \<and> ?Q r"
  proof (rule go_for_total [where R = ?R and I = ?I])
    show "wf ?R" by (simp add: wf_lex_prod)
    show "?I (a, ?c, False, idx, s1)"
      using sync_inv_frame [OF sync_inv_start [OF assms(1)] f1] um mb by (auto simp: nat_less_iff)
  next
    fix st r
    assume I: "?I st" and out: "batch_body P cur st = Inl r"
    obtain n c rt idx1 s2 r' idx2 s3 where st: "st = (n, c, rt, idx1, s2)" "r = (r', idx2, s3)" by (metis prod_cases3 prod_cases5)
    with I out cfg cur show "?Q r" using batch_body_exit [of dbg a cur s n s2 idx1 c rt r' idx2 s3] by simp
  next
    fix st st'
    assume I: "?I st" and step: "batch_body P cur st = Inr st'"
    obtain n c rt idx1 s2 n' c' rt' idx2 s3 where st: "st = (n, c, rt, idx1, s2)" "st' = (n', c', rt', idx2, s3)"
      by (metis prod_cases5)
    with I step cfg cur show "?I st' \<and> (st', st) \<in> ?R"
      using batch_body_step [of dbg a cur s n s2 idx1 c rt n' c' rt' idx2 s3] next_lt by auto
  qed
  then show ?thesis using m by (auto simp: syncBlocksBatched_def Let_def)
qed

section \<open>One sync\<close>

definition synced :: "bool \<Rightarrow> u64 \<Rightarrow> u64 \<Rightarrow> 'a \<Rightarrow> goerr option \<Rightarrow> 'a \<Rightarrow> bool" where
  "synced dbg base cur s r s' \<longleftrightarrow> ok s' \<and> skipped s \<subseteq> skipped s' \<and>
     progressed chain_logs chain_time (skipped s') dbg (new_blocks base cur) r (lastb s) (lastb s') (deliv s) (deliv s')"

lemma sync_range_spec:
  assumes "ok s" and cfg: "ic_Chain (ix_config idx) = chain" "ic_DebugMode (ix_config idx) = dbg" and cur: "unat cur < 2 ^ 63"
  shows "\<exists>r idx' s'. sync_range P base cur idx s = Some (r, idx', s') \<and> synced dbg base cur s r s' \<and>
           ix_config idx' = ix_config idx"
proof (cases "cur \<le> base")
  case True
  with assms(1) show ?thesis
    by (auto simp: sync_range_def synced_def new_blocks_def)
next
  case False
  then have "base < cur" by simp
  then have "base + 1 \<noteq> 0" using unat_u64_Suc [of base cur] by (metis nat.distinct(1) unsigned_0)
  obtain m s1 where m: "pp_MaxLogBlockRange (pt_pool P) s = (m, s1)" by (cases "pp_MaxLogBlockRange (pt_pool P) s")
  have f1: "same s s1" by (rule max_frame [OF assms(1) m])
  then have ok1: "ok s1" by (simp add: frame_def)
  obtain m' s2 where m': "pp_MaxLogBlockRange (pt_pool P) s1 = (m', s2)" by (cases "pp_MaxLogBlockRange (pt_pool P) s1")
  have f2: "same s s2" by (rule frame_trans [OF f1 max_frame [OF ok1 m']])
  then have ok2: "ok s2" by (simp add: frame_def)
  have post: "synced dbg base cur s r s'" if "sync_post dbg (base + 1) cur t r s'" "same s t" for r s' t
  proof -
    have t: "lastb t = lastb s" "deliv t = deliv s" "skipped s \<subseteq> skipped t" using that(2) by (auto simp: frame_def)
    show ?thesis
      using that(1) t(3) unfolding sync_post_def synced_def new_blocks_def if_P [OF \<open>base < cur\<close>] t(1,2)
      by (blast intro: order_trans)
  qed
  have eq: "sync_range P base cur idx s = (if 1 < m then syncBlocksBatched P (base + 1) cur idx s2
      else syncBlocksSequential P (base + 1) cur idx s1)"
    using False \<open>base + 1 \<noteq> 0\<close> m m' by (simp add: sync_range_def Let_def)
  show ?thesis
  proof (cases "1 < m")
    case True
    with eq syncBlocksBatched_spec [OF ok2 cfg cur, of "base + 1"] post [OF _ f2] show ?thesis by auto
  next
    case False
    with eq syncBlocksSequential_spec [OF ok1 cfg cur, of "base + 1"] post [OF _ f1] show ?thesis by auto
  qed
qed

text \<open>
  Before the block loop, progress is unchanged unless the sync has rewound, and then it is the new
  base; \<open>n\<close> is the base when nothing is rewound.
\<close>

definition rebased :: "bool \<Rightarrow> u64 \<Rightarrow> u64 \<Rightarrow> 'a \<Rightarrow> 'a \<Rightarrow> bool" where
  "rebased dbg n base s s' \<longleftrightarrow> ok s' \<and> deliv s' = deliv s \<and> skipped s \<subseteq> skipped s' \<and>
     (base = n \<and> lastb s' = lastb s \<or> lastb s' = (if dbg then lastb s else base))"

lemma rebased_same: "rebased dbg n base s s' \<Longrightarrow> same s' s'' \<Longrightarrow> rebased dbg n base s s''"
  by (auto simp: rebased_def frame_def)

lemma pruneHashesAbove_config [simp]: "ix_config (pruneHashesAbove n idx) = ix_config idx"
  by (simp add: pruneHashesAbove_def split: prod.splits)

lemma detectReorgRewind_spec:
  assumes "ok s" and cfg: "ic_Chain (ix_config idx) = chain" "ic_DebugMode (ix_config idx) = dbg"
    and run: "detectReorgRewind P n idx s = (r, idx', s')"
  shows "ix_config idx' = ix_config idx \<and>
         (case r of Inl e \<Rightarrow> same s s'
          | Inr base \<Rightarrow> reorg_base headers idx n base \<and> rebased dbg n base s s')"
proof (cases "ix_reorgDepth idx \<le> 0 \<or> n = 0 \<or> ix_recentHashes idx n = None")
  case True
  with run assms(1) show ?thesis
    by (auto simp: detectReorgRewind_def reorg_base_def rebased_def frame_refl split: option.splits if_splits)
next
  case False
  then obtain want where want: "ix_recentHashes idx n = Some want" by auto
  obtain hr s1 where h: "pp_HeaderByNumber (pt_pool P) (big_SetUint64 n) s = (hr, s1)"
    by (cases "pp_HeaderByNumber (pt_pool P) (big_SetUint64 n) s")
  have f: "same s s1" using header_frame [OF assms(1) h] by blast
  then have ok1: "ok s1" by (simp add: frame_def)
  let ?t = "rewind_target (ic_StartBlock (ix_config idx)) (ix_reorgDepth idx) n"
  obtain sr s2 where st: "storeLastBlock P idx ?t s1 = (sr, s2)" by (cases "storeLastBlock P idx ?t s1")
  note store = store_ok [OF ok1 cfg st]
  show ?thesis
  proof (cases sr)
    case None
    with run False want h f st store(1) [OF None] header_reported [OF assms(1)] show ?thesis
      by (auto simp: detectReorgRewind_def reorg_base_def rebased_def Let_def frame_def split: sum.splits if_splits)
  next
    case (Some e)
    with run False want h f st store(2) [OF Some] header_reported [OF assms(1)] show ?thesis
      by (auto simp: detectReorgRewind_def reorg_base_def rebased_def Let_def frame_def split: sum.splits if_splits)
  qed
qed

text \<open>
  The outcome of one sync from block \<open>n\<close> that got past the check for a reorg.
\<close>

definition outcome :: "bool \<Rightarrow> u64 \<Rightarrow> u64 \<Rightarrow> u64 \<Rightarrow> 'a \<Rightarrow> goerr option \<Rightarrow> 'a \<Rightarrow> bool" where
  "outcome dbg n base cur s r s' \<longleftrightarrow> (\<exists>s1. rebased dbg n base s s1 \<and> synced dbg base cur s1 r s')"

lemma synced_error: "same s s' \<Longrightarrow> synced dbg base cur s (Some e) s'"
  by (auto simp: synced_def frame_def)

text \<open>The last part of a sync: the head is known, and progress is reset when it lies below.\<close>

lemma sync_to_head:
  assumes d: "detectReorgRewind P n idx s = (Inr prev, idx1, s1)" and nr: "pp_BlockNumber (pt_pool P) s1 = (Inr cur, s2)"
    and b: "rebased dbg n prev s s1" "same s1 s2" and cur: "unat cur < 2 ^ 63"
    and cfg: "ic_Chain (ix_config idx) = chain" "ic_DebugMode (ix_config idx) = dbg" and cfg1: "ix_config idx1 = ix_config idx"
  defines "base \<equiv> if cur < prev then ic_StartBlock (ix_config idx) else prev"
  shows "\<exists>r idx' s'. sync_from P n idx s = Some (r, idx', s') \<and> ix_config idx' = ix_config idx \<and>
           (outcome dbg n base cur s r s' \<or> r \<noteq> None \<and> outcome dbg n prev prev s r s')"
proof (cases "cur < prev")
  case False
  have r2: "rebased dbg n prev s s2" by (rule rebased_same [OF b])
  then have "ok s2" by (simp add: rebased_def)
  then obtain r idx' s' where r: "sync_range P prev cur idx1 s2 = Some (r, idx', s')" "synced dbg prev cur s2 r s'"
    "ix_config idx' = ix_config idx1"
    using sync_range_spec [OF _ _ _ cur, of s2 idx1 dbg prev] cfg cfg1 by auto
  have "outcome dbg n base cur s r s'" using r2 r(2) False by (auto simp: outcome_def base_def)
  moreover have "sync_from P n idx s = Some (r, idx', s')" using r(1) d nr False by (simp add: sync_from_def)
  ultimately show ?thesis using r(3) cfg1 by auto
next
  case True
  have ok2: "ok s2" using b(2) by (simp add: frame_def)
  let ?st = "ic_StartBlock (ix_config idx)"
  obtain sr s3 where st: "storeLastBlock P idx1 ?st s2 = (sr, s3)" by (cases "storeLastBlock P idx1 ?st s2")
  note store = store_ok [OF ok2 _ _ st, unfolded cfg1, OF cfg]
  show ?thesis
  proof (cases sr)
    case (Some e)
    have "outcome dbg n prev prev s (Some (errorf_w ''failed to reset last block after chain reset: '' e)) s3"
      unfolding outcome_def using b(1) synced_error [OF frame_trans [OF b(2) store(2) [OF Some]]] by blast
    with st d nr True Some cfg1 show ?thesis by (simp add: sync_from_def Let_def)
  next
    case None
    have r3: "rebased dbg n ?st s s3" using b store(1) [OF None] by (auto simp: rebased_def frame_def)
    then have "ok s3" by (simp add: rebased_def)
    then obtain r idx' s' where r: "sync_range P ?st cur (pruneHashesAbove ?st idx1) s3 = Some (r, idx', s')"
      "synced dbg ?st cur s3 r s'" "ix_config idx' = ix_config idx1"
      using sync_range_spec [OF _ _ _ cur, of s3 "pruneHashesAbove ?st idx1" dbg ?st] cfg cfg1 by auto
    have "outcome dbg n base cur s r s'" using r3 r(2) True by (auto simp: outcome_def base_def)
    moreover have "sync_from P n idx s = Some (r, idx', s')"
      using r(1) st None d nr True cfg1 by (simp add: sync_from_def Let_def)
    ultimately show ?thesis using r(3) cfg1 by auto
  qed
qed

lemma sync_from_spec:
  assumes "ok s" and cfg: "ic_Chain (ix_config idx) = chain" "ic_DebugMode (ix_config idx) = dbg"
  shows "\<exists>r idx' s' base cur. sync_from P n idx s = Some (r, idx', s') \<and> ix_config idx' = ix_config idx \<and>
           (r \<noteq> None \<and> same s s' \<or>
            sync_base headers idx n cur base \<and> (r = None \<longrightarrow> heads cur) \<and> outcome dbg n base cur s r s')"
proof -
  obtain dr idx1 s1 where d: "detectReorgRewind P n idx s = (dr, idx1, s1)" by (cases "detectReorgRewind P n idx s")
  note ds = detectReorgRewind_spec [OF assms d]
  show ?thesis
  proof (cases dr)
    case (Inl e)
    then have "same s s1" using ds by simp
    moreover have "sync_from P n idx s = Some (Some (errorf_w ''reorg check failed: '' e), idx1, s1)"
      using Inl d by (simp add: sync_from_def)
    ultimately show ?thesis using ds by blast
  next
    case last: (Inr last)
    have b: "reorg_base headers idx n last" "rebased dbg n last s s1" and cfg1: "ix_config idx1 = ix_config idx" using ds last by auto
    have sb: "sync_base headers idx n c (if c < last then ic_StartBlock (ix_config idx) else last)" for c
      using b(1) by (auto simp: sync_base_def)
    have sl: "sync_base headers idx n last last" using sb [of last] by simp
    have ok1: "ok s1" using b(2) by (simp add: rebased_def)
    obtain nr s2 where nr: "pp_BlockNumber (pt_pool P) s1 = (nr, s2)" by (cases "pp_BlockNumber (pt_pool P) s1")
    have f2: "same s1 s2" by (rule number_frame [OF ok1 nr])
    show ?thesis
    proof (cases nr)
      case (Inl e)
      have "outcome dbg n last last s (Some (errorf_w ''failed to get latest block: '' e)) s2"
        unfolding outcome_def using b(2) synced_error [OF f2] by blast
      moreover have "sync_from P n idx s = Some (Some (errorf_w ''failed to get latest block: '' e), idx1, s2)"
        using Inl last d nr by (simp add: sync_from_def)
      ultimately show ?thesis using sl cfg1 by blast
    next
      case (Inr cur)
      have cur: "unat cur < 2 ^ 63" and hd: "heads cur" using number_bound [OF ok1, of cur s2] nr Inr by simp_all
      from sync_to_head [OF d [unfolded last] nr [unfolded Inr] b(2) f2 cur cfg cfg1] show ?thesis using sb [of cur] sl hd by metis
    qed
  qed
qed

lemma rebased_frame: "same s s0 \<Longrightarrow> rebased dbg n base s0 s1 \<Longrightarrow> rebased dbg n base s s1"
  by (auto simp: rebased_def frame_def)

text \<open>
  One sync always returns. Either it only reported exhaustion, or it failed before it had changed
  anything, or its outcome is that of the block loop over the blocks above its base.
\<close>

lemma syncBlocks_spec:
  assumes "ok s" and cfg: "ic_Chain (ix_config idx) = chain" "ic_DebugMode (ix_config idx) = dbg"
  shows "\<exists>r idx' s'. syncBlocks P idx s = Some (r, idx', s') \<and> ix_config idx' = ix_config idx \<and>
           (same s s' \<and> (if r = None then fst (pp_GetProvider (pt_pool P) s) = None else True) \<or>
            (\<exists>base cur. sync_base headers idx (first_base (ix_config idx) (lastb s)) cur base \<and> (r = None \<longrightarrow> heads cur) \<and>
               outcome dbg (first_base (ix_config idx) (lastb s)) base cur s r s'))"
proof -
  obtain g s1 where g: "pp_GetProvider (pt_pool P) s = (g, s1)" by (cases "pp_GetProvider (pt_pool P) s")
  have f1: "same s s1" by (rule provider_frame [OF assms(1) g])
  then have ok1: "ok s1" by (simp add: frame_def)
  obtain ex t where o: "Observe (g \<noteq> None) (ix_exhaustion idx) = (ex, t)" by (cases "Observe (g \<noteq> None) (ix_exhaustion idx)")
  let ?idx = "idx\<lparr>ix_exhaustion := t\<rparr>"
  show ?thesis
  proof (cases ex)
    case True
    then have "g = None" using o by (auto simp: Observe_def split: if_splits)
    obtain b s2 where a: "rs_After (pt_runtime P) (ic_ProviderExhaustionRestartDelay (ix_config idx)) s1 = (b, s2)"
      by (cases "rs_After (pt_runtime P) (ic_ProviderExhaustionRestartDelay (ix_config idx)) s1")
    have f2: "same s s2" by (rule frame_trans [OF f1 after_frame [OF ok1 a]])
    then have "ok s2" by (simp add: frame_def)
    then have "same s (rs_OnExhausted (pt_runtime P) e s2)" for e by (rule frame_trans [OF f2 exhausted_frame])
    with True \<open>g = None\<close> f2 g o a show ?thesis by (cases b) (auto simp: syncBlocks_def Let_def)
  next
    case False
    obtain lr s2 where l: "getLastBlock P ?idx s1 = (lr, s2)" by (cases "getLastBlock P ?idx s1")
    have gl: "same s1 s2" "\<And>n. lr = Inr n \<Longrightarrow> n = (if dbg then 0 else lastb s1)"
      using l cfg get_ok [OF ok1, of lr s2] same_refl [OF ok1] by (auto simp: getLastBlock_def split: if_splits)
    have f2: "same s s2" by (rule frame_trans [OF f1 gl(1)])
    then have ok2: "ok s2" by (simp add: frame_def)
    show ?thesis
    proof (cases lr)
      case (Inl e)
      have "syncBlocks P idx s = Some (Some (errorf_w ''failed to get last block: '' e), ?idx, s2)"
        using g o False l Inl by (simp add: syncBlocks_def Let_def)
      with f2 show ?thesis by fastforce
    next
      case (Inr n)
      have n: "n = (if dbg then 0 else lastb s)" using gl(2) [OF Inr] f1 by (simp add: frame_def)
      let ?b = "first_base (ix_config idx) (lastb s)"
      have cfg': "ic_Chain (ix_config ?idx) = chain" "ic_DebugMode (ix_config ?idx) = dbg" using cfg by simp_all
      obtain r idx' s' base cur where r: "sync_from P ?b ?idx s2 = Some (r, idx', s')" "ix_config idx' = ix_config ?idx"
        "r \<noteq> None \<and> same s2 s' \<or> sync_base headers ?idx ?b cur base \<and> (r = None \<longrightarrow> heads cur) \<and> outcome dbg ?b base cur s2 r s'"
        using sync_from_spec [OF ok2 cfg', of ?b] by blast
      have "outcome dbg ?b base cur s2 r s' \<Longrightarrow> outcome dbg ?b base cur s r s'"
        using rebased_frame [OF f2] unfolding outcome_def by blast
      moreover have "same s2 s' \<Longrightarrow> same s s'" by (rule frame_trans [OF f2])
      moreover have "syncBlocks P idx s = Some (r, idx', s')"
        using g o False l Inr n r(1) cfg(2) by (auto simp: syncBlocks_def Let_def first_base_def split: if_splits)
      ultimately show ?thesis using r(2,3) by fastforce
    qed
  qed
qed

end

end
