(* ===== verification/Interference.thy ===== *)
theory Interference
  imports Sync_Paths
begin

text \<open>
  A sync is not alone with the pool: \<open>updateLoop\<close> re-ranks it and other goroutines call through it while
  the sync is under way. Between two of its calls such a step may come at any point. \<open>disturbed I P\<close>
  are the interfaces \<open>P\<close> where \<open>I\<close> tells, for the state at each call, what the others have done to it
  just before. What the sync engine guarantees over \<open>P\<close> it also guarantees over \<open>disturbed I P\<close>.
\<close>

definition disturb_parallel :: "('s \<Rightarrow> 's) \<Rightarrow> 's ParallelBackfiller \<Rightarrow> 's ParallelBackfiller" where
  "disturb_parallel I pb = pb\<lparr>
     pb_ParallelLogPlan := \<lambda>s. pb_ParallelLogPlan pb (I s),
     pb_LogsByBlockRangeParallel := \<lambda>a b s. pb_LogsByBlockRangeParallel pb a b (I s)\<rparr>"

definition disturb_pool :: "('s \<Rightarrow> 's) \<Rightarrow> 's ProviderPool \<Rightarrow> 's ProviderPool" where
  "disturb_pool I pl = pl\<lparr>
     pp_GetProvider := \<lambda>s. pp_GetProvider pl (I s),
     pp_GetScores := \<lambda>s. pp_GetScores pl (I s),
     pp_PersistQuotaUsage := \<lambda>qs s. pp_PersistQuotaUsage pl qs (I s),
     pp_Close := \<lambda>s. pp_Close pl (I s),
     pp_LogsByBlockNumber := \<lambda>n s. pp_LogsByBlockNumber pl n (I s),
     pp_LogsByBlockRange := \<lambda>a b s. pp_LogsByBlockRange pl a b (I s),
     pp_HeaderByNumber := \<lambda>n s. pp_HeaderByNumber pl n (I s),
     pp_BlockNumber := \<lambda>s. pp_BlockNumber pl (I s),
     pp_MaxLogBlockRange := \<lambda>s. pp_MaxLogBlockRange pl (I s),
     pp_parallel := map_option (disturb_parallel I) (pp_parallel pl)\<rparr>"

definition disturbed :: "('s \<Rightarrow> 's) \<Rightarrow> 's ports \<Rightarrow> 's ports" where
  "disturbed I P = \<lparr>
     pt_pool = disturb_pool I (pt_pool P),
     pt_storage = (pt_storage P)\<lparr>
       cs_GetLastBlock := \<lambda>c s. cs_GetLastBlock (pt_storage P) c (I s),
       cs_SetLastBlock := \<lambda>c n s. cs_SetLastBlock (pt_storage P) c n (I s)\<rparr>,
     pt_dispatcher = \<lparr>bd_Dispatch = \<lambda>l t s. bd_Dispatch (pt_dispatcher P) l t (I s),
                      bd_Close = \<lambda>s. bd_Close (pt_dispatcher P) (I s)\<rparr>,
     pt_runtime = \<lparr>rs_After = \<lambda>t s. rs_After (pt_runtime P) t (I s),
                   rs_OnExhausted = \<lambda>e s. rs_OnExhausted (pt_runtime P) e (I s)\<rparr>\<rparr>"

lemma disturbed_simps [simp]:
  "pp_GetProvider (pt_pool (disturbed I P)) s = pp_GetProvider (pt_pool P) (I s)"
  "pp_GetScores (pt_pool (disturbed I P)) s = pp_GetScores (pt_pool P) (I s)"
  "pp_PersistQuotaUsage (pt_pool (disturbed I P)) qs s = pp_PersistQuotaUsage (pt_pool P) qs (I s)"
  "pp_Close (pt_pool (disturbed I P)) s = pp_Close (pt_pool P) (I s)"
  "pp_LogsByBlockNumber (pt_pool (disturbed I P)) n s = pp_LogsByBlockNumber (pt_pool P) n (I s)"
  "pp_LogsByBlockRange (pt_pool (disturbed I P)) a b s = pp_LogsByBlockRange (pt_pool P) a b (I s)"
  "pp_HeaderByNumber (pt_pool (disturbed I P)) i s = pp_HeaderByNumber (pt_pool P) i (I s)"
  "pp_BlockNumber (pt_pool (disturbed I P)) s = pp_BlockNumber (pt_pool P) (I s)"
  "pp_MaxLogBlockRange (pt_pool (disturbed I P)) s = pp_MaxLogBlockRange (pt_pool P) (I s)"
  "pp_parallel (pt_pool (disturbed I P)) = map_option (disturb_parallel I) (pp_parallel (pt_pool P))"
  "pb_ParallelLogPlan (disturb_parallel I pb) s = pb_ParallelLogPlan pb (I s)"
  "pb_LogsByBlockRangeParallel (disturb_parallel I pb) a b s = pb_LogsByBlockRangeParallel pb a b (I s)"
  "cs_GetLastBlock (pt_storage (disturbed I P)) c s = cs_GetLastBlock (pt_storage P) c (I s)"
  "cs_SetLastBlock (pt_storage (disturbed I P)) c n s = cs_SetLastBlock (pt_storage P) c n (I s)"
  "cs_scores (pt_storage (disturbed I P)) = cs_scores (pt_storage P)"
  "cs_quotas (pt_storage (disturbed I P)) = cs_quotas (pt_storage P)"
  "bd_Dispatch (pt_dispatcher (disturbed I P)) l t s = bd_Dispatch (pt_dispatcher P) l t (I s)"
  "bd_Close (pt_dispatcher (disturbed I P)) s = bd_Close (pt_dispatcher P) (I s)"
  "rs_After (pt_runtime (disturbed I P)) dur s = rs_After (pt_runtime P) dur (I s)"
  "rs_OnExhausted (pt_runtime (disturbed I P)) e s = rs_OnExhausted (pt_runtime P) e (I s)"
  by (simp_all add: disturbed_def disturb_pool_def disturb_parallel_def)

lemma disturbed_id: "disturbed (\<lambda>s. s) P = P"
proof -
  have "map_option (disturb_parallel (\<lambda>s. s)) x = x" for x :: "'a ParallelBackfiller option"
    by (cases x) (simp_all add: disturb_parallel_def)
  then have "disturb_pool (\<lambda>s. s) pl = pl" for pl :: "'a ProviderPool" by (simp add: disturb_pool_def)
  then show ?thesis by (simp add: disturbed_def)
qed

locale disturbed_sync = sync_limits +
  fixes I :: "'a \<Rightarrow> 'a"
  assumes others: "ok s \<Longrightarrow> frame ok lastb deliv skipped s (I s)"
begin

lemma others_ok: "ok s \<Longrightarrow> ok (I s)"
  using others by (simp add: frame_def)

lemma after_others: "ok s \<Longrightarrow> frame ok lastb deliv skipped (I s) s' \<Longrightarrow> frame ok lastb deliv skipped s s'"
  by (rule frame_trans [OF others])

lemmas others_frames =
  after_others [OF _ header_frame [OF others_ok, THEN conjunct1]] after_others [OF _ logs_frame [OF others_ok, THEN conjunct1]]
  after_others [OF _ range_frame [OF others_ok]] after_others [OF _ max_frame [OF others_ok]]
  after_others [OF _ plan_frame [OF _ others_ok]] after_others [OF _ parallel_frame [OF _ others_ok]]
  after_others [OF _ provider_frame [OF others_ok]] after_others [OF _ number_frame [OF others_ok]]
  after_others [OF _ after_frame [OF others_ok]] after_others [OF _ exhausted_frame [OF others_ok]]
  after_others [OF _ set_error [OF others_ok]] after_others [OF _ dispatch_error [OF others_ok, THEN conjunct1]]
  after_others [OF _ get_scores_frame [OF others_ok]] after_others [OF _ quota_frame [OF _ others_ok]]

lemmas others_skips = header_frame [OF others_ok, THEN conjunct2] logs_frame [OF others_ok, THEN conjunct2]
  dispatch_error [OF others_ok, THEN conjunct2]

end

sublocale disturbed_sync \<subseteq> disturbed: sync_env "disturbed I P"
proof (unfold_locales, goal_cases)
  case (6 pb s k c s')
  then show ?case using plan_bounds [OF _ others_ok] by auto
next
  case (12 s rn s')
  then show ?case using get_ok [OF others_ok, of s rn s'] others [of s] by (auto simp: frame_def)
next
  case (13 s n s')
  then show ?case using set_ok [OF others_ok, of s n s'] others [of s] by (auto simp: frame_def)
next
  case (15 s l t s')
  then show ?case using dispatch_ok [OF others_ok, of s l t s'] others [of s] by (auto simp: frame_def)
qed (auto simp: scores_frame intro: others_frames others_skips)

sublocale disturbed_sync \<subseteq> disturbed: sync_limits "disturbed I P"
proof (unfold_locales, goal_cases)
  case (5 l n)
  then show ?case by (rule logs_number)
next
  case (7 pb s a b)
  then show ?case using parallel_returns [OF _ others_ok] by auto
qed (auto intro: header_true [OF others_ok] logs_true [OF others_ok] range_true [OF others_ok] parallel_true [OF _ others_ok]
  header_reported [OF others_ok] number_bound [OF others_ok, THEN conjunct1]
  number_bound [OF others_ok, THEN conjunct2, simplified]
  max_bounds [OF others_ok, THEN conjunct1] max_bounds [OF others_ok, THEN conjunct2, simplified])

end
