(* ===== verification/Dispatcher.thy ===== *)
theory Dispatcher
  imports Eth_Types Errors
begin

text \<open>
  \<^verbatim>\<open>dispatcher.go\<close>: the fan-out of a log to the registered listeners, in order, up to the first
  error. A \<open>BlockchainListener\<close> is code of the host application: its \<open>HandleLog\<close> is a function on
  the world \<open>'w\<close> that returns an optional error.
\<close>

type_synonym 'w listener = "log \<Rightarrow> u64 \<Rightarrow> 'w \<Rightarrow> goerr option \<times> 'w"

record 'w EventDispatcher =
  listeners :: "'w listener list"

text \<open>The argument is \<open>None\<close> for a nil slice.\<close>

definition NewEventDispatcher :: "'w listener list option \<Rightarrow> 'w EventDispatcher" where
  "NewEventDispatcher ls = \<lparr>listeners = (case ls of None \<Rightarrow> [] | Some xs \<Rightarrow> xs)\<rparr>"

fun dispatch_to :: "'w listener list \<Rightarrow> log \<Rightarrow> u64 \<Rightarrow> 'w \<Rightarrow> goerr option \<times> 'w" where
  "dispatch_to [] l t w = (None, w)"
| "dispatch_to (h # hs) l t w =
     (case h l t w of
        (Some err, w') \<Rightarrow> (Some err, w')
      | (None, w') \<Rightarrow> dispatch_to hs l t w')"

definition dispatcher_Close :: "'w EventDispatcher \<Rightarrow> 'w \<Rightarrow> 'w" where
  "dispatcher_Close d w = w"

definition Dispatch :: "'w EventDispatcher \<Rightarrow> log \<Rightarrow> u64 \<Rightarrow> 'w \<Rightarrow> goerr option \<times> 'w" where
  "Dispatch d l t w = dispatch_to (listeners d) l t w"

lemma dispatch_to_append:
  "dispatch_to (hs @ hs') l t w =
     (case dispatch_to hs l t w of
        (Some err, w') \<Rightarrow> (Some err, w')
      | (None, w') \<Rightarrow> dispatch_to hs' l t w')"
  by (induction hs arbitrary: w) (auto split: prod.splits option.splits)

lemma dispatch_to_error_split:
  "dispatch_to hs l t w = (Some err, w') \<Longrightarrow>
   \<exists>pre h post w1. hs = pre @ h # post \<and> dispatch_to pre l t w = (None, w1) \<and> h l t w1 = (Some err, w')"
proof (induction hs arbitrary: w)
  case Nil
  then show ?case by simp
next
  case (Cons h hs)
  show ?case
  proof (cases "h l t w")
    case (Pair r w1)
    show ?thesis
    proof (cases r)
      case None
      with Pair Cons.prems have "dispatch_to hs l t w1 = (Some err, w')" by simp
      from Cons.IH [OF this] obtain pre h' post w2 where
        split: "hs = pre @ h' # post" "dispatch_to pre l t w1 = (None, w2)" "h' l t w2 = (Some err, w')"
        by blast
      with Pair None have "dispatch_to (h # pre) l t w = (None, w2)" by simp
      with split show ?thesis by (metis append_Cons)
    next
      case (Some e)
      with Pair Cons.prems have "h l t w = (Some err, w')" by simp
      moreover have "dispatch_to [] l t w = (None, w)" by simp
      ultimately show ?thesis by (metis append_Nil)
    qed
  qed
qed

section \<open>The outcome of a dispatch\<close>

text \<open>
  A dispatch runs the listeners in registration order and stops at the first error. It returns
  \<open>err\<close> exactly when the listeners split into ones that all succeeded, one that failed with \<open>err\<close> in
  the state they left, and ones that never ran.
\<close>

lemma dispatch_first_error:
  "Dispatch d l t w = (Some err, w') \<longleftrightarrow>
   (\<exists>pre h post w1. listeners d = pre @ h # post \<and> dispatch_to pre l t w = (None, w1) \<and> h l t w1 = (Some err, w'))"
  using dispatch_to_error_split [of "listeners d" l t w err w'] by (auto simp: Dispatch_def dispatch_to_append)

end
