(* ===== verification/System.thy ===== *)
theory System
  imports Parallel_Correct Interference Dispatcher
begin

text \<open>
  The package put together: an \<open>Indexer\<close> over the \<open>Pool\<close>, the \<open>Memory\<close> storage of \<^verbatim>\<open>memory.go\<close> and an
  \<open>EventDispatcher\<close>, in a world that holds the clients, the limiters, the breakers, the clock and
  the listeners' own state. This is where the contracts of the sync engine are discharged by the
  model of the pool, from the RPC client up.
\<close>

section \<open>The state\<close>

record Memory =
  mem_chain :: MemoryChainStorage
  mem_score :: MemoryScoreStorage
  mem_quota :: MemoryQuotaStorage

definition NewMemory :: Memory where
  "NewMemory = \<lparr>mem_chain = NewMemoryChainStorage, mem_score = NewMemoryScoreStorage,
                mem_quota = NewMemoryQuotaStorage\<rparr>"

text \<open>
  \<open>sys_deliv\<close> and \<open>sys_skipped\<close> are ghosts: the completed deliveries, and the blocks for which a call
  reported an unsupported transaction type. Nothing reads them. A listener may use the storage too.
\<close>

record 'w sys =
  sys_pool :: Pool
  sys_mem :: Memory
  sys_world :: 'w
  sys_deliv :: "(log \<times> u64) list"
  sys_skipped :: "u64 set"

definition note_skip :: "u64 \<Rightarrow> goerr option \<Rightarrow> 'w sys \<Rightarrow> 'w sys" where
  "note_skip n err s = (if isLocalDecodeError err then s\<lparr>sys_skipped := insert n (sys_skipped s)\<rparr> else s)"

section \<open>The ports\<close>

definition lift_pool :: "(Pool \<Rightarrow> 'w \<Rightarrow> 'a \<times> Pool \<times> 'w) \<Rightarrow> 'w sys \<Rightarrow> 'a \<times> 'w sys" where
  "lift_pool f s = (case f (sys_pool s) (sys_world s) of
     (r, pool', w') \<Rightarrow> (r, s\<lparr>sys_pool := pool', sys_world := w'\<rparr>))"

definition on_named :: "string \<Rightarrow> (Provider \<Rightarrow> Provider) \<Rightarrow> 'w sys \<Rightarrow> 'w sys" where
  "on_named n f s = (case providers (sys_pool s) n of
     None \<Rightarrow> s | Some p \<Rightarrow> s\<lparr>sys_pool := set_provider n (f p) (sys_pool s)\<rparr>)"

text \<open>
  The provider object behind a name. Providers are registered once, under their names, which never
  change.
\<close>

definition named :: "string \<Rightarrow> 'a \<Rightarrow> (Provider \<Rightarrow> 'w \<Rightarrow> 'a \<times> Provider \<times> 'w) \<Rightarrow> 'w sys \<Rightarrow> 'a \<times> 'w sys" where
  "named n nil f s = (case providers (sys_pool s) n of
     None \<Rightarrow> (nil, s)
   | Some p \<Rightarrow> (case f p (sys_world s) of
       (r, p', w') \<Rightarrow> (r, s\<lparr>sys_pool := set_provider n p' (sys_pool s), sys_world := w'\<rparr>)))"

definition get_named :: "string \<Rightarrow> 'a \<Rightarrow> (Provider \<Rightarrow> 'a) \<Rightarrow> 'w sys \<Rightarrow> 'a" where
  "get_named n nil f s = (case providers (sys_pool s) n of None \<Rightarrow> nil | Some p \<Rightarrow> f p)"

definition sys_provider :: "'w ext \<Rightarrow> string \<Rightarrow> 'w sys RPCProvider" where
  "sys_provider E n = \<lparr>
     rp_Name = get_named n n p_Name,
     rp_Priority = get_named n 0 p_Priority,
     rp_Score = get_named n (Fin 0) p_Score,
     rp_SetScore = (\<lambda>x. on_named n (p_SetScore x)),
     rp_IsAvailable = named n False (p_IsAvailable E),
     rp_RecordSuccess = (\<lambda>s. snd (named n () (\<lambda>p w. ((), p_RecordSuccess E p w)) s)),
     rp_RecordFailure = (\<lambda>err. on_named n (p_RecordFailure err)),
     rp_Close = named n None (p_Close E),
     rp_MaxLogBlockRange = get_named n 0 p_MaxLogBlockRange,
     rp_BlockByNumber = (\<lambda>i. named n (Inl nil_deref) (p_BlockByNumber E i)),
     rp_BlockByHash = (\<lambda>h. named n (Inl nil_deref) (p_BlockByHash E h)),
     rp_TransactionByHash = (\<lambda>h. named n (Inl nil_deref) (p_TransactionByHash E h)),
     rp_TransactionReceipt = (\<lambda>h. named n (Inl nil_deref) (p_TransactionReceipt E h)),
     rp_FilterLogs = (\<lambda>q. named n (Inl nil_deref) (p_FilterLogs E q)),
     rp_SubscribeNewHead = named n (Inl nil_deref) (p_SubscribeNewHead E),
     rp_HeaderByNumber = (\<lambda>i. named n (Inl nil_deref) (p_HeaderByNumber E i)),
     rp_BlockNumber = named n (Inl nil_deref) (p_BlockNumber E),
     rp_BalanceAt = (\<lambda>a. named n (Inl nil_deref) (p_BalanceAt E a)),
     rp_Call = (\<lambda>m. named n (Inl nil_deref) (p_Call E m)),
     rp_CodeAt = (\<lambda>a. named n (Inl nil_deref) (p_CodeAt E a)),
     rp_RestoreQuotaUsage = Some (\<lambda>used reset. on_named n (p_RestoreQuotaUsage used reset))\<rparr>"

definition sys_PersistQuotaUsage :: "'w ext \<Rightarrow> 'w sys QuotaStorage \<Rightarrow> 'w sys \<Rightarrow> goerr option \<times> 'w sys" where
  "sys_PersistQuotaUsage E storage s =
     (case rt_MapOrder (x_rt E) (orderedList (sys_pool s)) (sys_world s) of
        (ns, w1) \<Rightarrow> persist_quotas (qs_SetQuotaUsage storage) ns (sys_pool s) (s\<lparr>sys_world := w1\<rparr>))"

definition sys_GetScores :: "'w ext \<Rightarrow> 'w sys \<Rightarrow> (string \<times> f64) list \<times> 'w sys" where
  "sys_GetScores E s =
     (case rt_MapOrder (x_rt E) (orderedList (sys_pool s)) (sys_world s) of
        (ns, w') \<Rightarrow> (List.map_filter (\<lambda>n. map_option (\<lambda>x. (n, x)) (pool_GetScores (sys_pool s) n)) ns,
                    s\<lparr>sys_world := w'\<rparr>))"

definition sys_parallel :: "'w ext \<Rightarrow> 'w sys ParallelBackfiller" where
  "sys_parallel E = \<lparr>
     pb_ParallelLogPlan = lift_pool (ParallelLogPlan E),
     pb_LogsByBlockRangeParallel = (\<lambda>a b s.
       map_option (\<lambda>(r, pool', w'). (r, s\<lparr>sys_pool := pool', sys_world := w'\<rparr>))
         (LogsByBlockRangeParallel E a b (sys_pool s) (sys_world s)))\<rparr>"

definition sys_HeaderByNumber :: "'w ext \<Rightarrow> int \<Rightarrow> 'w sys \<Rightarrow> (goerr + header) \<times> 'w sys" where
  "sys_HeaderByNumber E i s = (case lift_pool (pool_HeaderByNumber E i) s of
     (r, s') \<Rightarrow> (r, note_skip (word_of_int i) (err_of_result r) s'))"

definition sys_LogsByBlockNumber :: "'w ext \<Rightarrow> u64 \<Rightarrow> 'w sys \<Rightarrow> (goerr + log list) \<times> 'w sys" where
  "sys_LogsByBlockNumber E n s = (case lift_pool (pool_LogsByBlockNumber E n) s of
     (r, s') \<Rightarrow> (r, note_skip n (err_of_result r) s'))"

definition sys_pool_port :: "'w ext \<Rightarrow> 'w sys ProviderPool" where
  "sys_pool_port E = \<lparr>
     pp_GetProvider = (\<lambda>s. case lift_pool (pool_GetProvider E) s of (a, s') \<Rightarrow> (map_option (sys_provider E) a, s')),
     pp_GetAllProviders = (\<lambda>s. map (\<lambda>n. Some (sys_provider E n)) (pool_GetAllProviders (sys_pool s))),
     pp_RecordSuccess = (\<lambda>p s. snd (lift_pool (\<lambda>pool w. ((), pool_RecordSuccess E (rp_Name p s) pool w)) s)),
     pp_RecordFailure = (\<lambda>p err s. s\<lparr>sys_pool := pool_RecordFailure (rp_Name p s) err (sys_pool s)\<rparr>),
     pp_GetScores = sys_GetScores E,
     pp_PersistQuotaUsage = sys_PersistQuotaUsage E,
     pp_Close = lift_pool (pool_Close E),
     pp_BlockByNumber = (\<lambda>i. lift_pool (pool_BlockByNumber E i)),
     pp_BlockByHash = (\<lambda>h. lift_pool (pool_BlockByHash E h)),
     pp_TransactionByHash = (\<lambda>h. lift_pool (pool_TransactionByHash E h)),
     pp_TransactionReceipt = (\<lambda>h. lift_pool (pool_TransactionReceipt E h)),
     pp_FilterLogs = (\<lambda>q. lift_pool (pool_FilterLogs E q)),
     pp_LogsByBlockNumber = sys_LogsByBlockNumber E,
     pp_LogsByBlockRange = (\<lambda>a b. lift_pool (pool_LogsByBlockRange E a b)),
     pp_SubscribeNewHead = lift_pool (pool_SubscribeNewHead E),
     pp_HeaderByNumber = sys_HeaderByNumber E,
     pp_BlockNumber = lift_pool (pool_BlockNumber E),
     pp_BalanceAt = (\<lambda>a. lift_pool (pool_BalanceAt E a)),
     pp_CodeAt = (\<lambda>a. lift_pool (pool_CodeAt E a)),
     pp_MaxLogBlockRange = lift_pool (pool_MaxLogBlockRange E),
     pp_parallel = Some (sys_parallel E),
     pp_IsRangeTooLargeError = Some (\<lambda>s. pool_IsRangeTooLargeError (sys_pool s))\<rparr>"

definition upd_chain :: "MemoryChainStorage \<Rightarrow> 'w sys \<Rightarrow> 'w sys" where
  "upd_chain m s = s\<lparr>sys_mem := (sys_mem s)\<lparr>mem_chain := m\<rparr>\<rparr>"

definition sys_SetProviderScore :: "'w ext \<Rightarrow> string \<Rightarrow> f64 \<Rightarrow> f64 \<Rightarrow> 'w sys \<Rightarrow> goerr option \<times> 'w sys" where
  "sys_SetProviderScore E p x y s = (case rt_Now (x_rt E) (sys_world s) of (now, w') \<Rightarrow>
     (case SetProviderScore now p x y (mem_score (sys_mem s)) of
        (err, m) \<Rightarrow> (err, s\<lparr>sys_mem := (sys_mem s)\<lparr>mem_score := m\<rparr>, sys_world := w'\<rparr>)))"

definition sys_SetQuotaUsage :: "'w ext \<Rightarrow> string \<Rightarrow> string \<Rightarrow> int \<Rightarrow> gotime \<Rightarrow> 'w sys \<Rightarrow> goerr option \<times> 'w sys" where
  "sys_SetQuotaUsage E p t used reset s = (case rt_Now (x_rt E) (sys_world s) of (now, w') \<Rightarrow>
     (case SetQuotaUsage now p t used reset (mem_quota (sys_mem s)) of
        (err, q) \<Rightarrow> (err, s\<lparr>sys_mem := (sys_mem s)\<lparr>mem_quota := q\<rparr>, sys_world := w'\<rparr>)))"

definition sys_SaveIndexedEvent :: "'w ext \<Rightarrow> IndexedEvent option \<Rightarrow> 'w sys \<Rightarrow> goerr option \<times> 'w sys" where
  "sys_SaveIndexedEvent E ev s = (case rt_Now (x_rt E) (sys_world s) of (now, w') \<Rightarrow>
     (case SaveIndexedEvent now ev (mem_chain (sys_mem s)) of
        (err, m) \<Rightarrow> (err, (upd_chain m s)\<lparr>sys_world := w'\<rparr>)))"

text \<open>\<open>Memory\<close> promotes the methods of its three parts.\<close>

definition sys_storage_port :: "'w ext \<Rightarrow> 'w sys ChainStorage" where
  "sys_storage_port E = \<lparr>
     cs_GetLastBlock = (\<lambda>c s. (GetLastBlock c (mem_chain (sys_mem s)), s)),
     cs_SetLastBlock = (\<lambda>c n s. case SetLastBlock c n (mem_chain (sys_mem s)) of (err, m) \<Rightarrow> (err, upd_chain m s)),
     cs_SaveIndexedEvent = sys_SaveIndexedEvent E,
     cs_GetIndexedEvents = (\<lambda>c a b s. (GetIndexedEvents c a b (mem_chain (sys_mem s)), s)),
     cs_IsEventIndexed = (\<lambda>c n i s. (IsEventIndexed c n i (mem_chain (sys_mem s)), s)),
     cs_Close = (\<lambda>s. case chain_Close (mem_chain (sys_mem s)) of (err, m) \<Rightarrow> (err, upd_chain m s)),
     cs_scores = Some \<lparr>ss_GetProviderScore = (\<lambda>p s. (GetProviderScore p (mem_score (sys_mem s)), s)),
                       ss_SetProviderScore = sys_SetProviderScore E,
                       ss_GetAllProviderScores = (\<lambda>s. (GetAllProviderScores (mem_score (sys_mem s)), s))\<rparr>,
     cs_quotas = Some \<lparr>qs_GetQuotaUsage = (\<lambda>p t s. (GetQuotaUsage p t (mem_quota (sys_mem s)), s)),
                       qs_SetQuotaUsage = sys_SetQuotaUsage E\<rparr>\<rparr>"

lemma memory_is_Storage: "is_Storage (sys_storage_port E)"
  by (simp add: is_Storage_def sys_storage_port_def)

definition sys_Dispatch :: "(Memory \<times> 'w) EventDispatcher \<Rightarrow> log \<Rightarrow> u64 \<Rightarrow> 'w sys \<Rightarrow> goerr option \<times> 'w sys" where
  "sys_Dispatch d l t s = (case Dispatch d l t (sys_mem s, sys_world s) of
     (err, (m, w)) \<Rightarrow>
       (let s1 = s\<lparr>sys_mem := m, sys_world := w\<rparr>
        in (err, if err = None then s1\<lparr>sys_deliv := sys_deliv s @ [(l, t)]\<rparr>
                 else note_skip (log_BlockNumber l) err s1)))"

definition sys_ports :: "'w ext \<Rightarrow> (Memory \<times> 'w) EventDispatcher \<Rightarrow> (goerr \<Rightarrow> 'w \<Rightarrow> 'w) \<Rightarrow> 'w sys ports" where
  "sys_ports E d onExhausted = \<lparr>
     pt_pool = sys_pool_port E,
     pt_storage = sys_storage_port E,
     pt_dispatcher = \<lparr>bd_Dispatch = sys_Dispatch d, 
       bd_Close = (\<lambda>s. case dispatcher_Close d (sys_mem s, sys_world s) of (m, w) \<Rightarrow> s\<lparr>sys_mem := m, sys_world := w\<rparr>)\<rparr>,
     pt_runtime = \<lparr>rs_After = (\<lambda>t s. case rt_After (x_rt E) t (sys_world s) of
                                  (e, w') \<Rightarrow> (e \<noteq> None, s\<lparr>sys_world := w'\<rparr>)),
                   rs_OnExhausted = (\<lambda>e s. s\<lparr>sys_world := onExhausted e (sys_world s)\<rparr>)\<rparr>\<rparr>"

section \<open>The contracts hold\<close>

definition sys_last :: "string \<Rightarrow> 'w sys \<Rightarrow> u64" where
  "sys_last chain s = (case lastBlocks (mem_chain (sys_mem s)) chain of None \<Rightarrow> 0 | Some n \<Rightarrow> n)"

text \<open>
  The invariant of a deployment: a well-formed pool with the given log filter, whose limits keep a
  parallel round within 31-bit job counts.
\<close>

definition plan_ok :: "Pool \<Rightarrow> bool" where
  "plan_ok pool \<longleftrightarrow> (\<forall>n. limit_of pool n * int (length (orderedList pool)) < 2 ^ 31 - 1)"

definition sys_ok :: "address list \<Rightarrow> hash list list \<Rightarrow> 'w sys \<Rightarrow> bool" where
  "sys_ok addrs topics s \<longleftrightarrow> pool_inv (sys_pool s) \<and> limits_ok (sys_pool s) \<and> plan_ok (sys_pool s) \<and>
     pool_logAddresses (sys_pool s) = addrs \<and> pool_logTopics (sys_pool s) = topics"

lemma limit_of_like: "pool_like pool pool' \<Longrightarrow> limit_of pool' n = limit_of pool n"
proof -
  assume l: "pool_like pool pool'"
  then have "map_option p_static (providers pool' n) = map_option p_static (providers pool n)" by (simp add: pool_like_def)
  with l show ?thesis
    by (cases "providers pool n"; cases "providers pool' n")
      (auto simp: limit_of_def effectiveMaxLogBlockRange_def p_static_def pool_like_def)
qed

lemma pool_like_length: "pool_like pool pool' \<Longrightarrow> length (orderedList pool') = length (orderedList pool)"
  unfolding pool_like_def by (metis size_mset)

lemma limits_ok_like:
  assumes "limits_ok pool" and l: "pool_like pool pool'"
  shows "limits_ok pool'"
proof -
  have "p_maxLogBlockRange p' < 2 ^ 63" if "providers pool' n = Some p'" for n p'
  proof -
    from l that obtain p where "providers pool n = Some p" "p_static p' = p_static p"
      unfolding pool_like_def by (metis map_option_eq_Some)
    with assms(1) show ?thesis by (auto simp: limits_ok_def p_static_def)
  qed
  with assms pool_like_length [OF l] show ?thesis by (auto simp: limits_ok_def pool_like_def)
qed

lemma sys_ok_like:
  assumes "sys_ok A T s" and "pool_like (sys_pool s) (sys_pool s')" and "pool_inv (sys_pool s')"
  shows "sys_ok A T s'"
  using assms limits_ok_like [OF _ assms(2)] limit_of_like [OF assms(2)] pool_like_length [OF assms(2)]
  by (auto simp: sys_ok_def plan_ok_def pool_like_def)

lemma sys_ok_evolves:
  "sys_ok A T s \<Longrightarrow> pool_evolves (sys_pool s) (sys_pool s') \<Longrightarrow> sys_ok A T s'"
  by (rule sys_ok_like) (auto simp: evolves_like sys_ok_def intro: pool_inv_evolves)

abbreviation sys_same :: "address list \<Rightarrow> hash list list \<Rightarrow> string \<Rightarrow> 'w sys \<Rightarrow> 'w sys \<Rightarrow> bool" where
  "sys_same A T chain \<equiv> frame (sys_ok A T) (sys_last chain) sys_deliv sys_skipped"

lemma sys_same_pool:
  assumes "sys_ok A T s" and "pool_evolves (sys_pool s) pool'"
  shows "sys_same A T chain s (s\<lparr>sys_pool := pool', sys_world := w'\<rparr>)"
  using assms sys_ok_evolves [OF assms(1), of "s\<lparr>sys_pool := pool', sys_world := w'\<rparr>"]
  by (simp add: frame_def sys_last_def)

lemma lift_pool_same:
  assumes "sys_ok A T s" and "lift_pool f s = (r, s')"
    and "\<And>r pool' w'. f (sys_pool s) (sys_world s) = (r, pool', w') \<Longrightarrow> pool_evolves (sys_pool s) pool'"
  shows "sys_same A T chain s s'"
  using assms sys_same_pool by (fastforce simp: lift_pool_def split: prod.splits)

lemma note_skip_same: "sys_same A T chain s s' \<Longrightarrow> sys_same A T chain s (note_skip n err s')"
  by (auto simp: frame_def note_skip_def sys_ok_def sys_last_def)

lemma note_skip_noted: "decode_skip sys_skipped n err (note_skip n err s)"
  by (simp add: decode_skip_def note_skip_def)

section \<open>Deployments\<close>

text \<open>
  What a deployment relies on outside the package: the clients answer from one chain, and the
  listeners leave the indexer's progress alone.
\<close>

definition log_query :: "address list \<Rightarrow> hash list list \<Rightarrow> u64 \<Rightarrow> u64 \<Rightarrow> FilterQuery" where
  "log_query A T a b = \<lparr>fq_FromBlock = big_SetUint64 a, fq_ToBlock = big_SetUint64 b, fq_Addresses = A, fq_Topics = T\<rparr>"

definition honest_clients :: "'w ext \<Rightarrow> address list \<Rightarrow> hash list list \<Rightarrow> (u64 \<Rightarrow> log list) \<Rightarrow> (u64 \<Rightarrow> u64) \<Rightarrow> bool" where
  "honest_clients E A T chain_logs chain_time \<longleftrightarrow>
     (\<forall>h t a b w ls w'. a \<le> b \<longrightarrow> eth_FilterLogs (x_eth E) h t (log_query A T a b) w = (Inr ls, w') \<longrightarrow>
        ls = concat (map chain_logs (blocks a b))) \<and>
     (\<forall>h t n w hd w'. eth_HeaderByNumber (x_eth E) h t (big_SetUint64 n) w = (Inr hd, w') \<longrightarrow>
        hdr_Time hd = chain_time n) \<and>
     (\<forall>h t w c w'. eth_BlockNumber (x_eth E) h t w = (Inr c, w') \<longrightarrow> unat c < 2 ^ 63) \<and>
     (\<forall>n. \<forall>l \<in> set (chain_logs n). log_BlockNumber l = n)"

definition quiet_listeners :: "(Memory \<times> 'w) EventDispatcher \<Rightarrow> string \<Rightarrow> bool" where
  "quiet_listeners d chain \<longleftrightarrow> (\<forall>l t m w r m' w'. Dispatch d l t (m, w) = (r, (m', w')) \<longrightarrow>
     lastBlocks (mem_chain m') chain = lastBlocks (mem_chain m) chain)"

text \<open>What the clients report, in some state of the world.\<close>

definition reported_head :: "'w ext \<Rightarrow> u64 \<Rightarrow> bool" where
  "reported_head E c \<longleftrightarrow> (\<exists>h t w w'. eth_BlockNumber (x_eth E) h t w = (Inr c, w'))"

definition reported_header :: "'w ext \<Rightarrow> u64 \<Rightarrow> header \<Rightarrow> bool" where
  "reported_header E n header \<longleftrightarrow>
     (\<exists>h t w w'. eth_HeaderByNumber (x_eth E) h t (big_SetUint64 n) w = (Inr header, w'))"

locale deployment =
  fixes E :: "'w ext" and d :: "(Memory \<times> 'w) EventDispatcher" and onExhausted :: "goerr \<Rightarrow> 'w \<Rightarrow> 'w"
    and chain :: string and A :: "address list" and T :: "hash list list"
    and chain_logs :: "u64 \<Rightarrow> log list" and chain_time :: "u64 \<Rightarrow> u64"
  assumes honest: "honest_clients E A T chain_logs chain_time"
    and quiet: "quiet_listeners d chain"

lemma log_query_eq: "sys_ok A T s \<Longrightarrow> logFilterQuery (sys_pool s) a b = log_query A T a b"
  by (simp add: sys_ok_def logFilterQuery_def log_query_def)

lemma served_honest:
  "honest_clients E A T cl ct \<Longrightarrow> a \<le> b \<Longrightarrow> served E (log_query A T a b) ls \<Longrightarrow> ls = concat (map cl (blocks a b))"
  unfolding honest_clients_def served_def by blast

lemma honest_header:
  "honest_clients E A T cl ct \<Longrightarrow> eth_HeaderByNumber (x_eth E) c t (big_SetUint64 n) w = (Inr h, w') \<Longrightarrow>
   hdr_Time h = ct n"
  unfolding honest_clients_def by blast

lemma honest_number:
  "honest_clients E A T cl ct \<Longrightarrow> eth_BlockNumber (x_eth E) c t w = (Inr m, w') \<Longrightarrow> unat m < 2 ^ 63"
  unfolding honest_clients_def by blast

lemma split_answers_honest:
  assumes h: "honest_clients E A T cl ct" and sys: "sys_ok A T s"
    and sp: "split_answers E (sys_pool s) a b ranges chunks"
  shows "concat chunks = concat (map cl (blocks a b))"
proof -
  have "list_all2 (\<lambda>(x, y) logs. x \<le> y \<and> served E (log_query A T x y) logs) rs cs \<Longrightarrow>
    concat cs = concat (map cl (concat (map (\<lambda>(x, y). blocks x y) rs)))" for rs cs
  proof (induction rs cs rule: list_all2_induct)
    case (Cons r rs c cs)
    obtain x y where r: "r = (x, y)" by (cases r)
    have "c = concat (map cl (blocks x y))" using Cons r served_honest [OF h] by auto
    with Cons r show ?case by simp
  qed simp
  from this [of ranges chunks] show ?thesis using sp unfolding split_answers_def log_query_eq [OF sys] by simp
qed

lemma sys_header_frame:
  assumes "sys_ok A T s" and "sys_HeaderByNumber E (big_SetUint64 n) s = (r, s')"
  shows "sys_same A T chain s s' \<and> decode_skip sys_skipped n (err_of_result r) s'"
proof -
  obtain s1 where l: "lift_pool (pool_HeaderByNumber E (big_SetUint64 n)) s = (r, s1)"
    and s': "s' = note_skip n (err_of_result r) s1"
    using assms(2) by (auto simp: sys_HeaderByNumber_def big_SetUint64_def split: prod.splits)
  have "sys_same A T chain s s1"
    by (rule lift_pool_same [OF assms(1) l]) (auto simp: pool_HeaderByNumber_def intro: pool_rpc_evolves [OF quota_only_rpcs(6)])
  then show ?thesis unfolding s' by (simp add: note_skip_same note_skip_noted)
qed

lemma sys_logs_frame:
  assumes "sys_ok A T s" and "sys_LogsByBlockNumber E n s = (r, s')"
  shows "sys_same A T chain s s' \<and> decode_skip sys_skipped n (err_of_result r) s'"
proof -
  obtain s1 where l: "lift_pool (pool_LogsByBlockNumber E n) s = (r, s1)"
    and s': "s' = note_skip n (err_of_result r) s1"
    using assms(2) by (auto simp: sys_LogsByBlockNumber_def split: prod.splits)
  have "sys_same A T chain s s1"
    by (rule lift_pool_same [OF assms(1) l])
      (auto simp: pool_LogsByBlockNumber_def pool_FilterLogs_def intro: pool_rpc_evolves [OF quota_only_rpcs(5)])
  then show ?thesis unfolding s' by (simp add: note_skip_same note_skip_noted)
qed

text \<open>Persisting the quotas writes the quota table only.\<close>

lemma persist_quotas_frame:
  "persist_quotas (sys_SetQuotaUsage E) ns pool s = (r, s') \<Longrightarrow>
   sys_pool s' = sys_pool s \<and> mem_chain (sys_mem s') = mem_chain (sys_mem s) \<and>
   mem_score (sys_mem s') = mem_score (sys_mem s) \<and> sys_deliv s' = sys_deliv s \<and> sys_skipped s' = sys_skipped s"
proof (induction ns arbitrary: s)
  case (Cons n ns)
  show ?case
  proof (cases "providers pool n")
    case (Some p)
    obtain x s1 where x: "sys_SetQuotaUsage E (p_name p) ''requests'' (qm_used (p_quota p)) (fst (p_GetQuotaReset p)) s = (x, s1)"
      by (cases "sys_SetQuotaUsage E (p_name p) ''requests'' (qm_used (p_quota p)) (fst (p_GetQuotaReset p)) s")
    then have "sys_pool s1 = sys_pool s \<and> mem_chain (sys_mem s1) = mem_chain (sys_mem s) \<and>
        mem_score (sys_mem s1) = mem_score (sys_mem s) \<and> sys_deliv s1 = sys_deliv s \<and> sys_skipped s1 = sys_skipped s"
      by (auto simp: sys_SetQuotaUsage_def split: prod.splits)
    with Cons Some x show ?thesis by (auto simp: p_GetQuotaUsage_def Usage_def split: option.splits)
  qed (use Cons in simp)
qed simp

lemma plan_evolves: "ParallelLogPlan E pool w = (pl, pool', w') \<Longrightarrow> pool_evolves pool pool'"
  using snapshot_evolves(1) by (fastforce simp: ParallelLogPlan_def split: prod.splits)

lemma sys_plan_bounds:
  assumes "sys_ok A T s" and "ParallelLogPlan E (sys_pool s) (sys_world s) = ((k, c), pool', w')" and "1 < k" and "0 < c"
  shows "c * k < 2 ^ 31 - 1"
proof -
  obtain av where snap: "availableProvidersSnapshot E (sys_pool s) (sys_world s) = (av, pool', w')"
    and kc: "av \<noteq> []" "k = int (length av)" "c = smallest_limit (map (limit_of pool') av) 0"
    using assms(2,3) by (auto simp: ParallelLogPlan_def split: prod.splits if_splits)
  note e = snapshot_evolves [OF snap]
  have inv: "pool_inv pool'" using assms(1) e(1) by (auto simp: sys_ok_def intro: pool_inv_evolves)
  have pos: "\<forall>l \<in> set (map (limit_of pool') av). 1 \<le> l" using limit_of_pos [OF inv] e(3) by auto
  have "c = Min (set (map (limit_of pool') av))" using smallest_limit_Min [OF pos, of 0] kc by simp
  then have "c \<in> set (map (limit_of pool') av)" using kc(1) by (metis List.finite_set Min_in map_is_Nil_conv set_empty)
  then obtain n where n: "c = limit_of pool' n" by auto
  then have "c = limit_of (sys_pool s) n" using limit_of_like [OF evolves_like [OF e(1)]] by simp
  moreover have "length av \<le> length (orderedList (sys_pool s))" using e(2) by (rule list_emb_length)
  then have "c * k \<le> c * int (length (orderedList (sys_pool s)))" using kc(2) assms(4) by (intro mult_left_mono) auto
  ultimately show ?thesis using assms(1) unfolding sys_ok_def plan_ok_def by (metis le_less_trans)
qed

lemma sys_parallel_ok:
  assumes "sys_ok A T s" and "round_bounds a b"
  shows "\<exists>r s'. pb_LogsByBlockRangeParallel (sys_parallel E) a b s = Some (r, s') \<and> sys_same A T chain s s' \<and>
           (\<forall>out. r = Inr out \<longrightarrow> (\<exists>ranges chunks. split_answers E (sys_pool s) a b ranges chunks \<and> out = concat chunks))"
proof -
  obtain r pool' w' where r: "LogsByBlockRangeParallel E a b (sys_pool s) (sys_world s) = Some (r, pool', w')"
    "pool_inv pool'" "pool_like (sys_pool s) pool'"
    "\<forall>out. r = Inr out \<longrightarrow> (\<exists>ranges chunks. split_answers E (sys_pool s) a b ranges chunks \<and> out = concat chunks)"
    using LogsByBlockRangeParallel_ok [of "sys_pool s" b a E "sys_world s"] assms
    by (auto simp: sys_ok_def round_bounds_def)
  let ?s = "s\<lparr>sys_pool := pool', sys_world := w'\<rparr>"
  have "sys_same A T chain s ?s" using sys_ok_like [OF assms(1), of ?s] r(2,3) by (simp add: frame_def sys_last_def)
  with r show ?thesis by (simp add: sys_parallel_def)
qed

lemma sys_dispatch_cases:
  assumes "quiet_listeners d chain" and "sys_ok A T s" and "sys_Dispatch d l t s = (r, s')"
  shows "r = None \<Longrightarrow> sys_ok A T s' \<and> sys_last chain s' = sys_last chain s \<and> sys_deliv s' = sys_deliv s @ [(l, t)] \<and>
           sys_skipped s \<subseteq> sys_skipped s'"
    and "r = Some e \<Longrightarrow> sys_same A T chain s s' \<and> decode_skip sys_skipped (log_BlockNumber l) (Some e) s'"
proof -
  obtain m w where d: "Dispatch d l t (sys_mem s, sys_world s) = (r, (m, w))"
    and s': "s' = (if r = None then s\<lparr>sys_mem := m, sys_world := w, sys_deliv := sys_deliv s @ [(l, t)]\<rparr>
                   else note_skip (log_BlockNumber l) r (s\<lparr>sys_mem := m, sys_world := w\<rparr>))"
    using assms(3) by (auto simp: sys_Dispatch_def Let_def split: prod.splits)
  have last: "lastBlocks (mem_chain m) chain = lastBlocks (mem_chain (sys_mem s)) chain"
    using assms(1) d unfolding quiet_listeners_def by blast
  show "r = None \<Longrightarrow> sys_ok A T s' \<and> sys_last chain s' = sys_last chain s \<and> sys_deliv s' = sys_deliv s @ [(l, t)] \<and>
      sys_skipped s \<subseteq> sys_skipped s'"
    using assms(2) s' last by (simp add: sys_ok_def sys_last_def)
  show "r = Some e \<Longrightarrow> sys_same A T chain s s' \<and> decode_skip sys_skipped (log_BlockNumber l) (Some e) s'"
    using assms(2) s' last
    by (auto simp: frame_def sys_ok_def sys_last_def note_skip_def decode_skip_def)
qed

lemma sys_ports_simps [simp]:
  "pp_GetProvider (pt_pool (sys_ports E d x)) =
     (\<lambda>s. case lift_pool (pool_GetProvider E) s of (a, s') \<Rightarrow> (map_option (sys_provider E) a, s'))"
  "pp_LogsByBlockNumber (pt_pool (sys_ports E d x)) = sys_LogsByBlockNumber E"
  "pp_LogsByBlockRange (pt_pool (sys_ports E d x)) = (\<lambda>a b. lift_pool (pool_LogsByBlockRange E a b))"
  "pp_HeaderByNumber (pt_pool (sys_ports E d x)) = sys_HeaderByNumber E"
  "pp_BlockNumber (pt_pool (sys_ports E d x)) = lift_pool (pool_BlockNumber E)"
  "pp_MaxLogBlockRange (pt_pool (sys_ports E d x)) = lift_pool (pool_MaxLogBlockRange E)"
  "pp_parallel (pt_pool (sys_ports E d x)) = Some (sys_parallel E)"
  "pp_GetScores (pt_pool (sys_ports E d x)) = sys_GetScores E"
  "pp_PersistQuotaUsage (pt_pool (sys_ports E d x)) = sys_PersistQuotaUsage E"
  "cs_GetLastBlock (pt_storage (sys_ports E d x)) = (\<lambda>c s. (GetLastBlock c (mem_chain (sys_mem s)), s))"
  "cs_SetLastBlock (pt_storage (sys_ports E d x)) =
     (\<lambda>c n s. case SetLastBlock c n (mem_chain (sys_mem s)) of (err, m) \<Rightarrow> (err, upd_chain m s))"
  "cs_scores (pt_storage (sys_ports E d x)) =
     Some \<lparr>ss_GetProviderScore = (\<lambda>p s. (GetProviderScore p (mem_score (sys_mem s)), s)), ss_SetProviderScore = sys_SetProviderScore E,
           ss_GetAllProviderScores = (\<lambda>s. (GetAllProviderScores (mem_score (sys_mem s)), s))\<rparr>"
  "cs_quotas (pt_storage (sys_ports E d x)) =
     Some \<lparr>qs_GetQuotaUsage = (\<lambda>p t s. (GetQuotaUsage p t (mem_quota (sys_mem s)), s)), qs_SetQuotaUsage = sys_SetQuotaUsage E\<rparr>"
  "bd_Dispatch (pt_dispatcher (sys_ports E d x)) = sys_Dispatch d"
  "rs_After (pt_runtime (sys_ports E d x)) =
     (\<lambda>t s. case rt_After (x_rt E) t (sys_world s) of (e, w') \<Rightarrow> (e \<noteq> None, s\<lparr>sys_world := w'\<rparr>))"
  "rs_OnExhausted (pt_runtime (sys_ports E d x)) = (\<lambda>e s. s\<lparr>sys_world := x e (sys_world s)\<rparr>)"
  by (simp_all add: sys_ports_def sys_pool_port_def sys_storage_port_def)

lemma MaxLogBlockRange_bounds:
  assumes "pool_inv pool" and "limits_ok pool" and m: "pool_MaxLogBlockRange E pool w = (m, pool', w')"
  shows "1 \<le> m \<and> m < 2 ^ 63"
proof -
  have "limits_ok pool'" by (rule limits_ok_evolves [OF assms(2) MaxLogBlockRange_evolves [OF m]])
  then have "m < 2 ^ 63" using m
    by (auto simp: pool_MaxLogBlockRange_def limits_ok_def split: prod.splits option.splits if_splits)
  with MaxLogBlockRange_pos [OF assms(1) m] show ?thesis by simp
qed

lemma sys_set_last:
  assumes "sys_ok A T s" and "(case SetLastBlock chain n (mem_chain (sys_mem s)) of (err, m) \<Rightarrow> (err, upd_chain m s)) = (r, s')"
  shows "r = None \<and> sys_ok A T s' \<and> sys_last chain s' = n \<and> sys_deliv s' = sys_deliv s \<and> sys_skipped s \<subseteq> sys_skipped s'"
  using assms by (auto simp: SetLastBlock_def upd_chain_def sys_ok_def sys_last_def)

text \<open>A call that touches only the other two storages and the world.\<close>

lemma sys_side_same:
  assumes "sys_ok A T s" and "sys_pool s' = sys_pool s" and "mem_chain (sys_mem s') = mem_chain (sys_mem s)"
    and "sys_deliv s' = sys_deliv s" and "sys_skipped s' = sys_skipped s"
  shows "sys_same A T chain s s'"
  using assms by (simp add: frame_def sys_ok_def sys_last_def)

lemma sys_rpc_value:
  assumes "sys_ok A T s"
  shows "sys_HeaderByNumber E (big_SetUint64 n) s = (Inr h, s') \<Longrightarrow>
           \<exists>c t w w'. eth_HeaderByNumber (x_eth E) c t (big_SetUint64 n) w = (Inr h, w')"
    and "sys_LogsByBlockNumber E n s = (Inr ls, s') \<Longrightarrow> served E (log_query A T n n) ls"
    and "lift_pool (pool_LogsByBlockRange E a b) s = (Inr ls, s') \<Longrightarrow> served E (log_query A T a b) ls"
    and "lift_pool (pool_BlockNumber E) s = (Inr m, s') \<Longrightarrow>
           \<exists>c t w w'. eth_BlockNumber (x_eth E) c t w = (Inr m, w')"
  unfolding log_query_eq [OF assms, symmetric] served_def
  by (auto simp: sys_HeaderByNumber_def sys_LogsByBlockNumber_def lift_pool_def pool_HeaderByNumber_def
      pool_LogsByBlockNumber_def pool_LogsByBlockRange_def pool_FilterLogs_def pool_BlockNumber_def p_rpc_defs
      split: prod.splits dest!: pool_rpc_value)

sublocale deployment \<subseteq> sync_env "sys_ports E d onExhausted" chain "sys_ok A T" "sys_last chain" sys_deliv sys_skipped
proof (unfold_locales, goal_cases)
  case (1 s n r s')
  then show ?case by (simp add: sys_header_frame)
next
  case (2 s n rl s')
  then show ?case by (simp add: sys_logs_frame)
next
  case (3 s a b rl s')
  then show ?case by (auto intro!: lift_pool_same pool_LogsByBlockRange_evolves)
next
  case (4 s m s')
  then show ?case by (auto intro!: lift_pool_same MaxLogBlockRange_evolves)
next
  case (5 pb s pl s')
  then show ?case by (auto simp: sys_parallel_def intro!: lift_pool_same plan_evolves)
next
  case (6 pb s k c s')
  then show ?case using sys_plan_bounds [of A T s E k c] by (auto simp: sys_parallel_def lift_pool_def split: prod.splits)
next
  case (7 pb s a b rl s')
  then show ?case using sys_parallel_ok [of A T s a b E chain] by auto
next
  case (8 s g s')
  then show ?case by (auto split: prod.splits intro!: lift_pool_same GetProvider_evolves)
next
  case (9 s rn s')
  then show ?case
    by (auto simp: pool_BlockNumber_def intro!: lift_pool_same pool_rpc_evolves [OF quota_only_rpcs(7)])
next
  case (13 s n s')
  then show ?case using sys_set_last [of A T s chain n None s'] by auto
next
  case (14 s n e s')
  then show ?case using sys_set_last [of A T s chain n "Some e" s'] by auto
next
  case (15 s l t s')
  then show ?case using sys_dispatch_cases(1) [OF quiet, of A T s l t None s'] by simp
next
  case (16 s l t e s')
  then show ?case using sys_dispatch_cases(2) [OF quiet, of A T s l t "Some e" s' e] by simp
qed (auto simp: GetLastBlock_def sys_last_def sys_SetProviderScore_def sys_GetScores_def sys_PersistQuotaUsage_def
  split: prod.splits intro!: sys_side_same dest!: persist_quotas_frame)

sublocale deployment \<subseteq> sync_limits "sys_ports E d onExhausted" chain "sys_ok A T" "sys_last chain" sys_deliv sys_skipped
  chain_logs chain_time "reported_head E" "reported_header E"
proof (unfold_locales, goal_cases)
  case (1 s n h s')
  then show ?case using sys_rpc_value(1) [of A T s E n h s'] honest_header [OF honest] by auto
next
  case (2 s n ls s')
  then show ?case using sys_rpc_value(2) [of A T s E n ls s'] served_honest [OF honest, of n n ls] by simp
next
  case (3 s a b ls s')
  then show ?case using sys_rpc_value(3) [of A T s E a b ls s'] served_honest [OF honest, of a b ls] by simp
next
  case (4 pb s a b ls s')
  then show ?case using sys_parallel_ok [of A T s a b E chain] split_answers_honest [OF honest] by fastforce
next
  case (5 l n)
  then show ?case using honest by (simp add: honest_clients_def)
next
  case (6 s m s')
  then show ?case using MaxLogBlockRange_bounds [of "sys_pool s" E "sys_world s" m] by (auto simp: lift_pool_def sys_ok_def split: prod.splits)
next
  case (7 pb s a b)
  then show ?case using sys_parallel_ok [of A T s a b E chain] by auto
next
  case (8 s c s')
  then show ?case using sys_rpc_value(4) [of A T s E c s'] honest_number [OF honest] by (auto simp: reported_head_def)
next
  case (9 s n h s')
  then show ?case using sys_rpc_value(1) [of A T s E n h s'] by (auto simp: reported_header_def)
qed

section \<open>One sync of a deployment\<close>

text \<open>
  What one sync does on the chain the clients report. It may fail before it has changed anything.
  Otherwise the blocks above its base up to the reported head are delivered and persisted; \<open>lb\<close>, the
  progress recorded before the first of them, is the base where the sync has rewound. In \<open>DebugMode\<close>
  nothing is persisted.
\<close>

definition sync_progress :: "'w ext \<Rightarrow> (u64 \<Rightarrow> log list) \<Rightarrow> (u64 \<Rightarrow> u64) \<Rightarrow> string \<Rightarrow> Indexer \<Rightarrow> 'w sys \<Rightarrow>
    goerr option \<Rightarrow> 'w sys \<Rightarrow> bool" where
  "sync_progress E logs time chain idx s r s' \<longleftrightarrow>
     r \<noteq> None \<and> sys_last chain s' = sys_last chain s \<and> sys_deliv s' = sys_deliv s \<or>
     (\<exists>base cur lb. sync_base (reported_header E) idx (first_base (ix_config idx) (sys_last chain s)) cur base \<and>
        (r = None \<longrightarrow> reported_head E cur) \<and>
        (base = first_base (ix_config idx) (sys_last chain s) \<and> lb = sys_last chain s \<or>
         lb = (if ic_DebugMode (ix_config idx) then sys_last chain s else base)) \<and>
        progressed logs time (sys_skipped s') (ic_DebugMode (ix_config idx)) (new_blocks base cur) r lb (sys_last chain s') (sys_deliv s) (sys_deliv s'))"

locale sys_sync =
  sync_limits P chain "sys_ok A T" "sys_last chain" sys_deliv sys_skipped chain_logs chain_time "reported_head E" "reported_header E"
  for P :: "'w sys ports" and chain :: string and A :: "address list" and T :: "hash list list"
    and chain_logs :: "u64 \<Rightarrow> log list" and chain_time :: "u64 \<Rightarrow> u64" and E :: "'w ext"
begin

lemma outcome_progress:
  assumes "sync_base (reported_header E) idx (first_base (ix_config idx) (sys_last chain s)) cur base"
    and "r = None \<longrightarrow> reported_head E cur" and "outcome (ic_DebugMode (ix_config idx)) (first_base (ix_config idx) (sys_last chain s)) base cur s r s'"
  shows "sync_progress E chain_logs chain_time chain idx s r s'"
proof -
  obtain s1 where "rebased (ic_DebugMode (ix_config idx)) (first_base (ix_config idx) (sys_last chain s)) base s s1"
    "synced (ic_DebugMode (ix_config idx)) base cur s1 r s'" using assms(3) by (auto simp: outcome_def)
  with assms(1,2) show ?thesis unfolding sync_progress_def
    by (intro disjI2 exI [of _ base] exI [of _ cur] exI [of _ "sys_last chain s1"]) (auto simp: rebased_def synced_def)
qed

lemma outcome_ok: "outcome dbg n base cur s r s' \<Longrightarrow> sys_ok A T s' \<and> sys_skipped s \<subseteq> sys_skipped s'"
  by (auto simp: outcome_def synced_def rebased_def)

lemma sync_delivers:
  assumes "sys_ok A T s" and "ic_Chain (ix_config idx) = chain"
  shows "\<exists>r idx' s'. syncBlocks P idx s = Some (r, idx', s') \<and>
      ix_config idx' = ix_config idx \<and> sys_ok A T s' \<and> sys_skipped s \<subseteq> sys_skipped s' \<and>
      (fst (pp_GetProvider (pt_pool P) s) = None \<and> r = None \<and> sys_last chain s' = sys_last chain s \<and> sys_deliv s' = sys_deliv s \<or>
       sync_progress E chain_logs chain_time chain idx s r s')"
proof -
  from syncBlocks_spec [OF assms refl] obtain r idx' s' where run: "syncBlocks P idx s = Some (r, idx', s')"
    "ix_config idx' = ix_config idx" and out:
    "sys_same A T chain s s' \<and> (if r = None then fst (pp_GetProvider (pt_pool P) s) = None else True) \<or>
     (\<exists>base cur. sync_base (reported_header E) idx (first_base (ix_config idx) (sys_last chain s)) cur base \<and>
        (r = None \<longrightarrow> reported_head E cur) \<and> outcome (ic_DebugMode (ix_config idx)) (first_base (ix_config idx) (sys_last chain s)) base cur s r s')"
    by blast
  from out have "sys_ok A T s' \<and> sys_skipped s \<subseteq> sys_skipped s'" unfolding frame_def using outcome_ok by blast
  moreover from out have "fst (pp_GetProvider (pt_pool P) s) = None \<and> r = None \<and> sys_last chain s' = sys_last chain s \<and> sys_deliv s' = sys_deliv s \<or>
       sync_progress E chain_logs chain_time chain idx s r s'"
  proof
    assume "sys_same A T chain s s' \<and> (if r = None then fst (pp_GetProvider (pt_pool P) s) = None else True)"
    then show ?thesis by (auto simp: frame_def sync_progress_def split: if_splits)
  qed (auto intro: outcome_progress)
  ultimately show ?thesis using run by blast
qed

end

sublocale deployment \<subseteq> sys_sync "sys_ports E d onExhausted" chain A T chain_logs chain_time E
  by unfold_locales

end
