(* ===== verification/Devnet.thy ===== *)
theory Devnet
  imports System
begin

text \<open>
  A small local network on which the development is evaluated: clients that answer from a fixed
  chain of five blocks, a counter as the clock, breakers and limiters switched off, two providers
  of different priority and no quota, and one listener that stores every log as an indexed event. It shows that
  the contracts a deployment relies on can be met, and it is the input of the witnesses.
\<close>

section \<open>The outside world\<close>

definition devnet_rt :: "nat runtime_api" where
  "devnet_rt = \<lparr>rt_Now = (\<lambda>w. (int w, Suc w)), rt_After = (\<lambda>d w. (None, w)), rt_Float64 = (\<lambda>w. (Fin 0, w)),
     rt_OutOfRange = (\<lambda>x. 0), rt_MapOrder = (\<lambda>ns w. (ns, w)), rt_Sched = (\<lambda>n w. ((w, False), Suc w)),
     rt_CtxErr = (\<lambda>w. None)\<rparr>"

definition devnet_rate :: "nat rate_api" where
  "devnet_rate = \<lparr>rate_NewLimiter = (\<lambda>r b w. (0, w)), rate_Allow = (\<lambda>h w. (True, w)),
     rate_Wait = (\<lambda>h w. (None, w)), rate_WaitN = (\<lambda>h n w. (None, w)), rate_Reserve = (\<lambda>h w. (0, w)),
     rate_ReserveN = (\<lambda>h t n w. (0, w)), rate_SetLimit = (\<lambda>h x w. w), rate_SetBurst = (\<lambda>h n w. w),
     rate_Tokens = (\<lambda>h w. (Fin 0, w)), rate_Burst = (\<lambda>h w. 0), rate_Limit = (\<lambda>h w. Fin 0), rate_Inf = PInf\<rparr>"

definition devnet_gb :: "nat breaker_api" where
  "devnet_gb = \<lparr>gb_New = (\<lambda>st w. (0, w)), gb_Admit = (\<lambda>h w. (None, w)), gb_Report = (\<lambda>h b w. w),
     gb_State = (\<lambda>h w. (StateClosed, w))\<rparr>"

definition devnet_logs :: "u64 \<Rightarrow> log list" where
  "devnet_logs n = (if even (unat n) then [\<lparr>log_BlockNumber = n, log_Data = ''a''\<rparr>, \<lparr>log_BlockNumber = n, log_Data = ''b''\<rparr>]
                    else [])"

definition devnet_time :: "u64 \<Rightarrow> u64" where
  "devnet_time n = n + 100"

definition devnet_eth :: "nat eth_api" where
  "devnet_eth = \<lparr>
     eth_BlockByNumber = (\<lambda>h t n w. (Inr (Block 0), w)),
     eth_BlockByHash = (\<lambda>h t x w. (Inr (Block 0), w)),
     eth_TransactionByHash = (\<lambda>h t x w. (Inr (Transaction 0, False), w)),
     eth_TransactionReceipt = (\<lambda>h t x w. (Inr (Receipt 0), w)),
     eth_FilterLogs = (\<lambda>h t q w.
        (Inr (concat (map devnet_logs (blocks (word_of_int (fq_FromBlock q)) (word_of_int (fq_ToBlock q))))), w)),
     eth_SubscribeNewHead = (\<lambda>h w. (Inr 0, w)),
     eth_HeaderByNumber = (\<lambda>h t n w. (Inr \<lparr>hdr_Time = devnet_time (word_of_int n), hdr_Hash = word_of_int n\<rparr>, w)),
     eth_BlockNumber = (\<lambda>h t w. (Inr 5, w)),
     eth_BalanceAt = (\<lambda>h t a w. (Inr 0, w)),
     eth_CallContract = (\<lambda>h t m w. (Inr [], w)),
     eth_CodeAt = (\<lambda>h t a w. (Inr [], w)),
     eth_Close = (\<lambda>h w. (None, w))\<rparr>"

definition devnet_ext :: "nat ext" where
  "devnet_ext = \<lparr>x_rt = devnet_rt, x_rate = devnet_rate, x_gb = devnet_gb, x_eth = devnet_eth,
     x_DialContext = (\<lambda>url w. ((Some (length url), None), w))\<rparr>"

lemma devnet_ext_simps [simp]:
  "x_rt devnet_ext = devnet_rt" "x_rate devnet_ext = devnet_rate" "x_gb devnet_ext = devnet_gb"
  "x_eth devnet_ext = devnet_eth"
  by (simp_all add: devnet_ext_def)

text \<open>The listener: one event per log, keyed by block and position.\<close>

definition devnet_event :: "log \<Rightarrow> IndexedEvent" where
  "devnet_event l = \<lparr>ev_ID = 0, ev_Chain = ''devnet'', ev_BlockNumber = log_BlockNumber l, ev_TxHash = [],
     ev_Address = [], ev_Topics = [], ev_Data = log_Data l,
     ev_LogIndex = (if log_Data l = ''a'' then 0 else 1), ev_IndexedAt = 0\<rparr>"

definition devnet_listener :: "(Memory \<times> nat) listener" where
  "devnet_listener l t mw = (case SaveIndexedEvent 0 (Some (devnet_event l)) (mem_chain (fst mw)) of
     (err, m) \<Rightarrow> (err, ((fst mw)\<lparr>mem_chain := m\<rparr>, snd mw)))"

definition devnet_dispatcher :: "(Memory \<times> nat) EventDispatcher" where
  "devnet_dispatcher = NewEventDispatcher (Some [devnet_listener])"

section \<open>The configuration\<close>

definition devnet_provider :: "string \<Rightarrow> int \<Rightarrow> nat ProviderConfig" where
  "devnet_provider name prio = \<lparr>pc_Name = name, pc_URL = ''http://'' @ name, pc_APIKey = [], pc_Priority = prio,
     pc_Quota = \<lparr>qc_Limit = 0, qc_Period = 1000000, qc_Credits = None\<rparr>,
     pc_RateLimit = \<lparr>rlc_Enabled = False, rlc_RPS = Fin 0, rlc_Burst = 0\<rparr>,
     pc_CircuitBreaker = \<lparr>cbc_Enabled = False, cbc_Threshold = 5, cbc_Timeout = 0, cbc_HalfOpenMaxCalls = 1, cbc_FilterErrors = []\<rparr>,
     pc_Retry = \<lparr>rc_MaxAttempts = 3, rc_BaseDelay = 1000, rc_MaxDelay = 8000, rc_Jitter = False\<rparr>,
     pc_RequestTimeout = 0, pc_Dial = None, pc_MaxLogBlockRange = 2\<rparr>"

definition devnet_pool_config :: "nat PoolConfig" where
  "devnet_pool_config = \<lparr>plc_Providers = [devnet_provider ''beta'' 2, devnet_provider ''alpha'' 1], plc_UpdateInterval = 0,
     plc_MaxLogBlockRange = 0, plc_MaxParallelJobAttempts = 0, plc_RangeTooLargeFilters = [], plc_LogAddresses = [],
     plc_LogTopics = []\<rparr>"

definition devnet_pool :: Pool where
  "devnet_pool = (case fst (NewPool devnet_ext devnet_pool_config 0) of Inl e \<Rightarrow> undefined | Inr pool \<Rightarrow> pool)"

text \<open>The provider \<open>NewProvider\<close> makes of such a configuration.\<close>

definition devnet_node :: "string \<Rightarrow> int \<Rightarrow> gotime \<Rightarrow> Provider" where
  "devnet_node name prio now = \<lparr>p_name = name, p_priority = prio, p_client = ClientPtr (7 + length name), p_dialErr = None,
     p_limiter = \<lparr>rl_limiter = None, rl_enabled = False\<rparr>,
     p_circuitBreaker = \<lparr>cb_cb = 0, cb_enabled = False, cb_filters = breaker_filters (pc_CircuitBreaker (devnet_provider name prio))\<rparr>,
     p_quota = newQuotaManager now \<lparr>qc_Limit = 0, qc_Period = 1000000, qc_Credits = None\<rparr>,
     p_retryCfg = \<lparr>rc_MaxAttempts = 3, rc_BaseDelay = 1000, rc_MaxDelay = 8000, rc_Jitter = False\<rparr>,
     p_requestTimeout = 0, p_maxLogBlockRange = 2, p_healthy = True, p_lastUsed = 0,
     p_baseScore = f64_of_int prio, p_currentScore = f64_of_int prio, p_closed = False\<rparr>"

definition devnet_sys :: "nat sys" where
  "devnet_sys = \<lparr>sys_pool = devnet_pool, sys_mem = NewMemory, sys_world = 10, sys_deliv = [], sys_skipped = {}\<rparr>"

definition devnet_config :: IndexerConfig where
  "devnet_config = \<lparr>ic_Chain = ''devnet'', ic_StartBlock = 1, ic_BlockInterval = 1000000000,
     ic_MaxConsecutiveProviderExhaustion = 0, ic_ProviderExhaustionRestartDelay = 0, ic_DebugMode = False, ic_ReorgDepth = 4\<rparr>"

definition devnet_ports :: "nat sys ports" where
  "devnet_ports = sys_ports devnet_ext devnet_dispatcher (\<lambda>e w. w)"

definition devnet_opts :: "nat sys Option list" where
  "devnet_opts = [OptLogger None, OptOnExhausted (Some (rs_OnExhausted (pt_runtime devnet_ports)))]"

definition devnet_indexer :: Indexer where
  "devnet_indexer = (case fst (NewIndexer devnet_config (Some (pt_pool devnet_ports)) (Some (pt_storage devnet_ports))
     (Some (pt_dispatcher devnet_ports)) devnet_opts (rs_After (pt_runtime devnet_ports)) devnet_sys) of
       Inl e \<Rightarrow> undefined | Inr (P, idx) \<Rightarrow> idx)"

section \<open>It meets the contracts\<close>

lemma devnet_honest: "honest_clients devnet_ext [] [] devnet_logs devnet_time"
  unfolding honest_clients_def
  by (auto simp: devnet_eth_def log_query_def big_SetUint64_def devnet_logs_def split: if_splits)

lemma devnet_quiet: "quiet_listeners devnet_dispatcher chain"
  by (auto simp: quiet_listeners_def devnet_dispatcher_def NewEventDispatcher_def Dispatch_def devnet_listener_def
      SaveIndexedEvent_def Let_def split: prod.splits option.splits if_splits)

interpretation devnet: deployment devnet_ext devnet_dispatcher "\<lambda>e w. w" "''devnet''" "[]" "[]" devnet_logs devnet_time
  by unfold_locales (rule devnet_honest, rule devnet_quiet)

lemma f64_of_int_small [simp]: "f64_of_int 1 = Fin 1" "f64_of_int 2 = Fin 2"
  using f64_of_int_exact [of 1] f64_of_int_exact [of 2] by simp_all

lemma devnet_NewPool:
  "\<exists>pool w'. NewPool devnet_ext devnet_pool_config 0 = (Inr pool, w')"
  by (simp add: NewPool_def devnet_pool_config_def devnet_provider_def Let_def split: prod.splits)

lemma devnet_pool_NewPool: "\<exists>w'. NewPool devnet_ext devnet_pool_config 0 = (Inr devnet_pool, w')"
  using devnet_NewPool by (auto simp: devnet_pool_def)

lemma devnet_pool_inv: "pool_inv devnet_pool"
proof -
  obtain w' where "NewPool devnet_ext devnet_pool_config 0 = (Inr devnet_pool, w')" using devnet_pool_NewPool by blast
  from NewPool_inv [OF this] show ?thesis by simp
qed

lemma devnet_NewProvider: "NewProvider devnet_ext (devnet_provider name prio) w = (devnet_node name prio (int w), Suc w)"
  by (simp add: NewProvider_def devnet_provider_def Let_def dialEthClient_def devnet_ext_def provider_url_def NewRateLimiter_def NewCircuitBreaker_def
   devnet_node_def devnet_rt_def devnet_gb_def)

lemma devnet_provider_name: "pc_Name (devnet_provider name prio) = name" by (simp add: devnet_provider_def)

lemma devnet_pool_explicit:
  "devnet_pool = \<lparr>providers = Map.empty(''beta'' \<mapsto> devnet_node ''beta'' 2 0, ''alpha'' \<mapsto> devnet_node ''alpha'' 1 1),
     orderedList = [''alpha'', ''beta''],
     penalties = Map.empty, pool_updateInterval = defaultPoolUpdateInterval, pool_maxLogBlockRange = 1, pool_maxParallelJobAttempts = 0,
     pool_rangeTooLargeFilters = [], pool_logAddresses = [], pool_logTopics = [], pool_closed = False\<rparr>"
  by (simp add: devnet_pool_def NewPool_def devnet_pool_config_def devnet_NewProvider devnet_provider_name set_provider_def
     DefaultMaxLogBlockRange_def sortOrderedListLocked_def sort_Slice_def rank_less_def rank_of_def devnet_node_def)

lemma devnet_sys_ok: "sys_ok [] [] devnet_sys"
  using devnet_pool_inv
  by (auto simp: sys_ok_def devnet_sys_def limits_ok_def plan_ok_def devnet_pool_explicit in_i64_def limit_of_def effectiveMaxLogBlockRange_def
    devnet_node_def split: option.splits if_splits)

lemma devnet_indexer_explicit:
  "devnet_indexer = \<lparr>ix_config = devnet_config\<lparr>ic_MaxConsecutiveProviderExhaustion := defaultMaxConsecutiveProviderExhaustion,
       ic_ProviderExhaustionRestartDelay := defaultProviderExhaustionRestartDelay\<rparr>,
     ix_logger = slog_Default, ix_isRunning = False, ix_stopped = False, ix_cancelled = False, ix_running_loops = 0, ix_stopPhase = NotStopped,
     ix_exhaustion = NewExhaustionTracker defaultMaxConsecutiveProviderExhaustion, ix_nudge = NewNudgeSignal,
     ix_reorgDepth = 4, ix_recentHashes = Map.empty, ix_hashOrder = []\<rparr>"
  by (simp add: devnet_indexer_def NewIndexer_def devnet_config_def devnet_opts_def WithLogger_def WithOnExhausted_def Let_def)

lemma devnet_available: "fst (pp_GetProvider (sys_pool_port devnet_ext) devnet_sys) \<noteq> None"
  by (simp add: sys_pool_port_def lift_pool_def pool_GetProvider_def devnet_sys_def devnet_pool_explicit devnet_node_def p_IsAvailable_def
  cb_IsAvailable_def devnet_rt_def Remaining_def rolloverLocked_def newQuotaManager_def Let_def split: prod.splits if_splits)

end
