(* ===== verification/Walker.thy ===== *)
theory Walker
  imports Sync_Env
begin

text \<open>
  What an indexer promises, as an abstract machine. A walker has a position on the chain (the last block
  it counts as processed), the list of what it has delivered, and the blocks reported as undecodable. It moves
  on by one block at a time, delivering it; it may fail after delivering a part of what lies ahead; and it may
  be set back.
\<close>

record walker =
  wk_pos :: u64
  wk_out :: "(log \<times> u64) list"
  wk_skipped :: "u64 set"

inductive walk_step :: "(u64 \<Rightarrow> log list) \<Rightarrow> (u64 \<Rightarrow> u64) \<Rightarrow> u64 \<Rightarrow> walker \<Rightarrow> walker \<Rightarrow> bool" for logs time start where
  block: "wk_pos w < wk_pos w + 1 \<Longrightarrow> delivered logs time (wk_skipped w) (wk_pos w + 1) d \<Longrightarrow>
    walk_step logs time start w (w\<lparr>wk_pos := wk_pos w + 1, wk_out := wk_out w @ d\<rparr>)"
| attempt: "wk_pos w < wk_pos w + 1 \<Longrightarrow> subseq rest (concat (map (deliveries logs time) (blocks (wk_pos w + 1) m))) \<Longrightarrow>
    walk_step logs time start w (w\<lparr>wk_out := wk_out w @ rest\<rparr>)"
| undecodable: "wk_skipped w \<subseteq> sk \<Longrightarrow> walk_step logs time start w (w\<lparr>wk_skipped := sk\<rparr>)"
| rewind: "p = start \<or> start < p \<and> p \<le> wk_pos w \<Longrightarrow> walk_step logs time start w (w\<lparr>wk_pos := p\<rparr>)"

abbreviation walks :: "(u64 \<Rightarrow> log list) \<Rightarrow> (u64 \<Rightarrow> u64) \<Rightarrow> u64 \<Rightarrow> walker \<Rightarrow> walker \<Rightarrow> bool" where
  "walks logs time start \<equiv> (walk_step logs time start)\<^sup>*\<^sup>*"

section \<open>What every walk guarantees\<close>

text \<open>No block between \<open>StartBlock\<close> and the position is missing, and nothing is delivered that is not on the chain.\<close>

definition walk_complete :: "(u64 \<Rightarrow> log list) \<Rightarrow> (u64 \<Rightarrow> u64) \<Rightarrow> u64 \<Rightarrow> walker \<Rightarrow> bool" where
  "walk_complete logs time start w \<longleftrightarrow>
     (\<forall>n. start < n \<longrightarrow> n \<le> wk_pos w \<longrightarrow> n \<notin> wk_skipped w \<longrightarrow> time n \<noteq> 0 \<longrightarrow> set (deliveries logs time n) \<subseteq> set (wk_out w))"

definition on_chain :: "(u64 \<Rightarrow> log list) \<Rightarrow> (u64 \<Rightarrow> u64) \<Rightarrow> u64 \<Rightarrow> (log \<times> u64) set" where
  "on_chain logs time start = (\<Union>n \<in> {n. start \<le> n \<and> 0 < n}. set (deliveries logs time n))"

definition walk_sound :: "(u64 \<Rightarrow> log list) \<Rightarrow> (u64 \<Rightarrow> u64) \<Rightarrow> u64 \<Rightarrow> (log \<times> u64) set \<Rightarrow> walker \<Rightarrow> bool" where
  "walk_sound logs time start D w \<longleftrightarrow>
     unat start \<le> Suc (unat (wk_pos w)) \<and> set (wk_out w) \<subseteq> D \<union> on_chain logs time start"

lemma succ_pos: "p < p + 1 \<Longrightarrow> unat (p + 1) = Suc (unat p)" for p :: u64
  by (rule unat_u64_Suc)

lemma walk_step_complete: "walk_step logs time start w w' \<Longrightarrow> walk_complete logs time start w \<Longrightarrow> walk_complete logs time start w'"
proof (induction rule: walk_step.induct)
  case (block w d)
  have "n \<le> wk_pos w \<or> n = wk_pos w + 1" if "n \<le> wk_pos w + 1" for n
    using that succ_pos [OF block(1)] by (auto simp: u64_le word_unat_eq_iff)
  with block show ?case by (fastforce simp: walk_complete_def delivered_def)
next
  case (attempt w rest m)
  then show ?case by (fastforce simp: walk_complete_def)
next
  case (undecodable w sk)
  then show ?case by (auto simp: walk_complete_def)
next
  case (rewind p w)
  then show ?case by (auto simp: walk_complete_def)
qed

lemma ahead_on_chain:
  assumes "unat start \<le> Suc (unat p)" and "p < p + 1" and "p + 1 \<le> n"
  shows "set (deliveries logs time n) \<subseteq> on_chain logs time start"
proof -
  have "start \<le> n \<and> 0 < n" using assms succ_pos [OF assms(2)] by (auto simp: u64_le u64_less)
  then show ?thesis by (auto simp: on_chain_def)
qed

lemma walk_step_sound: "walk_step logs time start w w' \<Longrightarrow> walk_sound logs time start D w \<Longrightarrow> walk_sound logs time start D w'"
proof (induction rule: walk_step.induct)
  case (block w d)
  have "set d \<subseteq> set (deliveries logs time (wk_pos w + 1))" using block(2) by (auto simp: delivered_def dest: set_mono_prefix)
  also have "\<dots> \<subseteq> on_chain logs time start"
    by (rule ahead_on_chain [of _ "wk_pos w"]) (use block in \<open>auto simp: walk_sound_def\<close>)
  finally show ?case using block succ_pos [OF block(1)] by (auto simp: walk_sound_def)
next
  case (attempt w rest m)
  have "set rest \<subseteq> set (concat (map (deliveries logs time) (blocks (wk_pos w + 1) m)))"
    using list_emb_set [OF attempt(2)] by blast
  then have "set rest \<subseteq> (\<Union>n \<in> {wk_pos w + 1..m}. set (deliveries logs time n))" by simp
  also have "\<dots> \<subseteq> on_chain logs time start"
    using attempt by (intro UN_least ahead_on_chain [of _ "wk_pos w"]) (auto simp: walk_sound_def)
  finally show ?case using attempt by (auto simp: walk_sound_def)
next
  case (rewind p w)
  then show ?case by (auto simp: walk_sound_def u64_less)
qed (simp add: walk_sound_def)

lemma walks_complete: "walks logs time start w w' \<Longrightarrow> walk_complete logs time start w \<Longrightarrow> walk_complete logs time start w'"
  by (induction rule: rtranclp_induct) (auto intro: walk_step_complete)

lemma walks_sound: "walks logs time start w w' \<Longrightarrow> walk_sound logs time start D w \<Longrightarrow> walk_sound logs time start D w'"
  by (induction rule: rtranclp_induct) (auto intro: walk_step_sound)

section \<open>Runs over several blocks\<close>

lemma new_blocks_Cons: "new_blocks base cur = n # ns \<longleftrightarrow> base < cur \<and> n = base + 1 \<and> ns = new_blocks (base + 1) cur"
proof (cases "base < cur")
  case True
  have s: "unat (base + 1) = Suc (unat base)" by (rule unat_u64_Suc [OF True])
  show ?thesis
  proof (cases "base + 1 < cur")
    case lt: True
    then have "unat (base + 1 + 1) = Suc (unat (base + 1))" by (rule unat_u64_Suc)
    with True lt s show ?thesis by (auto simp: new_blocks_def blocks_def u64_less upt_conv_Cons simp del: upt_Suc)
  next
    case False
    with True s have "cur = base + 1" by (auto simp: u64_less word_unat_eq_iff)
    with True show ?thesis by (auto simp: new_blocks_def)
  qed
qed (simp add: new_blocks_def)

lemma walk_blocks:
  assumes "new_blocks (wk_pos w) cur = ns @ ms" and "list_all2 (delivered logs time (wk_skipped w)) ns ds"
  shows "walks logs time start w (w\<lparr>wk_pos := (if ns = [] then wk_pos w else last ns), wk_out := wk_out w @ concat ds\<rparr>) \<and>
    ms = new_blocks (if ns = [] then wk_pos w else last ns) cur"
  using assms
proof (induction ns arbitrary: w ds)
  case (Cons n ns)
  obtain d ds' where ds: "ds = d # ds'" "delivered logs time (wk_skipped w) n d" "list_all2 (delivered logs time (wk_skipped w)) ns ds'"
    using Cons.prems(2) by (auto simp: list_all2_Cons1)
  have n: "wk_pos w < cur" "n = wk_pos w + 1" "new_blocks n cur = ns @ ms" using Cons.prems(1) by (auto simp: new_blocks_Cons)
  let ?w = "w\<lparr>wk_pos := n, wk_out := wk_out w @ d\<rparr>"
  have "wk_pos w < wk_pos w + 1" using unat_u64_Suc [OF n(1)] by (simp add: u64_less)
  with ds(2) n(2) have step: "walk_step logs time start w ?w" by (auto intro: walk_step.block)
  have "new_blocks (wk_pos ?w) cur = ns @ ms" "list_all2 (delivered logs time (wk_skipped ?w)) ns ds'" using n(3) ds(3) by simp_all
  note run = Cons.IH [OF this]
  have eq: "?w\<lparr>wk_pos := (if ns = [] then wk_pos ?w else last ns), wk_out := wk_out ?w @ concat ds'\<rparr> =
      w\<lparr>wk_pos := last (n # ns), wk_out := wk_out w @ concat ds\<rparr>" using ds(1) by simp
  have "walks logs time start w (w\<lparr>wk_pos := last (n # ns), wk_out := wk_out w @ concat ds\<rparr>)"
    using converse_rtranclp_into_rtranclp [OF step conjunct1 [OF run]] unfolding eq .
  moreover have "(if ns = [] then wk_pos ?w else last ns) = last (n # ns)" by simp
  ultimately show ?case using conjunct2 [OF run] by (simp only: list.distinct if_False)
qed auto

text \<open>A run over new blocks, with what it delivered of later ones before it failed.\<close>

lemma walk_progressed:
  assumes "progressed logs time (wk_skipped w) False (new_blocks (wk_pos w) cur) r lb lb' (wk_out w) dv'"
  shows "\<exists>p. walks logs time start w (w\<lparr>wk_pos := p, wk_out := dv'\<rparr>) \<and> (p = wk_pos w \<and> lb' = lb \<or> p = lb' \<and> 0 < p)"
proof -
  obtain ns ms ds rest where p: "new_blocks (wk_pos w) cur = ns @ ms" "list_all2 (delivered logs time (wk_skipped w)) ns ds"
    "dv' = wk_out w @ concat ds @ rest" "subseq rest (concat (map (deliveries logs time) ms))" "lb' = (if ns = [] then lb else last ns)"
    using assms by (auto simp: progressed_def)
  let ?p = "if ns = [] then wk_pos w else last ns" and ?w = "\<lambda>out p. w\<lparr>wk_pos := p, wk_out := out\<rparr>"
  note run = walk_blocks [OF p(1,2), of start]
  have "walks logs time start (?w (wk_out w @ concat ds) ?p) (?w dv' ?p)"
  proof (cases "?p < cur")
    case True
    then have "?p < ?p + 1" using unat_u64_Suc [OF True] by (simp add: u64_less)
    with True p(3,4) run walk_step.attempt [of "?w (wk_out w @ concat ds) ?p" rest logs time cur start]
    show ?thesis by (auto simp: new_blocks_def)
  next
    case False
    then have "ms = []" using run by (simp add: new_blocks_def)
    then have "rest = []" using p(4) by simp
    with p(3) show ?thesis by simp
  qed
  with run have "walks logs time start w (?w dv' ?p)" by (meson rtranclp_trans)
  moreover have "0 < last ns" if "ns \<noteq> []"
  proof -
    have "last ns \<in> set (new_blocks (wk_pos w) cur)" using p(1) that by simp
    then show ?thesis using unat_u64_Suc [of "wk_pos w" cur] by (auto simp: new_blocks_def u64_le u64_less split: if_splits)
  qed
  ultimately show ?thesis using p(5) by (intro exI [of _ ?p]) auto
qed

end
