(* ===== verification/Deployment_Life.thy ===== *)
theory Deployment_Life
  imports Lifecycle Devnet Walker
begin

text \<open>
  The indexer of a deployment over its whole life: what a sync leaves behind, and that every step, whatever
  the interleaving of \<open>Start\<close>, \<open>Stop\<close>, \<open>Nudge\<close>, the ticks of the sync loop and the surroundings, is a walk of
  the abstract walker.
\<close>

section \<open>Coverage of the chain\<close>

text \<open>
  What a deployment guarantees at every moment: each block above \<open>StartBlock\<close> and up to the persisted
  block has been delivered, unless a call reported it as undecodable or its header has time 0.
\<close>

definition covered :: "(u64 \<Rightarrow> log list) \<Rightarrow> (u64 \<Rightarrow> u64) \<Rightarrow> string \<Rightarrow> u64 \<Rightarrow> 'w sys \<Rightarrow> bool" where
  "covered logs time chain start s \<longleftrightarrow>
     (\<forall>n. start < n \<longrightarrow> n \<le> sys_last chain s \<longrightarrow> n \<notin> sys_skipped s \<longrightarrow> time n \<noteq> 0 \<longrightarrow>
        set (deliveries logs time n) \<subseteq> set (sys_deliv s))"

lemma rewind_target_bound: "rewind_target start depth n \<le> max n start"
  by (auto simp: rewind_target_def max_def word_le_nat_alt word_less_nat_alt unat_sub_if_size)

text \<open>The walker a deployment implements: it stands on the block the next sync counts as processed.\<close>

definition resume :: "u64 \<Rightarrow> u64 \<Rightarrow> u64" where
  "resume start n = (if n = 0 \<and> 0 < start then start - 1 else n)"

definition walker_of :: "string \<Rightarrow> u64 \<Rightarrow> 'w sys \<Rightarrow> walker" where
  "walker_of chain start s = \<lparr>wk_pos = resume start (sys_last chain s), wk_out = sys_deliv s, wk_skipped = sys_skipped s\<rparr>"

lemma walker_of_simps [simp]:
  "wk_pos (walker_of chain start s) = resume start (sys_last chain s)" "wk_out (walker_of chain start s) = sys_deliv s"
  "wk_skipped (walker_of chain start s) = sys_skipped s"
  by (simp_all add: walker_of_def)

lemma resume_simps [simp]: "resume start (resume start n) = resume start n" "0 < n \<Longrightarrow> resume start n = n" "resume start start = start"
  by (auto simp: resume_def)

lemma walk_covered: "walk_complete logs time start (walker_of chain start s) \<Longrightarrow> covered logs time chain start s"
  unfolding walk_complete_def covered_def by (auto simp: resume_def split: if_splits)

lemma rebase_walks:
  assumes "sync_base headers idx n cur base" and "ic_StartBlock (ix_config idx) = start" and "wk_pos w = n"
  shows "walks logs time start w (w\<lparr>wk_pos := base\<rparr>)"
proof (cases "base = n")
  case False
  have "base = start \<or> base = rewind_target start (ix_reorgDepth idx) n"
    using assms(1,2) False by (auto simp: sync_base_def split: if_splits dest: reorg_base_cases)
  then have "base = start \<or> start < base \<and> base \<le> n"
    by (auto simp: rewind_target_def u64_le u64_less unat_sub_if_size split: if_splits)
  with assms(3) show ?thesis by (auto intro: walk_step.rewind)
next
  case True
  with assms(3) have "w\<lparr>wk_pos := base\<rparr> = w" by (cases w) simp
  then show ?thesis by simp
qed

lemma sync_walks:
  assumes p: "sync_progress E logs time chain idx s r s'" and mode: "\<not> ic_DebugMode (ix_config idx)"
    and start: "ic_StartBlock (ix_config idx) = start" and sk: "sys_skipped s \<subseteq> sys_skipped s'"
  shows "walks logs time start (walker_of chain start s) (walker_of chain start s')"
proof -
  let ?w = "(walker_of chain start s)\<lparr>wk_skipped := sys_skipped s'\<rparr>" and ?n = "resume start (sys_last chain s)"
  have skip: "walk_step logs time start (walker_of chain start s) ?w" using sk by (intro walk_step.undecodable) simp
  have n: "first_base (ix_config idx) (sys_last chain s) = ?n" using mode start by (simp add: first_base_def resume_def Let_def)
  from p consider "sys_last chain s' = sys_last chain s" "sys_deliv s' = sys_deliv s"
    | base cur lb where "sync_base (reported_header E) idx ?n cur base" "base = ?n \<and> lb = sys_last chain s \<or> lb = base"
      "progressed logs time (sys_skipped s') False (new_blocks base cur) r lb (sys_last chain s') (sys_deliv s) (sys_deliv s')"
    using mode unfolding sync_progress_def n by auto
  then show ?thesis
  proof cases
    case 1
    then have "walker_of chain start s' = ?w" by (simp add: walker_of_def)
    with skip show ?thesis by simp
  next
    case 2
    have r1: "walks logs time start ?w (?w\<lparr>wk_pos := base\<rparr>)" by (rule rebase_walks [OF 2(1) start]) simp
    from walk_progressed [of logs time "?w\<lparr>wk_pos := base\<rparr>" cur r lb "sys_last chain s'" "sys_deliv s'" start] 2(3)
    obtain q where r2: "walks logs time start (?w\<lparr>wk_pos := base\<rparr>) (?w\<lparr>wk_pos := q, wk_out := sys_deliv s'\<rparr>)"
      and q: "q = base \<and> sys_last chain s' = lb \<or> q = sys_last chain s' \<and> 0 < q" by auto
    have "base = ?n \<or> base = start \<or> start < base"
      using 2(1) start by (auto simp: sync_base_def rewind_target_def split: if_splits dest!: reorg_base_cases)
    then have "resume start base = base" by (elim disjE) (simp, simp, auto simp: resume_def u64_less)
    with q 2(2) have "q = resume start (sys_last chain s')" by auto
    then have "?w\<lparr>wk_pos := q, wk_out := sys_deliv s'\<rparr> = walker_of chain start s'" by (simp add: walker_of_def)
    with r2 have "walks logs time start (?w\<lparr>wk_pos := base\<rparr>) (walker_of chain start s')" by simp
    with converse_rtranclp_into_rtranclp [OF skip r1] show ?thesis by (rule rtranclp_trans)
  qed
qed

lemma same_walks:
  assumes "sys_same A T chain s s'"
  shows "walks logs time start (walker_of chain start s) (walker_of chain start s')"
proof -
  have "walker_of chain start s' = (walker_of chain start s)\<lparr>wk_skipped := sys_skipped s'\<rparr>"
    using assms by (simp add: walker_of_def frame_def)
  moreover have "walk_step logs time start (walker_of chain start s) ((walker_of chain start s)\<lparr>wk_skipped := sys_skipped s'\<rparr>)"
    using assms by (intro walk_step.undecodable) (simp add: frame_def)
  ultimately show ?thesis by simp
qed

text \<open>
  What happens to the state of a deployment between the steps of its indexer: time passes, \<open>updateLoop\<close>
  re-ranks the providers, and the application makes calls of its own through the pool.
\<close>

inductive sys_env :: "'w sys \<Rightarrow> 'w sys \<Rightarrow> bool" where
  world: "sys_env s (s\<lparr>sys_world := w\<rparr>)"
| rerank: "sys_env s (s\<lparr>sys_pool := recalculateScores (sys_pool s)\<rparr>)"
| calls: "pool_evolves (sys_pool s) pool' \<Longrightarrow> sys_env s (s\<lparr>sys_pool := pool'\<rparr>)"


lemma sys_env_same: "sys_env s s' \<Longrightarrow> sys_ok A T s \<Longrightarrow> sys_same A T chain s s'"
proof (induction rule: sys_env.induct)
  case (world s w)
  then show ?case by (intro sys_side_same) auto
next
  case (rerank s)
  have "sys_ok A T (s\<lparr>sys_pool := recalculateScores (sys_pool s)\<rparr>)"
    by (rule sys_ok_like [OF rerank]) (use rerank in \<open>auto simp: recalculateScores_like sys_ok_def recalculateScores_inv\<close>)
  then show ?case by (simp add: frame_def sys_last_def)
next
  case (calls s pool')
  then show ?case using sys_same_pool [of A T s pool' chain "sys_world s"] by simp
qed

lemma dispatcher_bd_Close: "bd_Close (pt_dispatcher (sys_ports E d onExhausted)) s = s"
  by (simp add: sys_ports_def dispatcher_Close_def)

lemma sys_close_same:
  assumes "sys_ok A T s"
  shows "sys_same A T chain s (snd (pp_Close (pt_pool (sys_ports E d onExhausted)) (bd_Close (pt_dispatcher (sys_ports E d onExhausted)) s)))"
proof -
  obtain r s' where c: "lift_pool (pool_Close E) s = (r, s')" by (cases "lift_pool (pool_Close E) s")
  have "sys_same A T chain s s'" by (rule lift_pool_same [OF assms c]) (rule pool_Close_evolves)
  with c show ?thesis unfolding dispatcher_bd_Close by (simp add: sys_ports_def sys_pool_port_def)
qed

text \<open>The states of a running deployment.\<close>

definition life_ok :: "address list \<Rightarrow> hash list list \<Rightarrow> string \<Rightarrow> u64 \<Rightarrow> Indexer \<times> 'w sys \<Rightarrow> bool" where
  "life_ok A T chain start x \<longleftrightarrow> sys_ok A T (snd x) \<and> ic_Chain (ix_config (fst x)) = chain \<and>
     \<not> ic_DebugMode (ix_config (fst x)) \<and> ic_StartBlock (ix_config (fst x)) = start"

locale sys_life = sys_sync +
  assumes close_same: "sys_ok A T s \<Longrightarrow>
    sys_same A T chain s (snd (pp_Close (pt_pool P) (bd_Close (pt_dispatcher P) s)))"
begin

text \<open>A step of the deployment's life that keeps it well-formed and is a walk.\<close>

abbreviation life_walk :: "u64 \<Rightarrow> Indexer \<times> 'w sys \<Rightarrow> Indexer \<times> 'w sys \<Rightarrow> bool" where
  "life_walk start x y \<equiv> life_ok A T chain start y \<and>
     walks chain_logs chain_time start (walker_of chain start (snd x)) (walker_of chain start (snd y))"

lemma run_sync_walk:
  assumes ok: "life_ok A T chain start (idx, s)" and run: "run_sync P idx s = Some (idx', s')"
  shows "life_walk start (idx, s) (idx', s')"
proof -
  obtain r where r: "syncBlocks P idx s = Some (r, idx', s')" using run by (auto simp: run_sync_def)
  from sync_delivers [of s idx] ok r have res: "ix_config idx' = ix_config idx" "sys_ok A T s'" "sys_skipped s \<subseteq> sys_skipped s'"
    "sys_last chain s' = sys_last chain s \<and> sys_deliv s' = sys_deliv s \<or> sync_progress E chain_logs chain_time chain idx s r s'"
    by (auto simp: life_ok_def)
  from res(4) have "walks chain_logs chain_time start (walker_of chain start s) (walker_of chain start s')"
  proof
    assume "sys_last chain s' = sys_last chain s \<and> sys_deliv s' = sys_deliv s"
    with res(2,3) show ?thesis by (intro same_walks [of A T]) (simp add: frame_def)
  next
    assume "sync_progress E chain_logs chain_time chain idx s r s'"
    then show ?thesis by (rule sync_walks) (use ok res(3) in \<open>simp_all add: life_ok_def\<close>)
  qed
  with ok res show ?thesis by (simp add: life_ok_def)
qed

lemma same_walk:
  "life_ok A T chain start (idx, s) \<Longrightarrow> ix_config idx' = ix_config idx \<Longrightarrow> sys_same A T chain s s' \<Longrightarrow> life_walk start (idx, s) (idx', s')"
  using same_walks [of A T chain s s' chain_logs chain_time start] by (simp add: life_ok_def frame_def)

lemma life_step_walk: "life_step P sys_env x y \<Longrightarrow> life_ok A T chain start x \<Longrightarrow> life_walk start x y"
proof (induction rule: life_step.induct)
  case (start idx r idx' s)
  then show ?case by (auto simp: life_ok_def Start_def split: if_splits)
next
  case (stop idx s idx' s')
  have "sys_same A T chain s s" using stop(2) by (auto simp: life_ok_def intro: frame_refl)
  moreover have "s' = s \<or> s' = snd (pp_Close (pt_pool P) (bd_Close (pt_dispatcher P) s))"
    and c: "ix_config idx' = ix_config idx"
    using stop(1) by (auto simp: stop_step_def split: stop_phase.splits if_splits)
  ultimately have "sys_same A T chain s s'" using stop(2) close_same by (fastforce simp: life_ok_def)
  then show ?case by (rule same_walk [OF stop(2) c])
next
  case (nudge idx s)
  then show ?case by (simp add: life_ok_def idx_Nudge_def)
next
  case (loop idx ev s idx' s')
  show ?case
  proof (cases ev)
    case CtxDone
    with loop show ?thesis by (auto simp: loop_step_def life_ok_def split: if_splits)
  next
    case Tick
    with loop show ?thesis by (intro run_sync_walk) (auto simp: loop_step_def)
  next
    case Nudged
    then obtain c where "run_sync P (idx\<lparr>ix_nudge := c\<rparr>) s = Some (idx', s')"
      using loop by (auto simp: loop_step_def split: option.splits)
    from run_sync_walk [OF _ this] loop show ?thesis by (simp add: life_ok_def)
  qed
next
  case (env s s' idx)
  then have "sys_same A T chain s s'" using sys_env_same by (auto simp: life_ok_def)
  then show ?case by (rule same_walk [OF env(2) refl])
qed

lemma life_reachable_ok: "life_reachable P sys_env x y \<Longrightarrow> life_ok A T chain start x \<Longrightarrow> life_ok A T chain start y"
  by (induction rule: rtranclp_induct) (auto dest: life_step_walk)

end

sublocale deployment \<subseteq> sys_life "sys_ports E d onExhausted" chain A T chain_logs chain_time E
  by unfold_locales (rule sys_close_same)

section \<open>Interference\<close>

text \<open>
  A deployment whose sync shares the pool with \<open>updateLoop\<close> and with the application: before each of its
  calls the others may have taken any number of steps.
\<close>

locale shared_deployment = deployment E d onExhausted chain A T chain_logs chain_time
  for E :: "'w ext" and d :: "(Memory \<times> 'w) EventDispatcher" and onExhausted :: "goerr \<Rightarrow> 'w \<Rightarrow> 'w" and chain :: string
    and A :: "address list" and T :: "hash list list" and chain_logs :: "u64 \<Rightarrow> log list" and chain_time :: "u64 \<Rightarrow> u64" +
  fixes I :: "'w sys \<Rightarrow> 'w sys"
  assumes surroundings: "sys_env\<^sup>*\<^sup>* s (I s)"

lemma sys_env_reachable_same: "sys_env\<^sup>*\<^sup>* s s' \<Longrightarrow> sys_ok A T s \<Longrightarrow> sys_same A T chain s s'"
proof (induction rule: rtranclp_induct)
  case (step y z)
  then show ?case using sys_env_same [OF step(2), of A T chain] by (auto simp: frame_def)
qed (rule frame_refl)

sublocale shared_deployment \<subseteq> disturbed_sync "sys_ports E d onExhausted" chain "sys_ok A T" "sys_last chain" sys_deliv sys_skipped
  chain_logs chain_time "reported_head E" "reported_header E" I
  by unfold_locales (rule sys_env_reachable_same [OF surroundings])

sublocale shared_deployment \<subseteq> shared: sys_life "disturbed I (sys_ports E d onExhausted)" chain A T chain_logs chain_time E
proof unfold_locales
  fix s :: "'w sys"
  assume ok: "sys_ok A T s"
  let ?P = "sys_ports E d onExhausted"
  have ok2: "sys_ok A T (I (I s))" by (rule others_ok [OF others_ok [OF ok]])
  have "sys_same A T chain s (snd (pp_Close (pt_pool ?P) (bd_Close (pt_dispatcher ?P) (I (I s)))))"
    by (rule after_others [OF ok after_others [OF others_ok [OF ok] sys_close_same [OF ok2]]])
  then show "sys_same A T chain s (snd (pp_Close (pt_pool (disturbed I ?P)) (bd_Close (pt_dispatcher (disturbed I ?P)) s)))"
    by (simp add: dispatcher_bd_Close)
qed

context shared_deployment
begin

lemma shared_sync_delivers:
  assumes "sys_ok A T s" and "ic_Chain (ix_config idx) = chain"
  shows "\<exists>r idx' s'. syncBlocks (disturbed I (sys_ports E d onExhausted)) idx s = Some (r, idx', s') \<and>
      ix_config idx' = ix_config idx \<and> sys_ok A T s' \<and> sys_skipped s \<subseteq> sys_skipped s' \<and>
      (fst (pp_GetProvider (sys_pool_port E) (I s)) = None \<and> r = None \<and> sys_last chain s' = sys_last chain s \<and> sys_deliv s' = sys_deliv s \<or>
       sync_progress E chain_logs chain_time chain idx s r s')"
proof -
  have "pp_GetProvider (pt_pool (disturbed I (sys_ports E d onExhausted))) s = pp_GetProvider (sys_pool_port E) (I s)"
    by (simp add: disturbed_def disturb_pool_def sys_ports_def)
  with shared.sync_delivers [OF assms] show ?thesis by (simp only:)
qed

end

text \<open>The local network, re-ranked before every call.\<close>

definition devnet_rerank :: "nat sys \<Rightarrow> nat sys" where
  "devnet_rerank s = s\<lparr>sys_pool := recalculateScores (sys_pool s)\<rparr>"

lemma devnet_rerank_env: "sys_env\<^sup>*\<^sup>* s (devnet_rerank s)"
  unfolding devnet_rerank_def by (rule r_into_rtranclp) (rule sys_env.rerank)

lemma devnet_reranked: "recalculateScores devnet_pool = devnet_pool\<lparr>penalties := [''alpha'' \<mapsto> Fin 0, ''beta'' \<mapsto> Fin 0]\<rparr>"
  by (simp add: recalculateScores_def devnet_pool_explicit sortOrderedListLocked_def sort_Slice_def rank_less_def rank_of_def
      quota_penalty_def p_GetQuotaUsage_def Usage_def devnet_node_def newQuotaManager_def)

lemma devnet_reranked_available: "fst (pp_GetProvider (sys_pool_port devnet_ext) (devnet_rerank devnet_sys)) \<noteq> None"
proof -
  have "devnet_rerank devnet_sys = devnet_sys\<lparr>sys_pool := devnet_pool\<lparr>penalties := [''alpha'' \<mapsto> Fin 0, ''beta'' \<mapsto> Fin 0]\<rparr>\<rparr>"
    by (simp add: devnet_rerank_def devnet_sys_def devnet_reranked)
  then show ?thesis
    by (simp add: devnet_sys_def sys_pool_port_def lift_pool_def pool_GetProvider_def devnet_pool_explicit devnet_node_def p_IsAvailable_def
      cb_IsAvailable_def devnet_rt_def Remaining_def rolloverLocked_def newQuotaManager_def Let_def split: prod.splits if_splits)
qed

interpretation devnet_shared: shared_deployment devnet_ext devnet_dispatcher "\<lambda>e w. w" "''devnet''" "[]" "[]" devnet_logs devnet_time devnet_rerank
  by unfold_locales (rule devnet_rerank_env)

section \<open>Properties\<close>

text \<open>
  C4: One sync of a deployment always returns, keeps the deployment well-formed, and makes progress
  on the chain its clients report, whatever \<open>updateLoop\<close> and the application do to the pool before each of its calls. Either no provider was available or the sync failed early, and
  nothing happened, or it counted the persisted block (\<open>StartBlock - 1\<close> on a fresh start, the rewind
  position exactly when the fetched header has another hash than the remembered one, \<open>StartBlock\<close> when
  the reported head is below) as processed and delivered the blocks
  above it in order, each completely and with its own time, recording the last completed block as
  progress; if it returns no error it has reached the reported head, and if it fails, what it has delivered
  of later blocks is in order too. In \<open>DebugMode\<close> it starts from \<open>StartBlock - 1\<close> and records nothing.
\<close>

theorem sync_delivers_chain:
  assumes "honest_clients E A T logs time" and "quiet_listeners d chain" and "sys_ok A T s"
    and "ic_Chain (ix_config idx) = chain" and "\<And>s. sys_env\<^sup>*\<^sup>* s (I s)"
  shows "\<exists>r idx' s'. syncBlocks (disturbed I (sys_ports E d onExhausted)) idx s = Some (r, idx', s') \<and>
      ix_config idx' = ix_config idx \<and> sys_ok A T s' \<and> sys_skipped s \<subseteq> sys_skipped s' \<and>
      (fst (pp_GetProvider (sys_pool_port E) (I s)) = None \<and> r = None \<and> sys_last chain s' = sys_last chain s \<and> sys_deliv s' = sys_deliv s \<or>
       sync_progress E logs time chain idx s r s')"
proof -
  have "shared_deployment E d chain A T logs time I"
    using assms(1,2,5) by (auto intro!: shared_deployment.intro deployment.intro shared_deployment_axioms.intro)
  from shared_deployment.shared_sync_delivers [OF this assms(3,4)] show ?thesis .
qed

theorem sync_delivers_chain_witness:
  "\<exists>r idx' s'. syncBlocks (disturbed devnet_rerank devnet_ports) devnet_indexer devnet_sys = Some (r, idx', s') \<and> sys_ok [] [] s' \<and>
     sync_progress devnet_ext devnet_logs devnet_time ''devnet'' devnet_indexer devnet_sys r s'"
proof -
  have c: "ic_Chain (ix_config devnet_indexer) = ''devnet''"
    by (simp_all add: devnet_indexer_explicit devnet_config_def)
  show ?thesis
    using sync_delivers_chain [OF devnet_honest devnet_quiet devnet_sys_ok c devnet_rerank_env, of "\<lambda>e w. w"] devnet_reranked_available
    unfolding devnet_ports_def [symmetric] by blast
qed

end
