(* ===== verification/Pool_Live.thy ===== *)
theory Pool_Live
  imports Parallel_Correct
begin

text \<open>
  The pool in good weather: when the services behind it answer and its providers are healthy and
  have unlimited quotas, every RPC method and every parallel round succeeds, and the pool stays so.
\<close>

section \<open>Services that answer\<close>

definition reliable :: "'w ext \<Rightarrow> bool" where
  "reliable E \<longleftrightarrow>
     (\<forall>h t q w. \<exists>x w'. eth_FilterLogs (x_eth E) h t q w = (Inr x, w')) \<and>
     (\<forall>h t i w. \<exists>x w'. eth_HeaderByNumber (x_eth E) h t i w = (Inr x, w')) \<and>
     (\<forall>h t w. \<exists>x w'. eth_BlockNumber (x_eth E) h t w = (Inr x, w')) \<and>
     (\<forall>h w. fst (rate_Wait (x_rate E) h w) = None) \<and> (\<forall>h w. fst (gb_Admit (x_gb E) h w) = None) \<and>
     (\<forall>h w. fst (gb_State (x_gb E) h w) \<noteq> StateOpen) \<and> (\<forall>w. rt_CtxErr (x_rt E) w = None)"

text \<open>A provider that is connected, healthy and not metered; a pool of such providers.\<close>

definition p_ready :: "Provider \<Rightarrow> bool" where
  "p_ready p \<longleftrightarrow> p_dialErr p = None \<and> (\<exists>h. p_client p = ClientPtr h) \<and> p_healthy p \<and>
     (rl_enabled (p_limiter p) \<longrightarrow> rl_limiter (p_limiter p) \<noteq> None) \<and>
     qm_limit (p_quota p) \<le> 0 \<and> qm_credits (p_quota p) = None"

definition pool_ready :: "Pool \<Rightarrow> bool" where
  "pool_ready pool \<longleftrightarrow> orderedList pool \<noteq> [] \<and> (\<forall>n \<in> set (orderedList pool). providers pool n \<noteq> None) \<and>
     (\<forall>n p. providers pool n = Some p \<longrightarrow> p_ready p)"

lemma pool_ready_recalculate: "pool_ready pool \<Longrightarrow> pool_ready (recalculateScores pool)"
proof -
  have ne: "sort_Slice lt xs = [] \<longleftrightarrow> xs = []" for lt and xs :: "string list" by (metis length_sort_Slice length_0_conv)
  assume "pool_ready pool"
  then show ?thesis by (simp add: pool_ready_def recalculateScores_def sortOrderedListLocked_def ne)
qed

lemma pool_ready_set [intro]: "pool_ready pool \<Longrightarrow> p_ready p \<Longrightarrow> pool_ready (set_provider n p pool)"
  by (auto simp: pool_ready_def set_provider_def)

lemma p_ready_Consume: "p_ready p \<Longrightarrow> \<exists>q. Consume now (p_quota p) = (True, q) \<and> p_ready (p\<lparr>p_quota := q\<rparr>)"
  by (auto simp: p_ready_def Consume_def rolloverLocked_def Let_def)

lemma p_IsAvailable_ready:
  assumes "reliable E" and "p_ready p"
  shows "\<exists>p' w'. p_IsAvailable E p w = (True, p', w') \<and> p_ready p'"
proof -
  obtain st w0 where st: "gb_State (x_gb E) (cb_cb (p_circuitBreaker p)) w = (st, w0)"
    by (cases "gb_State (x_gb E) (cb_cb (p_circuitBreaker p)) w")
  have "fst (gb_State (x_gb E) (cb_cb (p_circuitBreaker p)) w) \<noteq> StateOpen" using assms(1) by (simp add: reliable_def)
  with st obtain w1 where "cb_IsAvailable (x_gb E) (p_circuitBreaker p) w = (True, w1)"
    by (cases "cb_enabled (p_circuitBreaker p)") (auto simp: cb_IsAvailable_def cb_State_def)
  with assms(2) show ?thesis
    by (cases "rt_Now (x_rt E) w1") (auto simp: p_ready_def p_IsAvailable_def Remaining_def rolloverLocked_def Let_def)
qed

lemma p_attempt_ready:
  assumes "p_ready p" and "\<And>h t w. \<exists>x w'. call h t w = (Inr x, w')"
  shows "\<exists>x p' w'. p_attempt E call p w = (Inr x, p', w') \<and> p_ready p'"
proof -
  obtain now w1 where n: "rt_Now (x_rt E) w = (now, w1)" by (cases "rt_Now (x_rt E) w")
  obtain q where q: "Consume now (p_quota p) = (True, q)" "p_ready (p\<lparr>p_quota := q\<rparr>)" using p_ready_Consume [OF assms(1)] by blast
  obtain h where h: "p_client p = ClientPtr h" using assms(1) by (auto simp: p_ready_def)
  obtain x w2 where "call h (if 0 < p_requestTimeout p then Some (p_requestTimeout p) else None) w1 = (Inr x, w2)" using assms(2) by blast
  with n q h show ?thesis by (simp add: p_attempt_def)
qed

lemma p_withRetry_ready:
  assumes "reliable E" and "p_ready p" and "\<And>h t w. \<exists>x w'. call h t w = (Inr x, w')"
  shows "\<exists>x p' w'. p_withRetry E call p w = (Inr x, p', w') \<and> p_ready p'"
proof -
  have a: "\<exists>x p' w'. p_attempt E call p w = (Inr x, p', w') \<and> p_ready p'" for w by (rule p_attempt_ready [OF assms(2,3)])
  obtain w1 where "rl_Wait (x_rate E) (p_limiter p) w = (None, w1)"
    using assms(1,2) unfolding reliable_def rl_Wait_def p_ready_def by (metis (no_types, lifting) option.case_eq_if prod.collapse)
  moreover have "\<exists>x p' w'. cb_Execute (x_gb E) (p_circuitBreaker p) (p_attempt E call) p w1 = (Inr x, p', w') \<and> p_ready p'"
  proof (cases "cb_enabled (p_circuitBreaker p)")
    case True
    obtain w2 where "gb_Admit (x_gb E) (cb_cb (p_circuitBreaker p)) w1 = (None, w2)" using assms(1) unfolding reliable_def by (metis prod.collapse)
    with True a [of w2] show ?thesis by (auto simp: cb_Execute_def)
  qed (use a [of w1] in \<open>simp add: cb_Execute_def\<close>)
  ultimately show ?thesis unfolding p_withRetry_def WithRetry_def Let_def by (subst retry_from.simps) auto
qed

lemma first_available_ready:
  assumes "reliable E" and "ns \<noteq> []" and "\<forall>n \<in> set ns. providers pool n \<noteq> None" and "pool_ready pool"
  shows "\<exists>n pool' w'. first_available E ns pool w = (Some n, pool', w') \<and> pool_ready pool' \<and> providers pool' n \<noteq> None"
proof (cases ns)
  case (Cons n rest)
  then obtain p where p: "providers pool n = Some p" "p_ready p" using assms(3,4) by (auto simp: pool_ready_def)
  obtain p' w' where "p_IsAvailable E p w = (True, p', w')" "p_ready p'" using p_IsAvailable_ready [OF assms(1) p(2)] by blast
  with p Cons assms(4) pool_ready_set show ?thesis by (auto simp: set_provider_def)
qed (use assms in simp)

lemma GetProvider_ready:
  assumes "reliable E" and "pool_ready pool"
  shows "\<exists>n pool' w'. pool_GetProvider E pool w = (Some n, pool', w') \<and> pool_ready pool' \<and> providers pool' n \<noteq> None"
  unfolding pool_GetProvider_def by (rule first_available_ready [OF assms(1) _ _ assms(2)]) (use assms(2) in \<open>auto simp: pool_ready_def\<close>)

lemma RecordSuccess_ready:
  "pool_ready pool \<Longrightarrow> \<exists>pool' w'. pool_RecordSuccess E n pool w = (pool', w') \<and> pool_ready pool'"
proof (cases "providers pool n")
  case (Some p)
  assume r: "pool_ready pool"
  then have "p_ready p" using Some by (simp add: pool_ready_def)
  moreover obtain p' w' where "p_RecordSuccess E p w = (p', w')" by (cases "p_RecordSuccess E p w")
  moreover from calculation have "p_ready p'" by (auto simp: p_RecordSuccess_def p_ready_def Let_def split: prod.splits)
  ultimately show ?thesis using Some r by (auto simp: pool_RecordSuccess_def)
qed (simp add: pool_RecordSuccess_def)

lemma on_provider_ready:
  assumes "reliable E" and "pool_ready pool" and "providers pool n \<noteq> None" and "\<And>h t w. \<exists>x w'. call h t w = (Inr x, w')"
  shows "\<exists>x pool' w'. on_provider n (p_withRetry E call) pool w = (Inr x, pool', w') \<and> pool_ready pool'"
proof -
  obtain p where p: "providers pool n = Some p" "p_ready p" using assms(2,3) by (auto simp: pool_ready_def)
  obtain x p' w' where "p_withRetry E call p w = (Inr x, p', w')" "p_ready p'"
    using p_withRetry_ready [of E p call w, OF assms(1) p(2) assms(4)] by blast
  with p(1) assms(2) show ?thesis by (auto simp: on_provider_def)
qed

lemma FilterLogs_ready:
  assumes "reliable E" and "pool_ready pool" and "providers pool n \<noteq> None"
  shows "\<exists>x pool' w'. on_provider n (p_FilterLogs E q) pool w = (Inr x, pool', w') \<and> pool_ready pool'"
  unfolding p_FilterLogs_def by (rule on_provider_ready [OF assms]) (use assms(1) in \<open>simp add: reliable_def\<close>)

lemma pool_rpc_ready:
  assumes "reliable E" and "pool_ready pool" and "\<And>h t w. \<exists>x w'. call h t w = (Inr x, w')"
  shows "\<exists>x pool' w'. pool_rpc E counts (p_withRetry E call) pool w = (Inr x, pool', w') \<and> pool_ready pool'"
proof -
  obtain n pool1 w1 where g: "pool_GetProvider E pool w = (Some n, pool1, w1)" "pool_ready pool1" "providers pool1 n \<noteq> None"
    using GetProvider_ready [OF assms(1,2)] by blast
  obtain x pool2 w2 where o: "on_provider n (p_withRetry E call) pool1 w1 = (Inr x, pool2, w2)" "pool_ready pool2"
    using on_provider_ready [of E pool1 n call, OF assms(1) g(2,3) assms(3)] by blast
  with g RecordSuccess_ready [OF o(2), of E n w2] show ?thesis by (auto simp: pool_rpc_def)
qed

lemma rpcs_ready:
  assumes "reliable E" and "pool_ready pool"
  shows "\<exists>x pool' w'. pool_HeaderByNumber E i pool w = (Inr x, pool', w') \<and> pool_ready pool'"
    and "\<exists>x pool' w'. pool_BlockNumber E pool w = (Inr x, pool', w') \<and> pool_ready pool'"
    and "\<exists>x pool' w'. pool_LogsByBlockRange E a b pool w = (Inr x, pool', w') \<and> pool_ready pool'"
    and "\<exists>x pool' w'. pool_LogsByBlockNumber E a pool w = (Inr x, pool', w') \<and> pool_ready pool'"
  unfolding pool_HeaderByNumber_def pool_BlockNumber_def pool_LogsByBlockRange_def pool_LogsByBlockNumber_def pool_FilterLogs_def
    p_HeaderByNumber_def p_BlockNumber_def p_FilterLogs_def
  by (rule pool_rpc_ready [OF assms], use assms(1) in \<open>simp add: reliable_def\<close>)+

lemma MaxLogBlockRange_ready:
  assumes "reliable E" and "pool_ready pool"
  shows "\<exists>m pool' w'. pool_MaxLogBlockRange E pool w = (m, pool', w') \<and> pool_ready pool'"
  using GetProvider_ready [OF assms, of w] by (auto simp: pool_MaxLogBlockRange_def split: option.split)

lemma available_of_ready:
  assumes "reliable E" and "pool_ready pool" and "\<forall>n \<in> set ns. providers pool n \<noteq> None"
  shows "\<exists>pool' w'. available_of E ns pool w = (ns, pool', w') \<and> pool_ready pool'"
  using assms(2,3)
proof (induction ns arbitrary: pool w)
  case (Cons n ns)
  then obtain p where p: "providers pool n = Some p" "p_ready p" by (auto simp: pool_ready_def)
  obtain p' w1 where a: "p_IsAvailable E p w = (True, p', w1)" "p_ready p'" using p_IsAvailable_ready [OF assms(1) p(2)] by blast
  have "pool_ready (set_provider n p' pool)" using Cons.prems(1) a(2) by (rule pool_ready_set)
  moreover have "\<forall>m \<in> set ns. providers (set_provider n p' pool) m \<noteq> None" using Cons.prems(2) by (simp add: set_provider_def)
  ultimately obtain pool' w' where "available_of E ns (set_provider n p' pool) w1 = (ns, pool', w')" "pool_ready pool'"
    using Cons.IH by blast
  with p a show ?case by simp
qed simp

lemma snapshot_ready:
  assumes "reliable E" and "pool_ready pool"
  shows "\<exists>pool' w'. availableProvidersSnapshot E pool w = (orderedList pool, pool', w') \<and> pool_ready pool'"
  unfolding availableProvidersSnapshot_def by (rule available_of_ready [OF assms]) (use assms(2) in \<open>simp add: pool_ready_def\<close>)

section \<open>A parallel round without failures\<close>

text \<open>No worker has seen a failure, and no error has been reported.\<close>

fun smooth :: "worker \<Rightarrow> bool" where
  "smooth (Failed job err) = False"
| "smooth (Requeue job err) = False"
| "smooth (Check err) = False"
| "smooth _ = True"

definition smooth_round :: "'w round \<Rightarrow> bool" where
  "smooth_round s \<longleftrightarrow> pool_ready (rd_pool s) \<and> rd_firstErr s = None \<and> rd_ctx s = None \<and> (\<forall>x \<in> set (rd_workers s). smooth (snd x))"

lemma smooth_set_worker [intro]:
  "smooth_round s \<Longrightarrow> smooth pc \<Longrightarrow> smooth_round (set_worker i pc s)"
  by (auto simp: smooth_round_def set_worker_def dest!: set_update_subset_insert [THEN subsetD])

lemma smooth_fields [simp]:
  "smooth_round (s\<lparr>rd_world := w\<rparr>) = smooth_round s" "smooth_round (s\<lparr>rd_queue := q\<rparr>) = smooth_round s"
  "smooth_round (s\<lparr>rd_results := rs\<rparr>) = smooth_round s" "smooth_round (s\<lparr>rd_remaining := k\<rparr>) = smooth_round s"
  "smooth_round (s\<lparr>rd_cancelled := b\<rparr>) = smooth_round s"
  by (simp_all add: smooth_round_def)

lemma smooth_pool: "smooth_round s \<Longrightarrow> pool_ready pool \<Longrightarrow> smooth_round (s\<lparr>rd_pool := pool\<rparr>)"
  by (simp add: smooth_round_def)

lemma worker_call_smooth:
  assumes "reliable E" and s: "smooth_round s" and "providers (rd_pool s) n \<noteq> None"
  shows "smooth_round (worker_call E i n job s)"
proof -
  have "pool_ready (rd_pool s)" using s by (simp add: smooth_round_def)
  then obtain x pool' w' where c: "on_provider n (p_FilterLogs E (logFilterQuery (rd_pool s) (job_from job) (job_to job))) (rd_pool s) (rd_world s) = (Inr x, pool', w')"
    and p: "pool_ready pool'" using FilterLogs_ready [OF assms(1) _ assms(3)] by blast
  have "smooth_round (s\<lparr>rd_pool := pool', rd_world := w'\<rparr>)" using smooth_pool [OF s p] by simp
  then show ?thesis by (simp add: worker_call_def c smooth_set_worker)
qed

lemma worker_store_smooth:
  assumes s: "smooth_round s"
  shows "smooth_round (worker_store E i n job logs s)"
proof -
  have "pool_ready (rd_pool s)" using s by (simp add: smooth_round_def)
  then obtain pool' w' where c: "pool_RecordSuccess E n (rd_pool s) (rd_world s) = (pool', w')" and p: "pool_ready pool'"
    using RecordSuccess_ready [of "rd_pool s" E n "rd_world s"] by blast
  have "smooth_round (s\<lparr>rd_pool := pool', rd_world := w', rd_results := rs\<rparr>)" for rs using smooth_pool [OF s p] by simp
  then show ?thesis by (simp add: worker_store_def c smooth_set_worker)
qed

lemma worker_step_smooth:
  assumes "reliable E" and s: "smooth_round s" and inv: "round_inv E limit jobs pool0 s" and step: "worker_step E limit cap i b s = Some s'"
  shows "smooth_round s'"
proof -
  obtain n pc where i: "i < length (rd_workers s)" "rd_workers s ! i = (n, pc)"
    using step by (cases "rd_workers s ! i") (auto simp: worker_step_def split: if_splits)
  have m: "(n, pc) \<in> set (rd_workers s)" using i by (metis nth_mem)
  then have pc: "smooth pc" using s by (auto simp: smooth_round_def)
  have n: "providers (rd_pool s) n \<noteq> None" using inv m by (auto simp: round_inv_def inv_data_def)
  note step' = step [unfolded worker_step_def i(2) prod.case if_not_P [OF i(1) [folded not_le]]]
  show ?thesis
  proof (cases pc)
    case Idle
    with step' s show ?thesis by (auto simp: worker_select_def split: if_splits list.splits)
  next
    case (Calling job)
    with step' have "s' = worker_call E i n job s" by simp
    with worker_call_smooth [OF assms(1) s n] show ?thesis by simp
  next
    case (Got job logs)
    with step' have "s' = worker_store E i n job logs s" by simp
    with worker_store_smooth [OF s] show ?thesis by simp
  next
    case Stored
    with step' s show ?thesis by (auto simp: worker_count_def Let_def smooth_set_worker)
  qed (use step' pc in simp_all)
qed

lemma round_body_smooth:
  assumes "reliable E" and "smooth_round s" and inv: "round_inv E limit jobs pool0 s" 
  shows "round_body E limit (length jobs) s = Inr s' \<Longrightarrow> smooth_round s'" and "round_body E limit (length jobs) s = Inl s' \<Longrightarrow> smooth_round s'"
proof -
  have p: "poll_ctx E s = s" using assms(1,2) by (simp add: poll_ctx_def smooth_round_def reliable_def)
  have w: "round_inv E limit jobs pool0 (s\<lparr>rd_world := w\<rparr>)" for w by (rule env_step_inv [OF env_step.world inv])
  show "round_body E limit (length jobs) s = Inr s' \<Longrightarrow> smooth_round s'" "round_body E limit (length jobs) s = Inl s' \<Longrightarrow> smooth_round s'"
    using assms(2) worker_step_smooth [OF assms(1) _ w]
    by (auto simp: round_body_def p Let_def split: if_splits prod.splits option.splits)
qed

lemma round_smooth:
  assumes "reliable E" and "smooth_round s" and "round_inv E limit jobs pool0 s" and "in_i64 limit"
    and "run_round E limit (length jobs) s = Some s'"
  shows "smooth_round s'"
proof (rule go_for_partial [OF assms(5) [unfolded run_round_def], where I = "\<lambda>s. smooth_round s \<and> round_inv E limit jobs pool0 s"])
  show "smooth_round s \<and> round_inv E limit jobs pool0 s" using assms(2,3) ..
next
  fix a r
  assume "smooth_round a \<and> round_inv E limit jobs pool0 a" and "round_body E limit (length jobs) a = Inl r"
  then show "smooth_round r" using round_body_smooth(2) [OF assms(1)] by blast
next
  fix a a'
  assume "smooth_round a \<and> round_inv E limit jobs pool0 a" and b: "round_body E limit (length jobs) a = Inr a'"
  then show "smooth_round a' \<and> round_inv E limit jobs pool0 a'"
    using round_body_smooth(1) [OF assms(1)] round_body_step [OF _ assms(4) b] by blast
qed

lemma parallel_ready:
  assumes rel: "reliable E" and ready: "pool_ready pool" and inv: "pool_inv pool" "limits_ok pool"
    and rb: "unat toBlock < 2 ^ 63" "unat toBlock - unat fromBlock < 2 ^ 31 - 1"
    and run: "LogsByBlockRangeParallel E fromBlock toBlock pool w = Some (r, pool', w')"
  shows "(\<exists>logs. r = Inr logs) \<and> pool_ready pool'"
proof -
  obtain pool1 w1 where snap: "availableProvidersSnapshot E pool w = (orderedList pool, pool1, w1)" and r1: "pool_ready pool1"
    using snapshot_ready [OF rel ready] by blast
  note e = snapshot_evolves [OF snap]
  have inv1: "pool_inv pool1" "limits_ok pool1"
    using pool_inv_evolves [OF inv(1) e(1)] limits_ok_evolves [OF inv(2) e(1)] by auto
  let ?ns = "orderedList pool" and ?chunk = "parallel_chunk (map (limit_of pool1) (orderedList pool)) 1"
  have ns: "?ns \<noteq> []" using ready by (simp add: pool_ready_def)
  consider (empty) "toBlock < fromBlock"
    | (single) "fromBlock \<le> toBlock" "length ?ns < 2 \<or> toBlock - fromBlock + 1 \<le> ?chunk"
    | (fan) "fromBlock \<le> toBlock" "\<not> (length ?ns < 2 \<or> toBlock - fromBlock + 1 \<le> ?chunk)" by force
  then show ?thesis
  proof cases
    case empty
    with run ready show ?thesis by (auto simp: LogsByBlockRangeParallel_def)
  next
    case single
    with run snap ns have "pool_LogsByBlockRange E fromBlock toBlock pool1 w1 = (r, pool', w')"
      by (auto simp: LogsByBlockRangeParallel_def Let_def split: if_splits)
    with rpcs_ready(3) [OF rel r1, of fromBlock toBlock w1] show ?thesis by auto
  next
    case fan
    let ?limit = "parallelJobAttemptLimit pool1 (int (length ?ns))"
    have len: "length ?ns < 2 ^ 31" using inv(2) by (simp add: limits_ok_def)
    have c: "1 \<le> ?chunk \<and> unat ?chunk < 2 ^ 63"
      using limit_of_bounds [OF inv1(2,1)] by (intro parallel_chunk_bounds) auto
    obtain jobs s where js: "split_jobs ?chunk fromBlock toBlock = Some jobs"
      "run_round E ?limit (length jobs) (init_round jobs ?ns pool1 w1) = Some s"
      and res: "r = round_result fromBlock toBlock s" "pool' = rd_pool s"
      using run snap ns fan by (auto simp: LogsByBlockRangeParallel_def Let_def split: option.splits if_splits)
    have b: "round_begins pool1 ?ns ?chunk fromBlock toBlock jobs"
      using inv1 ns e(3) len c fan(1) rb js(1) by (simp add: round_begins_def)
    have "smooth_round (init_round jobs ?ns pool1 w1)" using r1 by (auto simp: smooth_round_def init_round_def)
    from round_smooth [OF rel this round_begins_inv [OF b] _ js(2)] round_begins_limit [OF b]
    have sm: "rd_firstErr s = None" "rd_ctx s = None" "pool_ready (rd_pool s)" by (auto simp: smooth_round_def)
    obtain k where k: "all_exited s" "round_runs E ?limit (length jobs) k (init_round jobs ?ns pool1 w1) s"
      using run_round_runs [OF js(2)] by blast
    have "\<exists>logs. r = Inr logs"
      using round_result_ok(2) [OF round_runs_begins [OF b k(2)] k(1), of fromBlock toBlock] sm res by (cases "round_result fromBlock toBlock s") auto
    with sm res show ?thesis by simp
  qed
qed

lemma plan_ready:
  assumes "reliable E" and "pool_ready pool"
  shows "\<exists>kc pool' w'. ParallelLogPlan E pool w = (kc, pool', w') \<and> pool_ready pool'"
  using snapshot_ready [OF assms, of w] by (auto simp: ParallelLogPlan_def)

end
