(* ===== verification/Sync_Live.thy ===== *)
theory Sync_Live
  imports Interference
begin

text \<open>
  The sync engine in good weather: when the calls behind its ports succeed, so does every sync.
  The contract \<open>sync_live\<close> extends \<open>sync_limits\<close> by states \<open>good\<close> in which every call succeeds and
  which every call keeps.
\<close>

locale sync_live = sync_limits +
  fixes good :: "'a \<Rightarrow> bool"
  assumes good_ok: "good s \<Longrightarrow> ok s"
    and provider_live: "good s \<Longrightarrow> \<exists>p s'. pp_GetProvider (pt_pool P) s = (Some p, s') \<and> good s'"
    and header_live: "good s \<Longrightarrow> \<exists>h s'. pp_HeaderByNumber (pt_pool P) i s = (Inr h, s') \<and> good s'"
    and number_live: "good s \<Longrightarrow> \<exists>c s'. pp_BlockNumber (pt_pool P) s = (Inr c, s') \<and> good s'"
    and logs_live: "good s \<Longrightarrow> \<exists>ls s'. pp_LogsByBlockNumber (pt_pool P) n s = (Inr ls, s') \<and> good s'"
    and range_live: "good s \<Longrightarrow> \<exists>ls s'. pp_LogsByBlockRange (pt_pool P) a b s = (Inr ls, s') \<and> good s'"
    and max_live: "good s \<Longrightarrow> \<exists>m s'. pp_MaxLogBlockRange (pt_pool P) s = (m, s') \<and> good s'"
    and plan_live: "pp_parallel (pt_pool P) = Some pb \<Longrightarrow> good s \<Longrightarrow> \<exists>kc s'. pb_ParallelLogPlan pb s = (kc, s') \<and> good s'"
    and parallel_live: "pp_parallel (pt_pool P) = Some pb \<Longrightarrow> good s \<Longrightarrow> round_bounds a b \<Longrightarrow>
      \<exists>ls s'. pb_LogsByBlockRangeParallel pb a b s = Some (Inr ls, s') \<and> good s'"
    and get_live: "good s \<Longrightarrow> \<exists>n s'. cs_GetLastBlock (pt_storage P) c s = (Inr n, s') \<and> good s'"
    and set_live: "good s \<Longrightarrow> \<exists>s'. cs_SetLastBlock (pt_storage P) c n s = (None, s') \<and> good s'"
    and dispatch_live: "good s \<Longrightarrow> \<exists>s'. bd_Dispatch (pt_dispatcher P) l t s = (None, s') \<and> good s'"
    and get_scores_live: "good s \<Longrightarrow> good (snd (pp_GetScores (pt_pool P) s))"
    and set_score_live: "cs_scores (pt_storage P) = Some sc \<Longrightarrow> good s \<Longrightarrow> good (snd (ss_SetProviderScore sc p x y s))"
    and quota_live: "cs_quotas (pt_storage P) = Some qs \<Longrightarrow> good s \<Longrightarrow> good (snd (pp_PersistQuotaUsage (pt_pool P) qs s))"
begin

lemma save_scores_live: "cs_scores (pt_storage P) = Some sc \<Longrightarrow> good s \<Longrightarrow> good (save_scores sc xs s)"
  by (induction xs arbitrary: s) (auto simp: set_score_live)

lemma persist_live: "good s \<Longrightarrow> good (persistProviderState P s)"
proof -
  assume g: "good s"
  define s1 where "s1 = (case cs_scores (pt_storage P) of None \<Rightarrow> s
    | Some sc \<Rightarrow> (case pp_GetScores (pt_pool P) s of (xs, s') \<Rightarrow> save_scores sc xs s'))"
  have "good s1" using g get_scores_live [OF g] save_scores_live by (auto simp: s1_def split: option.split prod.splits)
  then show ?thesis
    using quota_live by (auto simp: persistProviderState_def s1_def [symmetric] Let_def split: option.split)
qed

lemma store_live: "good s \<Longrightarrow> \<exists>s'. storeLastBlock P idx n s = (None, s') \<and> good s'"
  by (simp add: storeLastBlock_def set_live)

lemma dispatch_logs_live: "good s \<Longrightarrow> \<exists>s'. dispatch_logs P t ls s = (None, s') \<and> good s'"
proof (induction ls arbitrary: s)
  case (Cons l ls)
  obtain s1 where "bd_Dispatch (pt_dispatcher P) l t s = (None, s1)" "good s1" using dispatch_live [OF Cons.prems] by blast
  with Cons.IH show ?case by simp
qed simp

lemma processBlock_live: "good s \<Longrightarrow> \<exists>idx' s'. processBlock P n idx s = (None, idx', s') \<and> good s'"
proof -
  assume "good s"
  then obtain h s1 where h: "pp_HeaderByNumber (pt_pool P) (big_SetUint64 n) s = (Inr h, s1)" "good s1" using header_live by blast
  then obtain ls s2 where l: "pp_LogsByBlockNumber (pt_pool P) n s1 = (Inr ls, s2)" "good s2" using logs_live by blast
  then show ?thesis using h dispatch_logs_live [OF l(2), of "hdr_Time h" ls] by (auto simp: processBlock_def Let_def)
qed

abbreviation fine :: "goerr option \<times> Indexer \<times> 'a \<Rightarrow> bool" where
  "fine \<equiv> \<lambda>(r, idx, s). r = None \<and> good s"

lemma seq_body_live:
  assumes "good s"
  shows "case seq_body P cur (n, idx, s) of Inl r \<Rightarrow> fine r | Inr (n', idx', s') \<Rightarrow> good s'"
proof -
  obtain idx' s1 where p: "processBlock P n idx s = (None, idx', s1)" "good s1" using processBlock_live [OF assms] by blast
  obtain s2 where "storeLastBlock P idx' n s1 = (None, s2)" "good s2" using store_live [OF p(2)] by blast
  with assms p persist_live show ?thesis by (simp add: seq_body_def)
qed

lemma sequential_live:
  assumes "good s" and "syncBlocksSequential P a cur idx s = Some r"
  shows "fine r"
proof (rule go_for_partial [OF assms(2) [unfolded syncBlocksSequential_def], where I = "\<lambda>(n, idx, s). good s"])
  show "case (a, idx, s) of (n, idx, s) \<Rightarrow> good s" using assms(1) by simp
next
  fix x r
  assume "case x of (n, idx, s) \<Rightarrow> good s" and "seq_body P cur x = Inl r"
  then show "fine r" using seq_body_live [of "snd (snd x)" cur "fst x" "fst (snd x)"] by (cases x) auto
next
  fix x x'
  assume "case x of (n, idx, s) \<Rightarrow> good s" and "seq_body P cur x = Inr x'"
  then show "case x' of (n, idx, s) \<Rightarrow> good s" using seq_body_live [of "snd (snd x)" cur "fst x" "fst (snd x)"] by (cases x; cases x') auto
qed

lemma apply_logs_live: "good s \<Longrightarrow> \<exists>s'. apply_logs P ls bt s = (None, s') \<and> good s'"
proof (induction ls arbitrary: bt s)
  case (Cons l ls)
  have deliver: "\<exists>s'. (if t = 0 then apply_logs P ls bt' s1 else case bd_Dispatch (pt_dispatcher P) l t s1 of
      (Some err, s') \<Rightarrow> (Some (block_error ''failed to dispatch log for block '' (log_BlockNumber l) err), s')
    | (None, s') \<Rightarrow> apply_logs P ls bt' s') = (None, s') \<and> good s'" if "good s1" for t bt' s1
  proof -
    obtain s2 where "bd_Dispatch (pt_dispatcher P) l t s1 = (None, s2)" "good s2" using dispatch_live [OF \<open>good s1\<close>] by blast
    with Cons.IH that show ?thesis by simp
  qed
  show ?case
  proof (cases "bt (log_BlockNumber l)")
    case None
    obtain h s1 where "pp_HeaderByNumber (pt_pool P) (big_SetUint64 (log_BlockNumber l)) s = (Inr h, s1)" "good s1"
      using header_live [OF Cons.prems] by blast
    with None deliver [OF this(2)] show ?thesis by (simp add: Let_def)
  next
    case (Some t)
    with deliver [OF Cons.prems] show ?thesis by (simp add: Let_def)
  qed
qed simp

lemma record_tip_live: "good s \<Longrightarrow> \<exists>idx' s'. record_tip P e idx s = (idx', s') \<and> good s'"
  using header_live [of s "big_SetUint64 e"] by (cases "0 < ix_reorgDepth idx") (auto simp: record_tip_def)

lemma applyBatchChunk_live:
  assumes "good s"
  shows "\<exists>idx' s'. applyBatchChunk P ls e idx s = (None, idx', s') \<and> good s'"
proof -
  obtain s1 where a: "apply_logs P ls Map.empty s = (None, s1)" "good s1" using apply_logs_live [OF assms] by blast
  obtain idx' s2 where t: "record_tip P e idx s1 = (idx', s2)" "good s2" using record_tip_live [OF a(2)] by blast
  obtain s3 where "storeLastBlock P idx' e s2 = (None, s3)" "good s3" using store_live [OF t(2)] by blast
  with a t persist_live show ?thesis by (simp add: applyBatchChunk_def)
qed

lemma parallel_part_live:
  assumes "good s" and n: "n \<le> cur" "unat cur < 2 ^ 63"
  shows "case parallel_part P cur n idx s of Hang \<Rightarrow> False | Return r \<Rightarrow> fine r
         | Continue (n', idx', s') \<Rightarrow> good s' | Fallthrough (n', idx', s') \<Rightarrow> good s'"
proof (cases "pp_parallel (pt_pool P)")
  case None
  with assms(1) show ?thesis by (simp add: parallel_part_def)
next
  case (Some pb)
  obtain k c s1 where pl: "pb_ParallelLogPlan pb s = ((k, c), s1)" and g1: "good s1" using plan_live [OF Some assms(1)] by (metis surj_pair)
  show ?thesis
  proof (cases "1 < k \<and> 0 < c \<and> to_u64 c < cur - n + 1")
    case False
    have "parallel_part P cur n idx s = Fallthrough (n, idx, s1)"
      by (simp only: parallel_part_def Some option.case pl prod.case Let_def if_not_P [OF False])
    with g1 show ?thesis by simp
  next
    case True
    define spn where "spn = (if cur - n + 1 < to_u64 c * to_u64 k then cur - n + 1 else to_u64 c * to_u64 k)"
    define e where "e = n + spn - 1"
    have rb: "round_bounds n e"
      using span_bounds [OF n _ _ _ spn_def] plan_bounds [OF Some good_ok [OF assms(1)] pl] True by (auto simp: e_def)
    obtain ls s2 where par: "pb_LogsByBlockRangeParallel pb n e s1 = Some (Inr ls, s2)" and g2: "good s2"
      using parallel_live [OF Some g1 rb] by blast
    obtain idx' s3 where ab: "applyBatchChunk P ls e idx s2 = (None, idx', s3)" "good s3" using applyBatchChunk_live [OF g2] by blast
    have "parallel_part P cur n idx s = Continue (e + 1, idx', s3)"
      using Some pl True par ab(1) unfolding parallel_part_def spn_def e_def Let_def by simp
    with ab(2) show ?thesis by simp
  qed
qed

lemma single_part_live:
  assumes "good s"
  shows "case single_part P cur c b n idx s of Inl r \<Rightarrow> fine r | Inr (n', c', b', idx', s') \<Rightarrow> good s'"
proof -
  define pre where "pre = (if \<not> b then (case pp_MaxLogBlockRange (pt_pool P) s of
      (r, s') \<Rightarrow> (if 0 < to_u64 r then to_u64 r else c, s')) else (c, s))"
  obtain c' s1 where pre: "pre = (c', s1)" "good s1" using max_live [OF assms] assms by (cases b) (auto simp: pre_def)
  let ?e = "if cur < n + c' - 1 then cur else n + c' - 1"
  obtain ls s2 where f: "pp_LogsByBlockRange (pt_pool P) n ?e s1 = (Inr ls, s2)" "good s2" using range_live [OF pre(2)] by blast
  obtain idx' s3 where "applyBatchChunk P ls ?e idx s2 = (None, idx', s3)" "good s3" using applyBatchChunk_live [OF f(2)] by blast
  with f pre show ?thesis unfolding single_part_def Let_def pre_def [symmetric] by simp
qed

lemma batch_body_live:
  assumes "good s" and "unat cur < 2 ^ 63"
  shows "case batch_body P cur (n, c, b, idx, s) of Inl r \<Rightarrow> fine r | Inr (n', c', b', idx', s') \<Rightarrow> good s'"
proof (cases "n \<le> cur")
  case True
  from parallel_part_live [OF assms(1) True assms(2), of idx] show ?thesis
    using True single_part_live
    by (cases "parallel_part P cur n idx s") (auto simp: batch_body_def split: prod.splits)
qed (use assms in \<open>simp add: batch_body_def\<close>)

lemma batched_live:
  assumes "good s" and "unat cur < 2 ^ 63" and "syncBlocksBatched P a cur idx s = Some r"
  shows "fine r"
proof -
  obtain m s1 where m: "pp_MaxLogBlockRange (pt_pool P) s = (m, s1)" "good s1" using max_live [OF assms(1)] by blast
  have go: "go_for (batch_body P cur) (a, if to_u64 m = 0 then 1 else to_u64 m, False, idx, s1) = Some r"
    using assms(3) m by (simp add: syncBlocksBatched_def Let_def)
  note live = batch_body_live [OF _ assms(2)]
  show ?thesis
  proof (rule go_for_partial [OF go, where I = "\<lambda>(n, c, b, idx, s). good s"])
    fix x r
    assume "case x of (n, c, b, idx, s) \<Rightarrow> good s" and "batch_body P cur x = Inl r"
    moreover obtain n c b i s where "x = (n, c, b, i, s)" by (cases x)
    ultimately show "fine r" using live [of s n c b i] by simp
  next
    fix x x'
    assume "case x of (n, c, b, idx, s) \<Rightarrow> good s" and "batch_body P cur x = Inr x'"
    moreover obtain n c b i s where "x = (n, c, b, i, s)" by (cases x)
    ultimately show "case x' of (n, c, b, idx, s) \<Rightarrow> good s" using live [of s n c b i] by simp
  qed (use m in simp)
qed

lemma sync_range_live:
  assumes "good s" and "unat cur < 2 ^ 63" and "sync_range P n cur idx s = Some r"
  shows "fine r"
proof -
  obtain m s1 where m: "pp_MaxLogBlockRange (pt_pool P) s = (m, s1)" "good s1" using max_live [OF assms(1)] by blast
  obtain m' s2 where m': "pp_MaxLogBlockRange (pt_pool P) s1 = (m', s2)" "good s2" using max_live [OF m(2)] by blast
  show ?thesis
    using assms(1,3) m m' batched_live [OF m'(2) assms(2)] sequential_live [OF m(2)]
    by (auto simp: sync_range_def Let_def split: if_splits)
qed

lemma detectReorg_live:
  assumes "good s"
  shows "\<exists>n' idx' s'. detectReorgRewind P n idx s = (Inr n', idx', s') \<and> good s'"
proof -
  obtain h s1 where h: "pp_HeaderByNumber (pt_pool P) (big_SetUint64 n) s = (Inr h, s1)" "good s1" using header_live [OF assms] by blast
  then show ?thesis
    using assms store_live [OF h(2), of idx "rewind_target (ic_StartBlock (ix_config idx)) (ix_reorgDepth idx) n"]
    by (cases "ix_recentHashes idx n") (auto simp: detectReorgRewind_def Let_def)
qed

lemma sync_from_live:
  assumes "good s" and "sync_from P n idx s = Some r"
  shows "fine r"
proof -
  obtain n' idx1 s1 where d: "detectReorgRewind P n idx s = (Inr n', idx1, s1)" "good s1" using detectReorg_live [OF assms(1)] by blast
  obtain c s2 where c: "pp_BlockNumber (pt_pool P) s1 = (Inr c, s2)" "good s2" using number_live [OF d(2)] by blast
  have cb: "unat c < 2 ^ 63" using number_bound [OF good_ok [OF d(2)] c(1)] by simp
  obtain s3 where st: "storeLastBlock P idx1 (ic_StartBlock (ix_config idx1)) s2 = (None, s3)" "good s3" using store_live [OF c(2)] by blast
  show ?thesis using assms(2) d c st sync_range_live [OF st(2) cb] sync_range_live [OF c(2) cb]
    by (auto simp: sync_from_def Let_def split: if_splits)
qed

lemma getLastBlock_live: "good s \<Longrightarrow> \<exists>n s'. getLastBlock P idx s = (Inr n, s') \<and> good s'"
  using get_live by (cases "ic_DebugMode (ix_config idx)") (auto simp: getLastBlock_def)

lemma syncBlocks_live:
  assumes "good s" and "syncBlocks P idx s = Some r"
  shows "fine r"
proof -
  obtain p s1 where g: "pp_GetProvider (pt_pool P) s = (Some p, s1)" "good s1" using provider_live [OF assms(1)] by blast
  obtain t where o: "Observe True (ix_exhaustion idx) = (False, t)" by (simp add: Observe_def)
  obtain n s2 where l: "getLastBlock P (idx\<lparr>ix_exhaustion := t\<rparr>) s1 = (Inr n, s2)" "good s2"
    using getLastBlock_live [OF g(2)] by blast
  show ?thesis using assms(2) g o l sync_from_live [OF l(2)] by (auto simp: syncBlocks_def Let_def split: if_splits)
qed

end

text \<open>Good weather with others about that keep it good.\<close>

locale disturbed_live = sync_live + disturbed_sync +
  assumes others_good: "good s \<Longrightarrow> good (I s)"

sublocale disturbed_live \<subseteq> disturbed: sync_live "disturbed I P"
  by unfold_locales
    (auto simp: good_ok others_good provider_live header_live number_live logs_live range_live max_live parallel_live
      get_live set_live dispatch_live get_scores_live set_score_live quota_live
      intro: plan_live [OF _ others_good, simplified split_paired_Ex])

end
