(* ===== verification/Deployment_Live.thy ===== *)
theory Deployment_Live
  imports Deployment_Life Pool_Live Sync_Live
begin

text \<open>
  A deployment in good weather: its clients, limiters and breakers answer, its listeners accept
  every log, and its pool is ready. Then every sync succeeds and reaches the reported head.
\<close>

section \<open>Deployments in good weather\<close>

text \<open>No listener ever returns an error.\<close>

definition willing_listeners :: "(Memory \<times> 'w) EventDispatcher \<Rightarrow> bool" where
  "willing_listeners d \<longleftrightarrow> (\<forall>l t mw. fst (Dispatch d l t mw) = None)"

definition sys_good :: "address list \<Rightarrow> hash list list \<Rightarrow> 'w sys \<Rightarrow> bool" where
  "sys_good A T s \<longleftrightarrow> sys_ok A T s \<and> pool_ready (sys_pool s) \<and> sys_skipped s = {}"

lemma sys_good_pool:
  assumes "sys_good A T s" and "pool_evolves (sys_pool s) pool'" and "pool_ready pool'"
  shows "sys_good A T (s\<lparr>sys_pool := pool', sys_world := w'\<rparr>)"
  using assms sys_ok_evolves [of A T s "s\<lparr>sys_pool := pool', sys_world := w'\<rparr>"] by (simp add: sys_good_def)

lemma lift_live:
  assumes g: "sys_good A T s"
    and ready: "pool_ready (sys_pool s) \<Longrightarrow> \<exists>x pool' w'. f (sys_pool s) (sys_world s) = (h x, pool', w') \<and> pool_ready pool'"
    and ev: "\<And>r pool' w'. f (sys_pool s) (sys_world s) = (r, pool', w') \<Longrightarrow> pool_evolves (sys_pool s) pool'"
  shows "\<exists>x s'. lift_pool f s = (h x, s') \<and> sys_good A T s'"
proof -
  have "pool_ready (sys_pool s)" using g by (simp add: sys_good_def)
  with ready obtain x pool' w' where c: "f (sys_pool s) (sys_world s) = (h x, pool', w')" "pool_ready pool'" by blast
  with sys_good_pool [OF g ev [OF c(1)] c(2)] show ?thesis by (auto simp: lift_pool_def)
qed

lemma note_skip_None [simp]: "note_skip n None s = s"
  by (simp add: note_skip_def)

locale live_deployment = deployment +
  assumes reliable: "reliable E" and willing: "willing_listeners d"
begin

lemma pool_calls_live:
  assumes g: "sys_good A T s"
  shows "\<exists>x s'. lift_pool (pool_HeaderByNumber E i) s = (Inr x, s') \<and> sys_good A T s'"
    and "\<exists>x s'. lift_pool (pool_BlockNumber E) s = (Inr x, s') \<and> sys_good A T s'"
    and "\<exists>x s'. lift_pool (pool_LogsByBlockRange E a b) s = (Inr x, s') \<and> sys_good A T s'"
    and "\<exists>x s'. lift_pool (pool_LogsByBlockNumber E a) s = (Inr x, s') \<and> sys_good A T s'"
    and "\<exists>x s'. lift_pool (pool_GetProvider E) s = (Some x, s') \<and> sys_good A T s'"
    and "\<exists>x s'. lift_pool (pool_MaxLogBlockRange E) s = (id x, s') \<and> sys_good A T s'"
    and "\<exists>x s'. lift_pool (ParallelLogPlan E) s = (id x, s') \<and> sys_good A T s'"
proof -
  show "\<exists>x s'. lift_pool (pool_HeaderByNumber E i) s = (Inr x, s') \<and> sys_good A T s'"
    by (rule lift_live [OF g rpcs_ready(1) [OF reliable]])
      (auto simp: pool_HeaderByNumber_def intro: pool_rpc_evolves [OF quota_only_rpcs(6)])
  show "\<exists>x s'. lift_pool (pool_BlockNumber E) s = (Inr x, s') \<and> sys_good A T s'"
    by (rule lift_live [OF g rpcs_ready(2) [OF reliable]])
      (auto simp: pool_BlockNumber_def intro: pool_rpc_evolves [OF quota_only_rpcs(7)])
  show "\<exists>x s'. lift_pool (pool_LogsByBlockRange E a b) s = (Inr x, s') \<and> sys_good A T s'"
    by (rule lift_live [OF g rpcs_ready(3) [OF reliable]]) (auto intro: pool_LogsByBlockRange_evolves)
  show "\<exists>x s'. lift_pool (pool_LogsByBlockNumber E a) s = (Inr x, s') \<and> sys_good A T s'"
    by (rule lift_live [OF g rpcs_ready(4) [OF reliable]])
      (auto simp: pool_LogsByBlockNumber_def pool_FilterLogs_def intro: pool_rpc_evolves [OF quota_only_rpcs(5)])
  show "\<exists>x s'. lift_pool (pool_GetProvider E) s = (Some x, s') \<and> sys_good A T s'"
    by (rule lift_live [OF g]) (use GetProvider_ready [OF reliable, of "sys_pool s" "sys_world s"] in blast, rule GetProvider_evolves)
  show "\<exists>x s'. lift_pool (pool_MaxLogBlockRange E) s = (id x, s') \<and> sys_good A T s'"
    by (rule lift_live [OF g])
      (use MaxLogBlockRange_ready [OF reliable, of "sys_pool s" "sys_world s"] in simp, rule MaxLogBlockRange_evolves)
  show "\<exists>x s'. lift_pool (ParallelLogPlan E) s = (id x, s') \<and> sys_good A T s'"
    by (rule lift_live [OF g]) (use plan_ready [OF reliable, of "sys_pool s" "sys_world s"] in simp,
      auto simp: ParallelLogPlan_def split: prod.splits dest: snapshot_evolves(1))
qed

lemma sys_reads_live:
  assumes g: "sys_good A T s"
  shows "\<exists>h s'. sys_HeaderByNumber E i s = (Inr h, s') \<and> sys_good A T s'"
    and "\<exists>ls s'. sys_LogsByBlockNumber E n s = (Inr ls, s') \<and> sys_good A T s'"
    and "\<exists>p s'. pp_GetProvider (sys_pool_port E) s = (Some p, s') \<and> sys_good A T s'"
  using pool_calls_live(1) [OF g, of i] pool_calls_live(4) [OF g, of n] pool_calls_live(5) [OF g]
  by (auto simp: sys_HeaderByNumber_def sys_LogsByBlockNumber_def sys_pool_port_def)

lemma sys_parallel_live:
  assumes g: "sys_good A T s" and rb: "round_bounds a b"
  shows "\<exists>ls s'. pb_LogsByBlockRangeParallel (sys_parallel E) a b s = Some (Inr ls, s') \<and> sys_good A T s'"
proof -
  have o: "pool_inv (sys_pool s)" "limits_ok (sys_pool s)" "pool_ready (sys_pool s)" and ok: "sys_ok A T s" and sk: "sys_skipped s = {}"
    using g by (auto simp: sys_good_def sys_ok_def)
  have bd: "unat b < 2 ^ 63" "unat b - unat a < 2 ^ 31 - 1" using rb by (auto simp: round_bounds_def)
  obtain r pool' w' where run: "LogsByBlockRangeParallel E a b (sys_pool s) (sys_world s) = Some (r, pool', w')"
    "pool_inv pool'" "pool_like (sys_pool s) pool'"
    using LogsByBlockRangeParallel_ok [OF o(1,2) bd, of E "sys_world s"] by blast
  have "(\<exists>ls. r = Inr ls) \<and> pool_ready pool'" by (rule parallel_ready [OF reliable o(3,1,2) bd run(1)])
  moreover have "sys_ok A T (s\<lparr>sys_pool := pool', sys_world := w'\<rparr>)" using sys_ok_like [OF ok, of "s\<lparr>sys_pool := pool', sys_world := w'\<rparr>"] run by simp
  ultimately show ?thesis using run(1) sk by (auto simp: sys_parallel_def sys_good_def)
qed

lemma sys_dispatch_live: "sys_good A T s \<Longrightarrow> \<exists>s'. sys_Dispatch d l t s = (None, s') \<and> sys_good A T s'"
proof -
  assume g: "sys_good A T s"
  obtain m w where "Dispatch d l t (sys_mem s, sys_world s) = (None, (m, w))"
    using willing unfolding willing_listeners_def by (metis prod.collapse)
  with g show ?thesis by (auto simp: sys_Dispatch_def sys_good_def sys_ok_def)
qed

end

sublocale live_deployment \<subseteq> sync_live "sys_ports E d onExhausted" chain "sys_ok A T" "sys_last chain" sys_deliv sys_skipped
  chain_logs chain_time "reported_head E" "reported_header E" "sys_good A T"
proof (unfold_locales, goal_cases)
  case (1 s)
  then show ?case by (simp add: sys_good_def)
next
  case (2 s)
  then show ?case using sys_reads_live(3) by (simp add: sys_ports_def)
next
  case (3 s i)
  then show ?case using sys_reads_live(1) by (simp add: sys_ports_def sys_pool_port_def)
next
  case (4 s)
  then show ?case using pool_calls_live(2) by (simp add: sys_ports_def sys_pool_port_def)
next
  case (5 s n)
  then show ?case using sys_reads_live(2) by (simp add: sys_ports_def sys_pool_port_def)
next
  case (6 s a b)
  then show ?case using pool_calls_live(3) by (simp add: sys_ports_def sys_pool_port_def)
next
  case (7 s)
  then show ?case using pool_calls_live(6) by (simp add: sys_ports_def sys_pool_port_def)
next
  case (8 pb s)
  then show ?case using pool_calls_live(7) [of s] by (auto simp: sys_ports_def sys_pool_port_def sys_parallel_def)
next
  case (9 pb s a b)
  then show ?case using sys_parallel_live [of s a b] by (auto simp: sys_ports_def sys_pool_port_def)
next
  case (10 s c)
  then show ?case by (auto simp: sys_ports_def sys_storage_port_def GetLastBlock_def split: option.split)
next
  case (11 s c n)
  then show ?case by (auto simp: sys_ports_def sys_storage_port_def SetLastBlock_def upd_chain_def sys_good_def sys_ok_def)
next
  case (12 s l t)
  then show ?case using sys_dispatch_live by (simp add: sys_ports_def)
next
  case (13 s)
  then show ?case by (auto simp: sys_GetScores_def sys_good_def sys_ok_def split: prod.splits)
next
  case (14 sc s p x y)
  then show ?case by (auto simp: sys_SetProviderScore_def sys_good_def sys_ok_def split: prod.splits)
next
  case (15 qs s)
  obtain r s' where q: "pp_PersistQuotaUsage (pt_pool (sys_ports E d onExhausted)) qs s = (r, s')"
    by (cases "pp_PersistQuotaUsage (pt_pool (sys_ports E d onExhausted)) qs s")
  with 15 have "sys_pool s' = sys_pool s \<and> sys_skipped s' = sys_skipped s"
    by (auto simp: sys_PersistQuotaUsage_def split: prod.splits dest!: persist_quotas_frame)
  with 15(2) q show ?case by (simp add: sys_good_def sys_ok_def)
qed

text \<open>Good weather with others about: they re-rank the pool and call through it, but leave its providers ready.\<close>

locale live_shared = live_deployment E d onExhausted chain A T chain_logs chain_time +
  shared_deployment E d onExhausted chain A T chain_logs chain_time I
  for E :: "'w ext" and d :: "(Memory \<times> 'w) EventDispatcher" and onExhausted :: "goerr \<Rightarrow> 'w \<Rightarrow> 'w" and chain :: string
    and A :: "address list" and T :: "hash list list" and chain_logs :: "u64 \<Rightarrow> log list" and chain_time :: "u64 \<Rightarrow> u64"
    and I :: "'w sys \<Rightarrow> 'w sys" +
  assumes surroundings_good: "sys_good A T s \<Longrightarrow> sys_good A T (I s)"

sublocale live_shared \<subseteq> disturbed_live "sys_ports E d onExhausted" chain "sys_ok A T" "sys_last chain" sys_deliv sys_skipped
  chain_logs chain_time "reported_head E" "reported_header E" "sys_good A T" I
  by unfold_locales (rule surroundings_good)

section \<open>A sync completes\<close>

lemma progressed_complete:
  assumes "progressed logs time {} dbg todo None lb lb' dv dv'" and "\<forall>n \<in> set todo. time n \<noteq> 0"
  shows "dv' = dv @ concat (map (deliveries logs time) todo) \<and> lb' = (if dbg \<or> todo = [] then lb else last todo)"
proof -
  obtain ds rest where p: "list_all2 (delivered logs time {}) todo ds" "dv' = dv @ concat ds @ rest" "rest = []"
    "lb' = (if dbg \<or> todo = [] then lb else last todo)"
    using assms(1) by (auto simp: progressed_def)
  have "ds = map (deliveries logs time) todo" using p(1) assms(2)
    by (auto simp: list_all2_conv_all_nth delivered_def intro!: nth_equalityI)
  with p show ?thesis by simp
qed

context live_shared
begin

lemma sync_completes:
  assumes good: "sys_good A T s" and cfg: "ic_Chain (ix_config idx) = chain"
    and time: "\<forall>n. unat n < 2 ^ 63 \<longrightarrow> chain_time n \<noteq> 0"
  shows "\<exists>idx' s' base cur. syncBlocks (disturbed I (sys_ports E d onExhausted)) idx s = Some (None, idx', s') \<and> sys_good A T s' \<and>
     reported_head E cur \<and> sync_base (reported_header E) idx (first_base (ix_config idx) (sys_last chain s)) cur base \<and>
     sys_deliv s' = sys_deliv s @ concat (map (deliveries chain_logs chain_time) (new_blocks base cur)) \<and>
     (if ic_DebugMode (ix_config idx) then sys_last chain s' = sys_last chain s
      else if base < cur then sys_last chain s' = cur
      else sys_last chain s' = base \<or> base = first_base (ix_config idx) (sys_last chain s) \<and> sys_last chain s' = sys_last chain s)"
proof -
  have ok: "sys_ok A T s" using good by (simp add: sys_good_def)
  obtain r idx' s' where run: "syncBlocks (disturbed I (sys_ports E d onExhausted)) idx s = Some (r, idx', s')"
    and out: "fst (pp_GetProvider (sys_pool_port E) (I s)) = None \<or> sync_progress E chain_logs chain_time chain idx s r s'"
    using shared_sync_delivers [OF ok cfg] by blast
  have r: "r = None" and g: "sys_good A T s'" using disturbed.syncBlocks_live [OF good run] by simp_all
  have "fst (pp_GetProvider (sys_pool_port E) (I s)) \<noteq> None" using sys_reads_live(3) [OF surroundings_good [OF good]] by (metis fst_conv option.distinct(1))
  with out obtain base cur lb where p: "sync_base (reported_header E) idx (first_base (ix_config idx) (sys_last chain s)) cur base"
    "reported_head E cur" "progressed chain_logs chain_time (sys_skipped s') (ic_DebugMode (ix_config idx)) (new_blocks base cur) None lb (sys_last chain s') (sys_deliv s) (sys_deliv s')"
    "base = first_base (ix_config idx) (sys_last chain s) \<and> lb = sys_last chain s \<or>
      lb = (if ic_DebugMode (ix_config idx) then sys_last chain s else base)"
    using r by (auto simp: sync_progress_def)
  have "sys_skipped s' = {}" using g by (simp add: sys_good_def)
  moreover have "unat cur < 2 ^ 63" using p(2) honest_number [OF honest] by (auto simp: reported_head_def)
  then have "\<forall>n \<in> set (new_blocks base cur). chain_time n \<noteq> 0"
    using time by (auto simp: new_blocks_def u64_le)
  ultimately have d: "sys_deliv s' = sys_deliv s @ concat (map (deliveries chain_logs chain_time) (new_blocks base cur))"
    "sys_last chain s' = (if ic_DebugMode (ix_config idx) \<or> new_blocks base cur = [] then lb else last (new_blocks base cur))" using progressed_complete p(3) by (metis (lifting))+
  have "new_blocks base cur \<noteq> [] \<and> last (new_blocks base cur) = cur" if "base < cur"
  proof -
    have "unat (base + 1) = Suc (unat base)" by (rule unat_u64_Suc [OF that])
    then have "base + 1 \<le> cur" using that by (simp add: u64_le u64_less)
    with that show ?thesis by (auto simp: new_blocks_def blocks_def u64_le last_map simp del: upt_Suc)
  qed
  then have "if ic_DebugMode (ix_config idx) then sys_last chain s' = sys_last chain s else if base < cur then sys_last chain s' = cur
      else sys_last chain s' = base \<or> base = first_base (ix_config idx) (sys_last chain s) \<and> sys_last chain s' = sys_last chain s"
    using d(2) p(4) by (auto simp: new_blocks_def split: if_splits)
  with run r g p(1,2) d(1) show ?thesis by blast
qed

lemma paths_complete:
  assumes good: "sys_good A T s" and cfg: "ic_Chain (ix_config idx) = chain" and cur: "unat cur < 2 ^ 63"
  shows "\<exists>i s1. syncBlocksBatched (disturbed I (sys_ports E d onExhausted)) a cur idx s = Some (None, i, s1) \<and> sys_skipped s1 = {}"
    and "\<exists>i s1. syncBlocksSequential (disturbed I (sys_ports E d onExhausted)) a cur idx s = Some (None, i, s1) \<and> sys_skipped s1 = {}"
proof -
  have ok: "sys_ok A T s" using good by (simp add: sys_good_def)
  from disturbed.syncBlocksBatched_spec [OF ok cfg refl cur, of a] disturbed.batched_live [OF good cur]
  show "\<exists>i s1. syncBlocksBatched (disturbed I (sys_ports E d onExhausted)) a cur idx s = Some (None, i, s1) \<and> sys_skipped s1 = {}"
    by (fastforce simp: sys_good_def)
  from disturbed.syncBlocksSequential_spec [OF ok cfg refl cur, of a] disturbed.sequential_live [OF good]
  show "\<exists>i s1. syncBlocksSequential (disturbed I (sys_ports E d onExhausted)) a cur idx s = Some (None, i, s1) \<and> sys_skipped s1 = {}"
    by (fastforce simp: sys_good_def)
qed

end

lemma live_sharedI:
  assumes "honest_clients E A T logs time" and "quiet_listeners d chain" and "reliable E" and "willing_listeners d"
    and "\<And>s. sys_env\<^sup>*\<^sup>* s (I s)" and "\<And>s. sys_good A T s \<Longrightarrow> sys_good A T (I s)"
  shows "live_shared E d chain A T logs time I"
  using assms
  by (auto intro!: live_shared.intro live_deployment.intro shared_deployment.intro deployment.intro live_deployment_axioms.intro
      shared_deployment_axioms.intro live_shared_axioms.intro)

section \<open>The local network\<close>

lemma devnet_reliable: "reliable devnet_ext"
  by (simp add: reliable_def devnet_eth_def devnet_rate_def devnet_gb_def devnet_rt_def)

lemma devnet_willing: "willing_listeners devnet_dispatcher"
  by (auto simp: willing_listeners_def devnet_dispatcher_def NewEventDispatcher_def Dispatch_def devnet_listener_def
      SaveIndexedEvent_def Let_def split: prod.splits option.splits if_splits)

lemma devnet_good: "sys_good [] [] devnet_sys"
  using devnet_sys_ok
  by (auto simp: sys_good_def devnet_sys_def pool_ready_def devnet_pool_explicit p_ready_def devnet_node_def newQuotaManager_def
      split: if_splits)

lemma devnet_time_nonzero: "\<forall>n. unat n < 2 ^ 63 \<longrightarrow> devnet_time n \<noteq> 0"
proof (intro allI impI)
  fix n :: u64
  assume n: "unat n < 2 ^ 63"
  have "unat (n + 100) = unat n + unat (100 :: u64)" using n by (intro unat_u64_add) simp
  then show "devnet_time n \<noteq> 0" by (auto simp: devnet_time_def simp flip: unat_eq_0)
qed

interpretation devnet_live: live_deployment devnet_ext devnet_dispatcher "\<lambda>e w. w" "''devnet''" "[]" "[]" devnet_logs devnet_time
  by unfold_locales (rule devnet_reliable, rule devnet_willing)

lemma rerank_good: "sys_good A T s \<Longrightarrow> sys_good A T (devnet_rerank s)"
proof -
  assume g: "sys_good A T s"
  have "sys_ok A T (devnet_rerank s)"
    using g sys_env_reachable_same [OF devnet_rerank_env, of A T s] by (simp add: sys_good_def frame_def)
  with g show ?thesis by (simp add: sys_good_def devnet_rerank_def pool_ready_recalculate)
qed

interpretation devnet_live_shared: live_shared devnet_ext devnet_dispatcher "\<lambda>e w. w" "''devnet''" "[]" "[]" devnet_logs devnet_time devnet_rerank
  by unfold_locales (rule rerank_good)

text \<open>With nobody else about.\<close>

interpretation devnet_alone: live_shared devnet_ext devnet_dispatcher "\<lambda>e w. w" "''devnet''" "[]" "[]" devnet_logs devnet_time "\<lambda>s. s"
  by unfold_locales auto

section \<open>Properties\<close>

text \<open>
  C5: In good weather a sync always succeeds and reaches the head: if the clients answer, the limiters
  and breakers let the calls through, the context is not cancelled, the listeners accept and the
  providers are connected, healthy and not metered, then one sync returns without an error, delivers
  exactly the logs of all new blocks up to the reported head, in order and with the time of their
  block, records the head as progress (in \<open>DebugMode\<close>, nothing) and leaves the deployment as healthy as it was. The pool may be re-ranked
  and used by others at any point, as long as its providers stay ready.
\<close>

theorem sync_reaches_head:
  assumes "honest_clients E A T logs time" and "quiet_listeners d chain" and "reliable E" and "willing_listeners d"
    and "sys_good A T s" and "ic_Chain (ix_config idx) = chain"
    and "\<forall>n. unat n < 2 ^ 63 \<longrightarrow> time n \<noteq> 0" and "\<And>s. sys_env\<^sup>*\<^sup>* s (I s)" and "\<And>s. sys_good A T s \<Longrightarrow> sys_good A T (I s)"
  shows "\<exists>idx' s' base cur. syncBlocks (disturbed I (sys_ports E d onExhausted)) idx s = Some (None, idx', s') \<and> sys_good A T s' \<and>
     reported_head E cur \<and> sync_base (reported_header E) idx (first_base (ix_config idx) (sys_last chain s)) cur base \<and>
     sys_deliv s' = sys_deliv s @ concat (map (deliveries logs time) (new_blocks base cur)) \<and>
     (if ic_DebugMode (ix_config idx) then sys_last chain s' = sys_last chain s
      else if base < cur then sys_last chain s' = cur
      else sys_last chain s' = base \<or> base = first_base (ix_config idx) (sys_last chain s) \<and> sys_last chain s' = sys_last chain s)"
  by (rule live_shared.sync_completes [OF live_sharedI]) (use assms in auto)

theorem sync_reaches_head_witness:
  "\<exists>idx' s'. syncBlocks (disturbed devnet_rerank devnet_ports) devnet_indexer devnet_sys = Some (None, idx', s') \<and> sys_last ''devnet'' s' = 5 \<and>
     sys_deliv s' = [(\<lparr>log_BlockNumber = 2, log_Data = ''a''\<rparr>, 102), (\<lparr>log_BlockNumber = 2, log_Data = ''b''\<rparr>, 102),
                     (\<lparr>log_BlockNumber = 4, log_Data = ''a''\<rparr>, 104), (\<lparr>log_BlockNumber = 4, log_Data = ''b''\<rparr>, 104)]"
proof -
  have c: "ic_Chain (ix_config devnet_indexer) = ''devnet''" "\<not> ic_DebugMode (ix_config devnet_indexer)"
    "first_base (ix_config devnet_indexer) (sys_last ''devnet'' devnet_sys) = 0" "sys_deliv devnet_sys = []"
    "ix_recentHashes devnet_indexer = Map.empty"
    by (simp_all add: devnet_indexer_explicit devnet_config_def first_base_def sys_last_def devnet_sys_def NewMemory_def NewMemoryChainStorage_def)
  obtain idx' s' base cur where r: "syncBlocks (disturbed devnet_rerank devnet_ports) devnet_indexer devnet_sys = Some (None, idx', s')" "reported_head devnet_ext cur"
    "sync_base (reported_header devnet_ext) devnet_indexer 0 cur base"
    "sys_deliv s' = concat (map (deliveries devnet_logs devnet_time) (new_blocks base cur))" "base < cur \<longrightarrow> sys_last ''devnet'' s' = cur"
    using sync_reaches_head [OF devnet_honest devnet_quiet devnet_reliable devnet_willing devnet_good c(1) devnet_time_nonzero
      devnet_rerank_env rerank_good, of "\<lambda>e w. w"]
    unfolding c(3,4) devnet_ports_def using c(2) by (auto split: if_splits)
  have "cur = 5" using r(2) by (auto simp: reported_head_def devnet_eth_def)
  moreover have "base = 0" using r(3) c(5) \<open>cur = 5\<close> by (auto simp: sync_base_def reorg_base_def)
  moreover have "blocks 1 5 = [1, 2, 3, 4, 5]" by (simp add: blocks_def upt_rec)
  ultimately show ?thesis using r(1,4,5) by (simp add: new_blocks_def deliveries_def devnet_logs_def devnet_time_def)
qed

end
