(* ===== verification/Indexer_Properties.thy ===== *)
theory Indexer_Properties
  imports Deployment_Live
begin

text \<open>
  Properties of the indexer: its lifecycle under all interleavings,
  the window of block hashes and the reorg rewind, and the agreement of the two sync paths.
\<close>

section \<open>A new indexer\<close>

lemma NewIndexer_fresh:
  assumes "NewIndexer cfg pool storage dispatcher opts after s = (Inr (P, idx), s')"
  shows "life_inv idx" "hash_inv idx" "\<not> ix_isRunning idx" "\<not> ix_stopped idx" "ix_stopPhase idx = NotStopped"
    "ix_running_loops idx = 0" "quiet idx"
  using assms
  by (auto simp: NewIndexer_def Let_def life_inv_def hash_inv_def quiet_def split: option.splits if_splits prod.splits
      dest!: apply_opts_effect)

lemma devnet_NewIndexer:
  "\<exists>s'. NewIndexer devnet_config (Some (pt_pool devnet_ports)) (Some (pt_storage devnet_ports))
     (Some (pt_dispatcher devnet_ports)) devnet_opts (rs_After (pt_runtime devnet_ports)) devnet_sys = (Inr (devnet_ports, devnet_indexer), s')"
  by (simp add: NewIndexer_def devnet_config_def devnet_opts_def WithLogger_def WithOnExhausted_def Let_def devnet_indexer_def
      devnet_ports_def sys_ports_def)

section \<open>Lifecycle\<close>

text \<open>
  C13: Whatever interleaving of \<open>Start\<close>, \<open>Stop\<close>, \<open>Nudge\<close>, loop iterations and surroundings a new indexer
  goes through: at most one sync loop runs, it is never both running and stopped, a loop runs whenever it
  is running and not yet cancelled, the context is cancelled exactly once \<open>Stop\<close> has begun, and at most
  one nudge is pending.
\<close>

theorem lifecycle_invariant:
  assumes "NewIndexer cfg pool storage dispatcher opts after s0 = (Inr (P, idx), s)"
    and "life_reachable P env (idx, s1) (idx', s')"
  shows "life_inv idx'"
  using life_reachable_inv [OF assms(2)] NewIndexer_fresh(1) [OF assms(1)] by simp

theorem lifecycle_invariant_witness:
  "life_reachable devnet_ports (=) (devnet_indexer, devnet_sys) (Stop devnet_ports devnet_indexer devnet_sys) \<and>
   life_inv (fst (Stop devnet_ports devnet_indexer devnet_sys))"
proof -
  obtain s where n: "NewIndexer devnet_config (Some (pt_pool devnet_ports)) (Some (pt_storage devnet_ports))
     (Some (pt_dispatcher devnet_ports)) devnet_opts (rs_After (pt_runtime devnet_ports)) devnet_sys = (Inr (devnet_ports, devnet_indexer), s)"
    using devnet_NewIndexer by blast
  have r: "life_reachable devnet_ports (=) (devnet_indexer, devnet_sys) (Stop devnet_ports devnet_indexer devnet_sys)"
    by (rule Stop_reachable [OF NewIndexer_fresh(1) [OF n]])
  from lifecycle_invariant [OF n, of "(=)" devnet_sys] r show ?thesis by (metis prod.collapse)
qed

text \<open>
  C14: \<open>Start\<close> succeeds at most once: after a successful \<open>Start\<close>, every later one fails and changes
  nothing, with \<open>ErrIndexerStopped\<close> exactly when the indexer has been stopped and
  \<open>ErrAlreadyRunning\<close> otherwise.
\<close>

theorem start_at_most_once:
  assumes "Start idx = (None, idx1)" and "life_reachable P env (idx1, s) (idx2, s')"
  shows "fst (Start idx2) \<in> {Some (Sentinel ErrAlreadyRunning), Some (Sentinel ErrIndexerStopped)} \<and> snd (Start idx2) = idx2 \<and>
    (ix_stopped idx2 \<longleftrightarrow> fst (Start idx2) = Some (Sentinel ErrIndexerStopped))"
proof -
  have "ix_isRunning idx1" using assms(1) by (auto simp: Start_def split: if_splits)
  with life_reachable_started [OF assms(2)] show ?thesis by (auto simp: Start_def)
qed

theorem start_at_most_once_witness:
  "fst (Start devnet_indexer) = None \<and>
   fst (Start (fst (Stop devnet_ports (snd (Start devnet_indexer)) devnet_sys))) = Some (Sentinel ErrIndexerStopped)"
proof -
  let ?i = "snd (Start devnet_indexer)" and ?j = "Stop devnet_ports (snd (Start devnet_indexer)) devnet_sys"
  have s: "Start devnet_indexer = (None, ?i)" by (simp add: Start_def devnet_indexer_explicit)
  have "life_inv ?i" by (simp add: life_inv_def Start_def devnet_indexer_explicit)
  then have "life_reachable devnet_ports (=) (?i, devnet_sys) (fst ?j, snd ?j)" using Stop_reachable by simp
  from start_at_most_once [OF s this] have "ix_stopped (fst ?j) \<longleftrightarrow> fst (Start (fst ?j)) = Some (Sentinel ErrIndexerStopped)" by simp
  moreover have "ix_stopped (fst ?j)" by (simp add: Stop_def Start_def devnet_indexer_explicit)
  ultimately show ?thesis using s by (metis fst_conv)
qed

text \<open>
  C15: \<open>Stop\<close> can always run through: from every state before it, its steps and the exit of the
  running loop lead to the state of the completed call, in which the indexer is stopped, its context
  cancelled and no loop running; a second \<open>Stop\<close> changes nothing.
\<close>

theorem stop_completes:
  assumes "life_inv idx" and "ix_stopPhase idx = NotStopped"
  shows "\<exists>idx' s'. Stop P idx s = (idx', s') \<and> life_reachable P env (idx, s) (idx', s') \<and> ix_stopped idx' \<and> \<not> ix_isRunning idx' \<and>
     ix_cancelled idx' \<and> ix_running_loops idx' = 0 \<and> Stop P idx' s' = (idx', s') \<and> stop_step P idx' s' = None"
  using Stop_reachable [OF assms(1)] assms(2) by (cases "Stop P idx s") (auto simp: Stop_def stop_step_def)

theorem stop_completes_witness:
  "\<exists>idx' s'. Stop devnet_ports (snd (Start devnet_indexer)) devnet_sys = (idx', s') \<and>
     life_reachable devnet_ports sys_env (snd (Start devnet_indexer), devnet_sys) (idx', s') \<and> ix_stopped idx' \<and> ix_running_loops idx' = 0"
proof -
  let ?i = "snd (Start devnet_indexer)"
  have "life_inv ?i" "ix_stopPhase ?i = NotStopped" by (simp_all add: life_inv_def Start_def devnet_indexer_explicit)
  from stop_completes [OF this, of devnet_ports devnet_sys sys_env] show ?thesis by blast
qed

text \<open>
  If no \<open>Start\<close> launches a loop after \<open>Stop\<close> has begun, no loop runs any more once \<open>wg.Wait\<close> has
  returned, in particular when the pool and the dispatcher are closed.
\<close>

lemma orderly_stop_quiet:
  assumes "NewIndexer cfg pool storage dispatcher opts after s0 = (Inr (P, idx), s)"
    and "(orderly_step P env)\<^sup>*\<^sup>* (idx, s1) (idx', s')" and "ix_stopPhase idx' \<in> {Waited, Flagged, Stopped}"
  shows "ix_running_loops idx' = 0"
  using orderly_reachable_quiet [OF assms(2)] NewIndexer_fresh(7) [OF assms(1)] assms(3) by (auto simp: quiet_def)

text \<open>
  C37: Without that proviso it fails: a \<open>Start\<close> between \<open>wg.Wait\<close> and the update of the flags succeeds, and
  \<open>Stop\<close> returns with a sync loop still running over a closed pool.
\<close>

theorem stop_start_race:
  assumes "NewIndexer cfg pool storage dispatcher opts after s0 = (Inr (P, idx), s)"
  shows "\<exists>idx' s'. life_reachable P env (idx, s) (idx', s') \<and> ix_stopPhase idx' = Stopped \<and> ix_stopped idx' \<and>
     \<not> ix_isRunning idx' \<and> ix_running_loops idx' = 1"
  using late_start [OF NewIndexer_fresh(5,3,4,6) [OF assms], of P env s] by force

theorem stop_start_race_witness:
  "\<exists>s idx' s'. life_reachable devnet_ports sys_env (devnet_indexer, s) (idx', s') \<and> ix_stopped idx' \<and> ix_running_loops idx' = 1"
proof -
  obtain s where "NewIndexer devnet_config (Some (pt_pool devnet_ports)) (Some (pt_storage devnet_ports))
     (Some (pt_dispatcher devnet_ports)) devnet_opts (rs_After (pt_runtime devnet_ports)) devnet_sys = (Inr (devnet_ports, devnet_indexer), s)"
    using devnet_NewIndexer by blast
  from stop_start_race [OF this, of sys_env] show ?thesis by blast
qed

section \<open>Block hashes\<close>

lemma run_sync_hash_inv: "run_sync P idx s = Some (idx', s') \<Longrightarrow> hash_inv idx \<Longrightarrow> hash_inv idx'"
  using hash_window.syncBlocks_rel [of idx idx P s] by (auto simp: run_sync_def)

lemma life_step_hash_inv: "life_step P env x y \<Longrightarrow> hash_inv (fst x) \<Longrightarrow> hash_inv (fst y)"
proof (induction rule: life_step.induct)
  case (start idx r idx' s)
  then show ?case by (auto simp: Start_def hash_inv_def split: if_splits)
next
  case (stop idx s idx' s')
  then show ?case by (auto simp: stop_step_def hash_inv_def split: stop_phase.splits if_splits)
next
  case (nudge idx s)
  then show ?case by (auto simp: idx_Nudge_def hash_inv_def)
next
  case (loop idx ev s idx' s')
  have "hash_inv (idx\<lparr>ix_nudge := c\<rparr>)" for c using loop(3) by (auto simp: hash_inv_def)
  with loop show ?case
    by (cases ev) (auto simp: loop_step_def hash_inv_def [of "idx\<lparr>ix_running_loops := _\<rparr>"] hash_inv_def [of idx]
        split: if_splits option.splits dest: run_sync_hash_inv)
qed simp

lemma life_reachable_hash_inv: "life_reachable P env x y \<Longrightarrow> hash_inv (fst x) \<Longrightarrow> hash_inv (fst y)"
  by (induction rule: rtranclp_induct) (auto intro: life_step_hash_inv)

text \<open>
  C17: The window of remembered block hashes stays consistent and bounded in every reachable state: the
  order list has exactly the keys of the map, without repetition, and at most \<open>ReorgDepth\<close> of them.
\<close>

theorem hash_window_bounded:
  assumes "NewIndexer cfg pool storage dispatcher opts after s0 = (Inr (P, idx), s)"
    and "life_reachable P env (idx, s1) (idx', s')"
  shows "hash_inv idx'"
  using life_reachable_hash_inv [OF assms(2)] NewIndexer_fresh(2) [OF assms(1)] by simp

theorem hash_window_bounded_witness:
  "\<exists>idx' s'. run_sync devnet_ports (snd (Start devnet_indexer)) devnet_sys = Some (idx', s') \<and> hash_inv idx'"
proof -
  let ?i = "snd (Start devnet_indexer)"
  have i: "Start devnet_indexer = (None, ?i)" "0 < ix_running_loops ?i" "ic_Chain (ix_config ?i) = ''devnet''"
    by (simp_all add: Start_def devnet_indexer_explicit devnet_config_def)
  obtain s where n: "NewIndexer devnet_config (Some (pt_pool devnet_ports)) (Some (pt_storage devnet_ports))
     (Some (pt_dispatcher devnet_ports)) devnet_opts (rs_After (pt_runtime devnet_ports)) devnet_sys = (Inr (devnet_ports, devnet_indexer), s)"
    using devnet_NewIndexer by blast
  obtain idx' s' where run: "run_sync devnet_ports ?i devnet_sys = Some (idx', s')"
    using devnet_alone.sync_completes [OF devnet_good i(3) devnet_time_nonzero, unfolded disturbed_id] by (auto simp: run_sync_def devnet_ports_def)
  have "life_step devnet_ports sys_env (devnet_indexer, devnet_sys) (?i, devnet_sys)" by (rule life_step.start [OF i(1)])
  also have "life_reachable devnet_ports sys_env (?i, devnet_sys) (idx', s')"
    using run by (intro r_into_rtranclp life_step.loop [OF i(2), of _ Tick]) (simp add: loop_step_def)
  finally have "life_reachable devnet_ports sys_env (devnet_indexer, devnet_sys) (idx', s')" .
  from hash_window_bounded [OF n this] run show ?thesis by blast
qed

lemma unat_rewind_target:
  assumes "0 \<le> depth" and "depth < 2 ^ 63"
  shows "unat (rewind_target start depth n) = max (unat start) (unat n - nat depth)"
proof -
  have u: "unat (to_u64 depth) = nat depth" using assms by (simp add: unat_to_u64)
  show ?thesis using u by (auto simp: rewind_target_def word_less_nat_alt unat_sub_if_size max_def)
qed

text \<open>
  C16: \<open>detectReorgRewind\<close>, on every branch. With detection off, nothing processed or no hash remembered for the last block it
  changes nothing and asks nobody; if the header cannot be fetched or the position not be persisted it reports that error; if the hash is the
  remembered one it leaves everything as it is. If the hash is another one, it always rewinds: to the block \<open>ReorgDepth\<close> below the
  last one, but not below \<open>StartBlock\<close>, persists that position, and forgets exactly the hashes above it.
\<close>

theorem reorg_rewind:
  assumes inv: "hash_inv idx" and depth: "ix_reorgDepth idx < 2 ^ 63"
  shows "case if 0 < ix_reorgDepth idx \<and> n \<noteq> 0 then ix_recentHashes idx n else None of
      None \<Rightarrow> detectReorgRewind P n idx s = (Inr n, idx, s)
    | Some want \<Rightarrow> (case pp_HeaderByNumber (pt_pool P) (big_SetUint64 n) s of
        (Inl err, s1) \<Rightarrow> detectReorgRewind P n idx s = (Inl (errorf_w ''failed to verify chain tip for reorg check: '' err), idx, s1)
      | (Inr h, s1) \<Rightarrow>
          if hdr_Hash h = want then detectReorgRewind P n idx s = (Inr n, idx, s1)
          else \<exists>t. unat t = max (unat (ic_StartBlock (ix_config idx))) (unat n - nat (ix_reorgDepth idx)) \<and>
            (case storeLastBlock P idx t s1 of
               (Some err, s2) \<Rightarrow> detectReorgRewind P n idx s =
                 (Inl (errorf_w ''failed to persist rewound last block after reorg: '' err), idx, s2)
             | (None, s2) \<Rightarrow> \<exists>idx'. detectReorgRewind P n idx s = (Inr t, idx', s2) \<and> hash_inv idx' \<and>
                 ix_recentHashes idx' = ix_recentHashes idx |` {..t}))"
proof (cases "0 < ix_reorgDepth idx \<and> n \<noteq> 0 \<and> ix_recentHashes idx n \<noteq> None")
  case False
  then show ?thesis by (auto simp: detectReorgRewind_def split: option.split)
next
  case True
  then obtain want where k: "\<not> (ix_reorgDepth idx \<le> 0 \<or> n = 0)" "0 < ix_reorgDepth idx \<and> n \<noteq> 0" "ix_recentHashes idx n = Some want" by auto
  let ?t = "rewind_target (ic_StartBlock (ix_config idx)) (ix_reorgDepth idx) n"
  have "unat ?t = max (unat (ic_StartBlock (ix_config idx))) (unat n - nat (ix_reorgDepth idx))"
    using depth k by (intro unat_rewind_target) simp_all
  moreover have "hash_inv (pruneHashesAbove ?t idx)" "ix_recentHashes (pruneHashesAbove ?t idx) = ix_recentHashes idx |` {..?t}"
    by (rule pruneHashesAbove_inv [OF inv]) (simp add: pruneHashesAbove_eq [OF inv])
  ultimately show ?thesis unfolding detectReorgRewind_def if_not_P [OF k(1)] if_P [OF k(2)] k(3) Let_def
    by (auto split: prod.split sum.split option.split intro!: exI [of _ ?t])
qed

theorem reorg_rewind_witness:
  "\<exists>idx' s'. detectReorgRewind devnet_ports 5 (devnet_indexer\<lparr>ix_reorgDepth := 2, ix_recentHashes := [4 \<mapsto> 4, 5 \<mapsto> 99], ix_hashOrder := [4, 5]\<rparr>) devnet_sys =
     (Inr 3, idx', s') \<and> ix_recentHashes idx' = Map.empty \<and> sys_last ''devnet'' s' = 3"
proof -
  let ?i = "devnet_indexer\<lparr>ix_reorgDepth := 2, ix_recentHashes := [4 \<mapsto> 4, 5 \<mapsto> 99], ix_hashOrder := [4, 5]\<rparr>"
  have i: "hash_inv ?i" "ix_reorgDepth ?i = 2" "ix_recentHashes ?i 5 = Some 99" "ic_StartBlock (ix_config ?i) = 1"
    by (auto simp: hash_inv_def devnet_indexer_explicit devnet_config_def)
  obtain h s1 where h: "pp_HeaderByNumber (pt_pool devnet_ports) (big_SetUint64 5) devnet_sys = (Inr h, s1)"
    using devnet_live.sys_reads_live(1) [OF devnet_good, of "big_SetUint64 5"] by (auto simp: devnet_ports_def)
  have hh: "hdr_Hash h = 5" using sys_rpc_value(1) [OF devnet_sys_ok, of devnet_ext 5 h s1] h
    by (auto simp: devnet_ports_def devnet_eth_def big_SetUint64_def)
  obtain s2 where s2: "storeLastBlock devnet_ports ?i 3 s1 = (None, s2)" "sys_last ''devnet'' s2 = 3"
    by (simp add: storeLastBlock_def devnet_ports_def devnet_indexer_explicit devnet_config_def SetLastBlock_def upd_chain_def sys_last_def)
  have three: "t = 3" if "unat t = 3" for t :: u64 using that by (simp add: word_unat_eq_iff)
  have neq: "hdr_Hash h \<noteq> 99" unfolding hh by simp
  have "\<exists>t. unat t = 3 \<and> (case storeLastBlock devnet_ports ?i t s1 of
       (Some err, s2) \<Rightarrow> detectReorgRewind devnet_ports 5 ?i devnet_sys =
         (Inl (errorf_w ''failed to persist rewound last block after reorg: '' err), ?i, s2)
     | (None, s2) \<Rightarrow> \<exists>idx'. detectReorgRewind devnet_ports 5 ?i devnet_sys = (Inr t, idx', s2) \<and> hash_inv idx' \<and>
         ix_recentHashes idx' = ix_recentHashes ?i |` {..t})"
    using reorg_rewind [OF i(1), where n = 5 and P = devnet_ports and s = devnet_sys] neq unfolding i(2,3,4) h by (simp add: i(3))
  then obtain t where t: "unat t = 3" and c: "case storeLastBlock devnet_ports ?i t s1 of
       (Some err, s2) \<Rightarrow> detectReorgRewind devnet_ports 5 ?i devnet_sys =
         (Inl (errorf_w ''failed to persist rewound last block after reorg: '' err), ?i, s2)
     | (None, s2) \<Rightarrow> \<exists>idx'. detectReorgRewind devnet_ports 5 ?i devnet_sys = (Inr t, idx', s2) \<and> hash_inv idx' \<and>
         ix_recentHashes idx' = ix_recentHashes ?i |` {..t}" by (elim exE conjE)
  from c [unfolded three [OF t] s2(1) prod.case option.case]
  obtain idx' where "detectReorgRewind devnet_ports 5 ?i devnet_sys = (Inr 3, idx', s2)" "ix_recentHashes idx' = ix_recentHashes ?i |` {..3}" by (elim exE conjE)
  moreover have "[4 \<mapsto> 4, 5 \<mapsto> 99] |` {..3 :: u64} = (Map.empty :: u64 \<rightharpoonup> hash)" by (auto simp: restrict_map_def fun_eq_iff)
  moreover have "ix_recentHashes ?i = [4 \<mapsto> 4, 5 \<mapsto> 99]" by simp
  ultimately show ?thesis using s2(2) by (intro exI [of _ idx'] exI [of _ s2]) metis
qed

text \<open>
  \<open>recordBlockHash\<close> remembers the new hash, drops entries only when the window is full, and
  alters no other entry.
\<close>

lemma hash_recorded:
  assumes "hash_inv idx" and "0 < ix_reorgDepth idx"
  shows "ix_recentHashes (recordBlockHash n h idx) n = Some h \<and> hash_inv (recordBlockHash n h idx) \<and>
     (\<forall>m. m \<noteq> n \<longrightarrow> ix_recentHashes (recordBlockHash n h idx) m \<in> {None, ix_recentHashes idx m}) \<and>
     (int (length (ix_hashOrder idx)) < ix_reorgDepth idx \<longrightarrow> ix_recentHashes (recordBlockHash n h idx) = (ix_recentHashes idx)(n \<mapsto> h))"
proof -
  define order where "order = (if ix_recentHashes idx n = None then ix_hashOrder idx @ [n] else ix_hashOrder idx)"
  define kept where "kept = drop (length order - nat (ix_reorgDepth idx)) order"
  note w = record_window [OF assms, where n = n, folded order_def, folded kept_def]
  have "set kept = insert n (dom (ix_recentHashes idx))" if "int (length (ix_hashOrder idx)) < ix_reorgDepth idx"
  proof -
    have "length order \<le> nat (ix_reorgDepth idx)" using that by (auto simp: order_def)
    then have "kept = order" by (simp add: kept_def)
    with w(5) show ?thesis by simp
  qed
  then have "(ix_recentHashes idx)(n \<mapsto> h) |` set kept = (ix_recentHashes idx)(n \<mapsto> h)" if "int (length (ix_hashOrder idx)) < ix_reorgDepth idx"
    using that by (auto simp: restrict_map_def fun_eq_iff domIff)
  with w(2) [of h] w(3) recordBlockHash_inv [OF assms(1)] show ?thesis by (auto simp: restrict_map_def)
qed

context shared_deployment
begin

lemma paths_progress:
  assumes "sys_ok A T s" and "ic_Chain (ix_config idx) = chain" and "unat cur < 2 ^ 63"
  shows "syncBlocksBatched (disturbed I (sys_ports E d onExhausted)) a cur idx s = Some (r, idx', s') \<Longrightarrow>
      progressed chain_logs chain_time (sys_skipped s') (ic_DebugMode (ix_config idx)) (blocks a cur) r (sys_last chain s) (sys_last chain s') (sys_deliv s) (sys_deliv s')"
    and "syncBlocksSequential (disturbed I (sys_ports E d onExhausted)) a cur idx s = Some (r, idx', s') \<Longrightarrow>
      progressed chain_logs chain_time (sys_skipped s') (ic_DebugMode (ix_config idx)) (blocks a cur) r (sys_last chain s) (sys_last chain s') (sys_deliv s) (sys_deliv s')"
  using disturbed.syncBlocksBatched_spec [OF assms(1,2) refl assms(3), of a]
    disturbed.syncBlocksSequential_spec [OF assms(1,2) refl assms(3), of a]
  by (auto simp: disturbed.sync_post_def)

end

section \<open>The two sync paths\<close>

text \<open>
  C11: The batched and the sequential path agree: on a range both complete without undecodable
  blocks, whatever others do to the pool meanwhile, they deliver the same logs with the same times in the same order, those of the blocks of the
  range, and persist the same block.
\<close>

theorem batched_equals_sequential:
  assumes "honest_clients E A T logs time" and "quiet_listeners d chain" and "sys_ok A T s"
    and "ic_Chain (ix_config idx) = chain" and "unat cur < 2 ^ 63"
    and time: "\<forall>n. unat n < 2 ^ 63 \<longrightarrow> time n \<noteq> 0" and env: "\<And>s. sys_env\<^sup>*\<^sup>* s (I s)"
    and "syncBlocksBatched (disturbed I (sys_ports E d onExhausted)) a cur idx s = Some (None, i1, s1)" and "sys_skipped s1 = {}"
    and "syncBlocksSequential (disturbed I (sys_ports E d onExhausted)) a cur idx s = Some (None, i2, s2)" and "sys_skipped s2 = {}"
  shows "sys_deliv s1 = sys_deliv s @ concat (map (deliveries logs time) (blocks a cur)) \<and> sys_deliv s2 = sys_deliv s1 \<and>
     sys_last chain s2 = sys_last chain s1"
proof -
  have "shared_deployment E d chain A T logs time I"
    using assms(1,2) env by (auto intro!: shared_deployment.intro deployment.intro shared_deployment_axioms.intro)
  note p = shared_deployment.paths_progress [OF this assms(3-5)]
  have "\<forall>n \<in> set (blocks a cur). time n \<noteq> 0" using time assms(5) by (auto simp: u64_le)
  then show ?thesis
    using progressed_complete [OF p(1) [OF assms(8), unfolded assms(9)]]
      progressed_complete [OF p(2) [OF assms(10), unfolded assms(11)]] by simp
qed

theorem batched_equals_sequential_witness:
  "\<exists>i1 s1 i2 s2. syncBlocksBatched (disturbed devnet_rerank devnet_ports) 1 5 devnet_indexer devnet_sys = Some (None, i1, s1) \<and>
     syncBlocksSequential (disturbed devnet_rerank devnet_ports) 1 5 devnet_indexer devnet_sys = Some (None, i2, s2) \<and> sys_deliv s2 = sys_deliv s1"
proof -
  have c: "ic_Chain (ix_config devnet_indexer) = ''devnet''" "unat (5 :: u64) < 2 ^ 63"
    by (simp_all add: devnet_indexer_explicit devnet_config_def)
  obtain i1 s1 where b: "syncBlocksBatched (disturbed devnet_rerank devnet_ports) 1 5 devnet_indexer devnet_sys = Some (None, i1, s1)" "sys_skipped s1 = {}"
    using devnet_live_shared.paths_complete(1) [OF devnet_good c] unfolding devnet_ports_def by blast
  obtain i2 s2 where q: "syncBlocksSequential (disturbed devnet_rerank devnet_ports) 1 5 devnet_indexer devnet_sys = Some (None, i2, s2)" "sys_skipped s2 = {}"
    using devnet_live_shared.paths_complete(2) [OF devnet_good c] unfolding devnet_ports_def by blast
  from batched_equals_sequential [OF devnet_honest devnet_quiet devnet_sys_ok c devnet_time_nonzero devnet_rerank_env
      b [unfolded devnet_ports_def] q [unfolded devnet_ports_def]] b q show ?thesis by blast
qed

end
