(* ===== verification/Parallel_Properties.thy ===== *)
theory Parallel_Properties
  imports Devnet
begin

text \<open>
  The properties of the parallel backfill, with the runs of the local network that witness them.
\<close>

section \<open>A round on the local network\<close>

lemma devnet_round:
  "round_begins devnet_pool [''alpha'', ''beta''] 2 1 3
     [\<lparr>job_index = 0, job_from = 1, job_to = 2, job_attempts = 0\<rparr>, \<lparr>job_index = 1, job_from = 3, job_to = 3, job_attempts = 0\<rparr>]"
proof -
  have "split_jobs 2 1 3 = Some [\<lparr>job_index = 0, job_from = 1, job_to = 2, job_attempts = 0\<rparr>, \<lparr>job_index = 1, job_from = 3, job_to = 3, job_attempts = 0\<rparr>]"
    by (simp add: split_jobs_def go_for.simps split_body_def Let_def)
  moreover have "limits_ok devnet_pool" using devnet_sys_ok by (simp add: sys_ok_def devnet_sys_def)
  ultimately show ?thesis using devnet_pool_inv by (simp add: round_begins_def devnet_pool_explicit)
qed

section \<open>Properties\<close>

text \<open>
  C7: A parallel backfill always returns, keeps the pool well-formed with the same providers, and if it
  returns logs, they are exactly the answers of the pool's clients to a partition of the requested
  range into consecutive sub-ranges, concatenated in block order: no block is fetched twice, missed
  or reordered, however the goroutines are scheduled and fail.
\<close>

theorem parallel_backfill_correct:
  assumes "pool_inv pool" and "limits_ok pool" and "unat toBlock < 2 ^ 63" and "unat toBlock - unat fromBlock < 2 ^ 31 - 1"
  shows "\<exists>r pool' w'. LogsByBlockRangeParallel E fromBlock toBlock pool w = Some (r, pool', w') \<and>
           pool_inv pool' \<and> pool_like pool pool' \<and>
           (\<forall>out. r = Inr out \<longrightarrow>
              (\<exists>ranges chunks. split_answers E pool fromBlock toBlock ranges chunks \<and> out = concat chunks))"
  by (rule LogsByBlockRangeParallel_ok [OF assms])

theorem parallel_backfill_correct_witness:
  "\<exists>r pool' w'. LogsByBlockRangeParallel devnet_ext 1 5 devnet_pool 3 = Some (r, pool', w') \<and> pool_inv pool'"
proof -
  have "limits_ok devnet_pool" using devnet_sys_ok by (simp add: sys_ok_def devnet_sys_def)
  from parallel_backfill_correct [OF devnet_pool_inv this, of 5 1 devnet_ext 3] show ?thesis by fastforce
qed

text \<open>
  C8: Under any interleaving of the workers with the environment, once all workers have exited, the
  result is either the complete, ordered logs of the range or an error some worker reported or the
  error of the caller's context. The final error branch, "aborted before completion", is dead code.
\<close>

theorem parallel_round_any_schedule:
  assumes "round_begins pool avail chunkSize fromBlock toBlock jobs"
    and "round_runs E (parallelJobAttemptLimit pool (int (length avail))) (length jobs) k (init_round jobs avail pool w) s"
    and "all_exited s"
  shows "case round_result fromBlock toBlock s of
           Inr out \<Rightarrow> \<exists>ranges chunks. split_answers E pool fromBlock toBlock ranges chunks \<and> out = concat chunks
         | Inl err \<Rightarrow> rd_firstErr s = Some err \<or> rd_ctx s = Some err"
  using round_inv_result [OF assms(1) round_runs_begins [OF assms(1,2)] assms(3)]
    round_result_ok(2) [OF round_runs_begins [OF assms(1,2)] assms(3)]
  by (auto split: sum.split)

theorem parallel_round_any_schedule_witness:
  "\<exists>jobs (s :: nat round). split_jobs 2 1 3 = Some jobs \<and> all_exited s \<and>
     (case round_result 1 3 s of
        Inr out \<Rightarrow> \<exists>ranges chunks. split_answers devnet_ext devnet_pool 1 3 ranges chunks \<and> out = concat chunks
      | Inl err \<Rightarrow> rd_firstErr s = Some err \<or> rd_ctx s = Some err)"
proof -
  obtain jobs where b: "round_begins devnet_pool [''alpha'', ''beta''] 2 1 3 jobs" using devnet_round by blast
  from round_completes [OF b, of devnet_ext 10] obtain s k where r: "all_exited s"
    "round_runs devnet_ext (parallelJobAttemptLimit devnet_pool (int (length [''alpha'', ''beta'']))) (length jobs) k
       (init_round jobs [''alpha'', ''beta''] devnet_pool 10) s" by blast
  from parallel_round_any_schedule [OF b r(2,1)] r b show ?thesis unfolding round_begins_def by blast
qed

text \<open>
  C9: A round never deadlocks: in every reachable state in which some worker has not exited, some worker
  can take a step, whichever ready case its \<open>select\<close> prefers.
\<close>

theorem parallel_round_no_deadlock:
  assumes "round_begins pool avail chunkSize fromBlock toBlock jobs"
    and "round_runs E (parallelJobAttemptLimit pool (int (length avail))) (length jobs) k (init_round jobs avail pool w) s"
    and "\<not> all_exited s"
  shows "\<exists>i. \<forall>prefer_done. \<exists>s'. worker_step E (parallelJobAttemptLimit pool (int (length avail))) (length jobs) i prefer_done s = Some s'"
  using some_runnable [OF round_runs_begins [OF assms(1,2)] assms(3)] runnable_step by blast

theorem parallel_round_no_deadlock_witness:
  "\<exists>jobs. split_jobs 2 1 3 = Some jobs \<and> (\<exists>i. \<forall>prefer_done. \<exists>s'.
     worker_step devnet_ext (parallelJobAttemptLimit devnet_pool 2) (length jobs) i prefer_done
       (init_round jobs [''alpha'', ''beta''] devnet_pool 10) = Some s')"
proof -
  have "\<not> all_exited (init_round jobs [''alpha'', ''beta''] devnet_pool 10)" for jobs
    by (simp add: all_exited_def init_round_def)
  from parallel_round_no_deadlock [OF devnet_round round_runs.stop this] devnet_round show ?thesis
    unfolding round_begins_def by auto
qed

text \<open>
  C10: A round terminates: every run takes at most six steps per job and allowed attempt, and one per
  provider, whatever fails and however the steps interleave.
\<close>

theorem parallel_round_bounded:
  assumes "round_begins pool avail chunkSize fromBlock toBlock jobs"
    and "round_runs E (parallelJobAttemptLimit pool (int (length avail))) (length jobs) k (init_round jobs avail pool w) s"
  shows "k \<le> length jobs * (6 * nat (parallelJobAttemptLimit pool (int (length avail)))) + length avail"
  using round_runs_weight [OF assms(2) round_begins_inv [OF assms(1)]] round_begins_limit [OF assms(1)]
    init_weight [OF round_begins_jobs(1) [OF assms(1)], of "parallelJobAttemptLimit pool (int (length avail))" avail pool w]
  by auto

theorem parallel_round_bounded_witness:
  "\<exists>jobs s k. split_jobs 2 1 3 = Some jobs \<and> all_exited s \<and>
     round_runs devnet_ext (parallelJobAttemptLimit devnet_pool 2) (length jobs) k
       (init_round jobs [''alpha'', ''beta''] devnet_pool 10) s \<and>
     k \<le> length jobs * (6 * nat (parallelJobAttemptLimit devnet_pool 2)) + 2"
proof -
  obtain jobs where b: "round_begins devnet_pool [''alpha'', ''beta''] 2 1 3 jobs" using devnet_round by blast
  from round_completes [OF b, of devnet_ext 10] obtain s k where r: "all_exited s"
    "round_runs devnet_ext (parallelJobAttemptLimit devnet_pool (int (length [''alpha'', ''beta'']))) (length jobs) k
       (init_round jobs [''alpha'', ''beta''] devnet_pool 10) s" by blast
  from parallel_round_bounded [OF b r(2)] r b show ?thesis unfolding round_begins_def by auto
qed

text \<open>
  When every available provider accepts at least two blocks per query, the two sizing loops agree:
  a round is cut into chunks of the smallest limit of the available providers, the one
  \<open>ParallelLogPlan\<close> announced.
\<close>

lemma parallel_chunk_smallest:
  assumes "ls \<noteq> []" and "\<forall>l \<in> set ls. 2 \<le> l \<and> l < 2 ^ 63"
  shows "parallel_chunk ls 1 = to_u64 (smallest_limit ls 0) \<and> smallest_limit ls 0 = Min (set ls)"
proof -
  have "smallest_limit ls 0 = Min (set ls)" using smallest_limit_Min [of ls 0] assms by fastforce
  then show ?thesis using parallel_chunk_Min [OF assms(2), of 1] assms(1) by (simp add: to_u64_def)
qed

text \<open>
  C36: A provider limited to one block is overruled. When the best available provider is limited to one block per query and all others to more,
  \<open>ParallelLogPlan\<close> announces chunks of one block, but the sizing loop of \<open>LogsByBlockRangeParallel\<close> takes that limit for its
  initial value and moves on to the others': every range of up to the smallest limit of the others is then not split at all but
  fetched in one query from a single provider of the pool.
\<close>

theorem parallel_chunk_oversized:
  assumes snap: "availableProvidersSnapshot E pool w = (n # ns, pool1, w1)" and ns: "ns \<noteq> []"
    and one: "limit_of pool1 n = 1" and others: "\<forall>m \<in> set ns. 2 \<le> limit_of pool1 m \<and> limit_of pool1 m < 2 ^ 63"
    and range: "fromBlock \<le> toBlock" "unat toBlock < unat fromBlock + nat (Min (limit_of pool1 ` set ns))"
  shows "ParallelLogPlan E pool w = ((int (length (n # ns)), 1), pool1, w1) \<and>
    LogsByBlockRangeParallel E fromBlock toBlock pool w = Some (pool_LogsByBlockRange E fromBlock toBlock pool1 w1)"
proof
  let ?ls = "map (limit_of pool1) ns"
  have ls: "\<forall>l \<in> set ?ls. 2 \<le> l \<and> l < 2 ^ 63" "?ls \<noteq> []" using others ns by auto
  have "smallest_limit ?ls 1 = min 1 (Min (set ?ls))" using smallest_limit_Min [of ?ls 1] ls by fastforce
  moreover have "2 \<le> Min (set ?ls)" using ls by (intro Min.boundedI) auto
  ultimately show "ParallelLogPlan E pool w = ((int (length (n # ns)), 1), pool1, w1)"
    using one by (simp add: ParallelLogPlan_def snap)
  let ?c = "Min (limit_of pool1 ` set ns)"
  have "?c \<in> limit_of pool1 ` set ns" using ns by (intro Min_in) simp_all
  then have c: "2 \<le> ?c" "?c < 2 ^ 63" using others by auto
  have "parallel_chunk (map (limit_of pool1) (n # ns)) 1 = parallel_chunk ?ls 1" using one by (simp add: to_u64_def)
  also have "\<dots> = to_u64 ?c" using parallel_chunk_smallest [OF ls(2,1)] by simp
  finally have chunk: "parallel_chunk (map (limit_of pool1) (n # ns)) 1 = to_u64 ?c" .
  have "unat (toBlock - fromBlock) = unat toBlock - unat fromBlock" using range(1) by (simp add: unat_sub_if_size u64_le)
  then have d: "unat (toBlock - fromBlock) < nat ?c" using range by (simp add: u64_le)
  have "unat (to_u64 ?c) = nat ?c" using c by (simp add: unat_to_u64)
  with d have "toBlock - fromBlock < to_u64 ?c" by (simp add: u64_less)
  from unat_u64_Suc [OF this] have "toBlock - fromBlock + 1 \<le> to_u64 ?c" using d \<open>unat (to_u64 ?c) = nat ?c\<close> by (simp add: u64_le)
  moreover have "\<not> toBlock < fromBlock" using range(1) by simp
  ultimately show "LogsByBlockRangeParallel E fromBlock toBlock pool w = Some (pool_LogsByBlockRange E fromBlock toBlock pool1 w1)"
    unfolding LogsByBlockRangeParallel_def snap Let_def prod.case chunk by simp
qed

text \<open>The local network, with the preferred provider limited to one block.\<close>

definition devnet_narrow :: Pool where
  "devnet_narrow = devnet_pool\<lparr>providers := [''alpha'' \<mapsto> devnet_node ''alpha'' 1 1\<lparr>p_maxLogBlockRange := 1\<rparr>, ''beta'' \<mapsto> devnet_node ''beta'' 2 0]\<rparr>"

theorem parallel_chunk_oversized_witness:
  "\<exists>pool1 w1. ParallelLogPlan devnet_ext devnet_narrow 10 = ((2, 1), pool1, w1) \<and>
     LogsByBlockRangeParallel devnet_ext 1 2 devnet_narrow 10 = Some (pool_LogsByBlockRange devnet_ext 1 2 pool1 w1)"
proof -
  obtain pool1 w1 where s: "availableProvidersSnapshot devnet_ext devnet_narrow 10 = ([''alpha'', ''beta''], pool1, w1)"
    and l: "limit_of pool1 ''alpha'' = 1" "limit_of pool1 ''beta'' = 2"
    by (simp add: availableProvidersSnapshot_def devnet_narrow_def devnet_pool_explicit p_IsAvailable_def devnet_node_def set_provider_def limit_of_def
      effectiveMaxLogBlockRange_def cb_IsAvailable_def devnet_rt_def Remaining_def rolloverLocked_def newQuotaManager_def Let_def split: prod.splits if_splits)
  from parallel_chunk_oversized [OF s _ l(1), of 1 2] l(2) show ?thesis by (simp add: u64_le)
qed

end
