(* ===== verification/Pool_Policy.thy ===== *)
theory Pool_Policy
  imports Devnet
begin

text \<open>
  How the pool chooses and judges its providers: construction, ranking, selection, the health
  feedback of the RPC methods, and what a call may charge to a provider's quota. The witnesses
  run on the local network and on two degraded versions of it.
\<close>

section \<open>Degraded networks\<close>

text \<open>The preferred provider is marked unhealthy, or has used up its requests.\<close>

definition devnet_unhealthy :: Pool where
  "devnet_unhealthy = set_provider ''alpha'' (devnet_node ''alpha'' 1 1\<lparr>p_healthy := False\<rparr>) devnet_pool"

definition devnet_exhausted :: Pool where
  "devnet_exhausted = set_provider ''alpha''
     (devnet_node ''alpha'' 1 1\<lparr>p_quota := (p_quota (devnet_node ''alpha'' 1 1))\<lparr>qm_limit := 1000, qm_used := 1000\<rparr>\<rparr>) devnet_pool"

lemma devnet_degraded:
  assumes "p_static p = p_static (devnet_node ''alpha'' 1 1)" and "score_ok p"
  shows "pool_inv (set_provider ''alpha'' p devnet_pool)"
  by (rule pool_inv_evolves [OF devnet_pool_inv], rule set_provider_evolves [OF _ assms(1)])
    (simp_all add: devnet_pool_explicit assms)

lemma devnet_degraded_inv: "pool_inv devnet_unhealthy" "pool_inv devnet_exhausted"
  unfolding devnet_unhealthy_def devnet_exhausted_def
  by (rule devnet_degraded, simp_all add: p_static_def score_ok_def devnet_node_def)+

lemma devnet_degraded_providers:
  "providers devnet_unhealthy ''alpha'' = Some (devnet_node ''alpha'' 1 1\<lparr>p_healthy := False\<rparr>)"
  "providers devnet_unhealthy ''beta'' = Some (devnet_node ''beta'' 2 0)"
  "orderedList devnet_unhealthy = [''alpha'', ''beta'']"
  "providers devnet_exhausted ''alpha'' =
     Some (devnet_node ''alpha'' 1 1\<lparr>p_quota := (p_quota (devnet_node ''alpha'' 1 1))\<lparr>qm_limit := 1000, qm_used := 1000\<rparr>\<rparr>)"
  by (simp_all add: devnet_unhealthy_def devnet_exhausted_def set_provider_def devnet_pool_explicit)

lemma devnet_fallback:
  "\<exists>pool' w'. pool_GetProvider devnet_ext devnet_unhealthy 10 = (Some ''beta'', pool', w')"
  by (simp add: pool_GetProvider_def devnet_degraded_providers p_IsAvailable_def devnet_node_def set_provider_def
      cb_IsAvailable_def devnet_rt_def Remaining_def rolloverLocked_def newQuotaManager_def Let_def split: prod.splits if_splits)

section \<open>Construction and ranking\<close>

lemma check_names_iff:
  "check_names seen ns = None \<longleftrightarrow> [] \<notin> set ns \<and> distinct ns \<and> set ns \<inter> set seen = {}"
  by (induction seen ns rule: check_names.induct) auto

text \<open>
  \<open>NewPool\<close> succeeds exactly when at least one provider is configured and the names are
  non-empty and distinct; every other configuration is an error.
\<close>

lemma new_pool_accepts:
  "(\<exists>pool w'. NewPool E cfg w = (Inr pool, w')) \<longleftrightarrow>
     plc_Providers cfg \<noteq> [] \<and> [] \<notin> pc_Name ` set (plc_Providers cfg) \<and> distinct (map pc_Name (plc_Providers cfg))"
  using check_names_iff [of "[]" "map pc_Name (plc_Providers cfg)"]
  by (auto simp: NewPool_def Let_def split: option.split prod.split)

text \<open>
  C20: A pool that \<open>NewPool\<close> returns is well-formed (every name has its provider, scores are numbers,
  the list is sorted by priority) and lists exactly the configured providers.
\<close>

theorem new_pool_ranked:
  assumes "NewPool E cfg w = (Inr pool, w')"
  shows "pool_inv pool \<and> mset (orderedList pool) = mset (map pc_Name (plc_Providers cfg))"
  by (rule NewPool_inv [OF assms])

theorem new_pool_ranked_witness:
  "pool_inv devnet_pool \<and> mset (orderedList devnet_pool) = {#''beta'', ''alpha''#}"
proof -
  obtain w' where "NewPool devnet_ext devnet_pool_config 0 = (Inr devnet_pool, w')" using devnet_pool_NewPool by blast
  from new_pool_ranked [OF this] show ?thesis by (simp add: devnet_pool_config_def devnet_provider_name)
qed

section \<open>Selection\<close>

text \<open>
  C18: \<open>GetProvider\<close> returns a provider that is available, and every provider of a better priority was
  found unavailable; it returns none only if every provider was found unavailable.
\<close>

theorem selection_by_priority:
  assumes inv: "pool_inv pool" and sel: "pool_GetProvider E pool w = (r, pool', w')"
  shows "case r of
      None \<Rightarrow> \<forall>n p. providers pool n = Some p \<longrightarrow> (\<exists>w0 p0 w1. p_IsAvailable E p w0 = (False, p0, w1))
    | Some n \<Rightarrow> \<exists>p. providers pool n = Some p \<and> (\<exists>w0 p'. p_IsAvailable E p w0 = (True, p', w')) \<and>
        (\<forall>m q. providers pool m = Some q \<longrightarrow> p_priority q < p_priority p \<longrightarrow>
           (\<exists>w0 q' w1. p_IsAvailable E q w0 = (False, q', w1)))"
proof -
  have d: "distinct (orderedList pool)" and dom: "\<And>n p. providers pool n = Some p \<Longrightarrow> n \<in> set (orderedList pool)"
    using inv by (auto simp: pool_inv_def)
  show ?thesis
  proof (cases r)
    case None
    with first_available_None [OF sel [unfolded pool_GetProvider_def None] _ d] dom show ?thesis by auto
  next
    case (Some n)
    obtain pre post pool1 w1 p p' where s: "orderedList pool = pre @ n # post" "first_available E pre pool w = (None, pool1, w1)"
      "providers pool n = Some p" "p_IsAvailable E p w1 = (True, p', w')"
      using first_available_Some [OF sel [unfolded pool_GetProvider_def Some] d] by blast
    have "\<exists>w0 q' w1. p_IsAvailable E q w0 = (False, q', w1)" if q: "providers pool m = Some q" "p_priority q < p_priority p" for m q
    proof -
      have "sorted_wrt (\<lambda>a b. priority_at pool a \<le> priority_at pool b) (pre @ n # post)" using inv s(1) by (simp add: pool_inv_def)
      then have "m \<notin> set post" "m \<noteq> n" using q s(3) by (auto simp: sorted_wrt_append priority_at_def)
      then have "m \<in> set pre" using dom [OF q(1)] s(1) by auto
      with first_available_None [OF s(2)] q(1) d s(1) show ?thesis by auto
    qed
    with Some s show ?thesis by auto
  qed
qed

theorem selection_by_priority_witness:
  "(\<exists>pool' w'. pool_GetProvider devnet_ext devnet_unhealthy 10 = (Some ''beta'', pool', w')) \<and>
   (\<exists>w0 q' w1. p_IsAvailable devnet_ext (devnet_node ''alpha'' 1 1\<lparr>p_healthy := False\<rparr>) w0 = (False, q', w1))"
proof -
  obtain pool' w' where g: "pool_GetProvider devnet_ext devnet_unhealthy 10 = (Some ''beta'', pool', w')"
    using devnet_fallback by blast
  have prio: "p_priority (devnet_node n i t) = i" for n i t by (simp add: devnet_node_def)
  let ?q = "devnet_node ''alpha'' 1 1\<lparr>p_healthy := False\<rparr>"
  have "p_priority ?q < 2 \<longrightarrow> (\<exists>w0 q' w1. p_IsAvailable devnet_ext ?q w0 = (False, q', w1))"
    using selection_by_priority [OF devnet_degraded_inv(1) g] devnet_degraded_providers(1) by (auto simp: devnet_degraded_providers(2) prio)
  then have "\<exists>w0 q' w1. p_IsAvailable devnet_ext ?q w0 = (False, q', w1)" by (simp add: prio)
  with g show ?thesis by blast
qed

lemma set_penalties_lookup:
  assumes "\<forall>n p. providers pool n = Some p \<longrightarrow> p_name p = n"
  shows "penalties (set_penalties ns pool) n =
    (case providers pool n of None \<Rightarrow> penalties pool n | Some p \<Rightarrow> if n \<in> set ns then Some (quota_penalty p) else penalties pool n)"
  using assms
proof (induction ns arbitrary: pool)
  case Nil
  then show ?case by (simp split: option.split)
next
  case (Cons m ns)
  show ?case
  proof (cases "providers pool m")
    case None
    with Cons show ?thesis by (auto split: option.split)
  next
    case (Some p)
    then have "p_name p = m" using Cons.prems by blast
    with Some Cons.IH [of "pool\<lparr>penalties := (penalties pool)(m \<mapsto> quota_penalty p)\<rparr>"] Cons.prems show ?thesis
      by (auto split: option.split)
  qed
qed

lemma quota_penalty_eq:
  "quota_penalty p = Fin ((if 0 < qm_limit (p_quota p) \<and> qm_limit (p_quota p) \<le> qm_used (p_quota p) then 10 else 0) +
     (if 0 < qm_creditLimit (p_quota p) \<and> qm_creditLimit (p_quota p) \<le> qm_creditUsed (p_quota p) then 5 else 0))"
proof -
  have five: "f64_of_rat 5 = Fin 5" "f64_of_rat 10 = Fin 10" "f64_of_rat 15 = Fin 15"
    using f64_of_int_exact [of 5] f64_of_int_exact [of 10] f64_of_int_exact [of 15] by (simp_all add: f64_of_int_def)
  show ?thesis by (simp add: quota_penalty_def p_GetQuotaUsage_def Usage_def Let_def five)
qed

lemma adjustedScore_sort: "adjustedScoreLocked (sortOrderedListLocked pool) = adjustedScoreLocked pool"
  by (rule ext) (simp add: adjustedScoreLocked_def penalty_of_def sortOrderedListLocked_def)

lemma rank_of_sort: "rank_of (sortOrderedListLocked pool) = rank_of pool"
proof
  fix n
  have "providers (sortOrderedListLocked pool) = providers pool" by (simp add: sortOrderedListLocked_def)
  then show "rank_of (sortOrderedListLocked pool) n = rank_of pool n"
    unfolding rank_of_def [of "sortOrderedListLocked pool"] rank_of_def [of pool] adjustedScore_sort by simp
qed

lemma recalculate_penalty:
  assumes "pool_inv pool" and "providers pool n = Some p"
  shows "penalties (recalculateScores pool) n = Some (quota_penalty p)"
proof -
  have "n \<in> set (orderedList pool)" using assms by (auto simp: pool_inv_def)
  moreover have "\<forall>n p. providers pool n = Some p \<longrightarrow> p_name p = n" using assms by (simp add: pool_inv_def)
  ultimately show ?thesis using set_penalties_lookup [of pool "orderedList pool" n] assms(2)
    by (simp add: recalculateScores_def sortOrderedListLocked_def)
qed

lemma recalculate_score:
  assumes "\<forall>n p. providers pool n = Some p \<longrightarrow> p_name p = n" and "n \<in> set (orderedList pool)" and "providers pool n = Some p"
  shows "pool_GetScores (recalculateScores pool) n = Some (f64_sub (p_currentScore p) (quota_penalty p))"
proof -
  let ?p = "set_penalties (orderedList pool) pool"
  have "penalty_of ?p n = quota_penalty p"
    using set_penalties_lookup [OF assms(1), of "orderedList pool" n] assms(2,3) by (simp add: penalty_of_def)
  moreover have "providers (sortOrderedListLocked ?p) n = Some p" using assms(3) by (simp add: sortOrderedListLocked_def)
  moreover have "p_name p = n" using assms(1,3) by blast
  ultimately show ?thesis
    unfolding recalculateScores_def pool_GetScores_def adjustedScore_sort by (simp add: adjustedScoreLocked_def)
qed

text \<open>
  C19: \<open>recalculateScores\<close> keeps the providers and ranks them by priority and, within a priority, by
  decreasing score less the penalty, which is 10 for a used-up request quota plus 5 for used-up credits; \<open>GetScores\<close> then
  reports the score less the penalty.
\<close>

theorem recalculate_ranks:
  fixes pool :: Pool
  defines "pen \<equiv> \<lambda>p. (if 0 < qm_limit (p_quota p) \<and> qm_limit (p_quota p) \<le> qm_used (p_quota p) then 10 else 0) +
       (if 0 < qm_creditLimit (p_quota p) \<and> qm_creditLimit (p_quota p) \<le> qm_creditUsed (p_quota p) then 5 else 0)"
    and "pool' \<equiv> recalculateScores pool"
  assumes inv: "pool_inv pool"
  shows "pool_inv pool' \<and> mset (orderedList pool') = mset (orderedList pool) \<and> providers pool' = providers pool \<and>
    (\<forall>n p. providers pool n = Some p \<longrightarrow> penalties pool' n = Some (Fin (pen p)) \<and>
       pool_GetScores pool' n = Some (f64_sub (p_currentScore p) (Fin (pen p)))) \<and>
    sorted_wrt (\<lambda>a b. \<exists>p q. providers pool a = Some p \<and> providers pool b = Some q \<and>
       (p_priority p < p_priority q \<or> p_priority p = p_priority q \<and>
          \<not> f64_lt (f64_sub (p_currentScore p) (Fin (pen p))) (f64_sub (p_currentScore q) (Fin (pen q))))) (orderedList pool')"
proof -
  let ?p = "set_penalties (orderedList pool) pool"
  have eq: "pool' = sortOrderedListLocked ?p" by (simp add: pool'_def recalculateScores_def)
  have pr: "providers pool' = providers pool" and ms: "mset (orderedList pool') = mset (orderedList pool)"
    by (simp_all add: eq sortOrderedListLocked_def)
  have pen: "penalties pool' n = Some (Fin (pen p))" if "providers pool n = Some p" for n p
    unfolding pool'_def recalculate_penalty [OF inv that] by (simp add: pen_def quota_penalty_eq)
  have names: "\<forall>n p. providers pool n = Some p \<longrightarrow> p_name p = n" using inv by (simp add: pool_inv_def)
  have sc: "pool_GetScores pool' n = Some (f64_sub (p_currentScore p) (Fin (pen p)))" if "providers pool n = Some p" for n p
  proof -
    have "n \<in> set (orderedList pool)" using inv that by (auto simp: pool_inv_def)
    from recalculate_score [OF names this that] show ?thesis by (simp add: pool'_def pen_def quota_penalty_eq)
  qed
  have rank: "rank_of ?p n = (p_priority p, f64_sub (p_currentScore p) (Fin (pen p)))" if "providers pool n = Some p" for n p
    using sc [OF that] that pr unfolding eq pool_GetScores_def adjustedScore_sort by (auto simp: rank_of_def)
  have ord: "sorted_wrt (\<lambda>a b. \<not> rank_less (rank_of ?p b) (rank_of ?p a)) (orderedList pool')"
    unfolding eq by (rule sortOrderedList_sorted) (use inv in \<open>auto simp: pool_inv_def scores_ok_def set_penalties_finite\<close>)
  have known: "\<exists>p. providers pool n = Some p" if "n \<in> set (orderedList pool')" for n
    using that inv mset_eq_setD [OF ms] by (auto simp: pool_inv_def)
  have "sorted_wrt (\<lambda>a b. \<exists>p q. providers pool a = Some p \<and> providers pool b = Some q \<and>
       (p_priority p < p_priority q \<or> p_priority p = p_priority q \<and>
          \<not> f64_lt (f64_sub (p_currentScore p) (Fin (pen p))) (f64_sub (p_currentScore q) (Fin (pen q))))) (orderedList pool')"
  proof (rule sorted_wrt_mono_rel [OF _ ord])
    fix a b
    assume ab: "a \<in> set (orderedList pool')" "b \<in> set (orderedList pool')" "\<not> rank_less (rank_of ?p b) (rank_of ?p a)"
    from known [OF ab(1)] known [OF ab(2)] obtain p q where pq: "providers pool a = Some p" "providers pool b = Some q" by blast
    with ab(3) show "\<exists>p q. providers pool a = Some p \<and> providers pool b = Some q \<and>
       (p_priority p < p_priority q \<or> p_priority p = p_priority q \<and>
          \<not> f64_lt (f64_sub (p_currentScore p) (Fin (pen p))) (f64_sub (p_currentScore q) (Fin (pen q))))"
      unfolding rank [OF pq(1)] rank [OF pq(2)] rank_less_def by (auto split: if_splits)
  qed
  with pr ms pen sc recalculateScores_inv [OF inv] show ?thesis by (simp add: pool'_def)
qed

text \<open>Two providers of one priority, the first with a used-up quota: it falls behind.\<close>

definition devnet_peers :: Pool where
  "devnet_peers = devnet_pool\<lparr>providers := [''alpha'' \<mapsto> devnet_node ''alpha'' 1 1\<lparr>p_quota :=
       (p_quota (devnet_node ''alpha'' 1 1))\<lparr>qm_limit := 1000, qm_used := 1000\<rparr>\<rparr>, ''beta'' \<mapsto> devnet_node ''beta'' 1 0]\<rparr>"

theorem recalculate_ranks_witness:
  "orderedList devnet_peers = [''alpha'', ''beta''] \<and> orderedList (recalculateScores devnet_peers) = [''beta'', ''alpha''] \<and>
   pool_GetScores (recalculateScores devnet_peers) ''alpha'' = Some (Fin (- 9))"
proof -
  have o: "orderedList devnet_peers = [''alpha'', ''beta'']" by (simp add: devnet_peers_def devnet_pool_explicit)
  have inv: "pool_inv devnet_peers"
    by (auto simp: pool_inv_def devnet_peers_def devnet_pool_explicit scores_ok_def score_ok_def devnet_node_def priority_at_def split: if_splits)
  have nine: "f64_of_rat (- 9) = Fin (- 9)" "f64_of_rat 1 = Fin 1" using f64_of_int_exact [of "- 9"] f64_of_int_exact [of 1] by (simp_all add: f64_of_int_def)
  let ?o = "orderedList (recalculateScores devnet_peers)"
  have p: "providers devnet_peers ''alpha'' = Some (devnet_node ''alpha'' 1 1\<lparr>p_quota :=
       (p_quota (devnet_node ''alpha'' 1 1))\<lparr>qm_limit := 1000, qm_used := 1000\<rparr>\<rparr>)" "providers devnet_peers ''beta'' = Some (devnet_node ''beta'' 1 0)"
    by (simp_all add: devnet_peers_def)
  note r = recalculate_ranks [OF inv]
  have sc: "pool_GetScores (recalculateScores devnet_peers) ''alpha'' = Some (Fin (- 9))"
    using r p by (simp add: devnet_node_def newQuotaManager_def nine f64_sub_def)
  have ms: "mset ?o = mset [''alpha'', ''beta'']" using r o by simp
  from mset_eq_length [OF ms] obtain x y where xy: "?o = [x, y]" by (auto simp: length_Suc_conv)
  with mset_eq_setD [OF ms] consider "?o = [''alpha'', ''beta'']" | "?o = [''beta'', ''alpha'']" by (auto simp: doubleton_eq_iff)
  then have "?o = [''beta'', ''alpha'']"
  proof cases
    case 1
    with r p show ?thesis by (simp add: devnet_node_def newQuotaManager_def nine f64_sub_def)
  qed
  with o sc show ?thesis by simp
qed

section \<open>Health feedback\<close>

text \<open>What the feedback of a call may change.\<close>

definition health :: "Provider \<Rightarrow> f64 \<times> bool" where
  "health p = (p_currentScore p, p_healthy p)"

lemma IsAvailable_health: "p_IsAvailable E p w = (b, p', w') \<Longrightarrow> health p' = health p"
  using p_IsAvailable_state(1) [of E p w b p' w'] by (auto simp: health_def)

lemma first_available_health:
  "first_available E ns pool w = (r, pool', w') \<Longrightarrow> map_option health (providers pool' n) = map_option health (providers pool n)"
proof (induction ns arbitrary: pool w)
  case (Cons m ns)
  show ?case
  proof (cases "providers pool m")
    case None
    with Cons show ?thesis by simp
  next
    case (Some p)
    obtain b p' w1 where a: "p_IsAvailable E p w = (b, p', w1)" by (cases "p_IsAvailable E p w")
    have h: "map_option health (providers (set_provider m p' pool) n) = map_option health (providers pool n)"
      using Some IsAvailable_health [OF a] by (simp add: set_provider_def)
    show ?thesis
    proof (cases b)
      case True
      with Cons.prems Some a have "pool' = set_provider m p' pool" by (simp add: Let_def)
      with h show ?thesis by simp
    next
      case False
      with Cons Some a h show ?thesis by (simp add: Let_def)
    qed
  qed
qed simp

lemma on_provider_health:
  assumes "quota_only rpc" and "on_provider m rpc pool w = (r, pool', w')"
  shows "map_option health (providers pool' n) = map_option health (providers pool n)"
proof (cases "providers pool m")
  case None
  with assms(2) show ?thesis by (simp add: on_provider_def)
next
  case (Some p)
  obtain r' p' w1 where c: "rpc p w = (r', p', w1)" by (cases "rpc p w")
  then obtain q where "p' = p\<lparr>p_quota := q\<rparr>" using assms(1) unfolding quota_only_def by blast
  with Some c assms(2) show ?thesis by (auto simp: on_provider_def set_provider_def health_def)
qed

text \<open>
  C23: A call that ends with the provider's own quota denial leaves the score and the health flag of every
  provider unchanged, whichever RPC method it is.
\<close>

theorem quota_denial_not_penalised:
  assumes "quota_only rpc" and "pool_rpc E counts rpc pool w = (Inl err, pool', w')" and "errors_Is err ErrQuotaExceeded"
  shows "map_option health (providers pool' n) = map_option health (providers pool n)"
proof -
  obtain a pool1 w1 where g: "pool_GetProvider E pool w = (a, pool1, w1)" by (cases "pool_GetProvider E pool w")
  have h1: "map_option health (providers pool1 n) = map_option health (providers pool n)"
    by (rule first_available_health [OF g [unfolded pool_GetProvider_def]])
  show ?thesis
  proof (cases a)
    case None
    with assms g h1 show ?thesis by (simp add: pool_rpc_def)
  next
    case (Some m)
    obtain y pool2 w2 where o: "on_provider m rpc pool1 w1 = (y, pool2, w2)" by (cases "on_provider m rpc pool1 w1")
    with assms(2,3) g Some have "pool' = pool2"
      by (auto simp: pool_rpc_def pool_RecordFailure_def split: sum.splits prod.splits)
    with on_provider_health [OF assms(1) o] h1 show ?thesis by simp
  qed
qed

theorem quota_denial_not_penalised_witness:
  "\<exists>err pool' w'. pool_rpc devnet_ext (\<lambda>_. True) (\<lambda>p w. (Inl (quota_denied p) :: goerr + u64, p, w)) devnet_unhealthy 10
       = (Inl err, pool', w') \<and>
     map_option health (providers pool' ''beta'') = map_option health (providers devnet_unhealthy ''beta'')"
proof -
  let ?rpc = "\<lambda>p w. (Inl (quota_denied p) :: goerr + u64, p, w :: nat)"
  have "p = p\<lparr>p_quota := p_quota p\<rparr>" for p :: Provider by simp
  then have q: "quota_only ?rpc" unfolding quota_only_def by blast
  obtain pool1 w1 where g: "pool_GetProvider devnet_ext devnet_unhealthy 10 = (Some ''beta'', pool1, w1)"
    using devnet_fallback by blast
  obtain p where "providers pool1 ''beta'' = Some p"
    using evolves_provider(2) [OF GetProvider_evolves [OF g]] devnet_degraded_providers(2) by blast
  then obtain pool' w' where r: "pool_rpc devnet_ext (\<lambda>_. True) ?rpc devnet_unhealthy 10 = (Inl (quota_denied p), pool', w')"
    by (simp add: pool_rpc_def g on_provider_def)
  from quota_denial_not_penalised [OF q r, of "''beta''"] r show ?thesis by (auto simp: quota_denied_def)
qed

text \<open>
  C38: A provider marked unhealthy stays unhealthy with the same score whatever RPC the pool routes and
  however it ends: it is never selected, so the success that would recover it cannot happen.
\<close>

theorem unhealthy_absorbing:
  assumes inv: "pool_inv pool" and q: "quota_only rpc" and "providers pool n = Some p" and "\<not> p_healthy p"
    and run: "pool_rpc E counts rpc pool w = (r, pool', w')"
  shows "\<exists>p'. providers pool' n = Some p' \<and> health p' = health p"
proof -
  obtain a pool1 w1 where g: "pool_GetProvider E pool w = (a, pool1, w1)" by (cases "pool_GetProvider E pool w")
  have h1: "map_option health (providers pool1 n) = map_option health (providers pool n)"
    by (rule first_available_health [OF g [unfolded pool_GetProvider_def]])
  have d: "distinct (orderedList pool)" using inv by (simp add: pool_inv_def)
  have "map_option health (providers pool' n) = map_option health (providers pool n)"
  proof (cases a)
    case None
    with run g h1 show ?thesis by (simp add: pool_rpc_def)
  next
    case (Some m)
    obtain pm w0 p0 where "providers pool m = Some pm" "p_IsAvailable E pm w0 = (True, p0, w1)"
      using first_available_Some [OF g [unfolded pool_GetProvider_def Some] d] by blast
    then have "p_healthy pm" using p_IsAvailable_state(2) [of E pm w0 True p0 w1] by simp
    with assms(3,4) \<open>providers pool m = Some pm\<close> have "m \<noteq> n" by auto
    obtain y pool2 w2 where o: "on_provider m rpc pool1 w1 = (y, pool2, w2)" by (cases "on_provider m rpc pool1 w1")
    have h2: "map_option health (providers pool2 n) = map_option health (providers pool n)"
      using on_provider_health [OF q o] h1 by simp
    have "providers pool' n = providers pool2 n"
      using run g Some o \<open>m \<noteq> n\<close>
      by (auto simp: pool_rpc_def pool_RecordFailure_def pool_RecordSuccess_def set_provider_def split: sum.splits prod.splits option.splits if_splits)
    with h2 show ?thesis by simp
  qed
  with assms(3) show ?thesis by auto
qed

theorem unhealthy_absorbing_witness:
  "\<exists>r pool' w' p'. pool_BlockNumber devnet_ext devnet_unhealthy 10 = (r, pool', w') \<and>
     providers pool' ''alpha'' = Some p' \<and> \<not> p_healthy p'"
proof -
  obtain r pool' w' where run: "pool_BlockNumber devnet_ext devnet_unhealthy 10 = (r, pool', w')"
    by (cases "pool_BlockNumber devnet_ext devnet_unhealthy 10")
  from unhealthy_absorbing [OF devnet_degraded_inv(1) quota_only_rpcs(7) devnet_degraded_providers(1) _ run [unfolded pool_BlockNumber_def]]
  show ?thesis using run by (auto simp: health_def)
qed

section \<open>Quota\<close>

text \<open>
  C24: One RPC of a provider charges its quota at most \<open>MaxAttempts\<close> times, once per physical attempt,
  changes nothing else of the provider and keeps the quota within its bounds.
\<close>

theorem rpc_charge_bound:
  assumes "p_withRetry E call p w = (r, p', w')" and "quota_inv (p_quota p)"
  shows "quota_inv (p_quota p') \<and> (\<exists>ts. length ts \<le> nat (max 1 (rc_MaxAttempts (p_retryCfg p))) \<and>
           p' = p\<lparr>p_quota := snd (consume_all ts (p_quota p))\<rparr>)"
  using p_withRetry_consumes [OF assms(1)] consume_all_inv [OF assms(2)] by auto

theorem rpc_charge_bound_witness:
  "\<exists>ts. length ts \<le> 3 \<and> p_quota (fst (snd (p_BlockNumber devnet_ext (devnet_node ''alpha'' 1 1) 10))) =
     snd (consume_all ts (p_quota (devnet_node ''alpha'' 1 1)))"
proof -
  obtain r p' w' where run: "p_BlockNumber devnet_ext (devnet_node ''alpha'' 1 1) 10 = (r, p', w')"
    by (cases "p_BlockNumber devnet_ext (devnet_node ''alpha'' 1 1) 10")
  have "quota_inv (p_quota (devnet_node ''alpha'' 1 1))"
    by (simp add: devnet_node_def) (rule quota_inv_New, simp_all add: in_i64_def)
  from rpc_charge_bound [OF run [unfolded p_BlockNumber_def] this] run show ?thesis by (auto simp: devnet_node_def)
qed

text \<open>
  A quota denial of a provider whose name contains "range" is classified as a range-too-large
  error, although it is \<open>ErrQuotaExceeded\<close>.
\<close>

lemma quota_error_misclassified:
  assumes "strings_Contains (strings_ToLower (p_name p)) ''range''"
  shows "isRangeTooLargeError (Some (quota_denied p)) \<and> errors_Is (quota_denied p) ErrQuotaExceeded"
proof -
  let ?m = "strings_ToLower (err_Error (quota_denied p))"
  have m: "?m = strings_ToLower ''provider '' @ strings_ToLower (p_name p) @ strings_ToLower ('': '' @ sentinel_msg ErrQuotaExceeded)"
    by (simp add: quota_denied_def strings_ToLower_def)
  have "strings_Contains (strings_ToLower ('': '' @ sentinel_msg ErrQuotaExceeded)) ''exceed''"
    by (simp add: strings_Contains_def) code_simp
  then have "strings_Contains ?m ''exceed''" unfolding m by (intro strings_Contains_appendI(1))
  moreover have "strings_Contains ?m ''range''" unfolding m using assms by (simp add: strings_Contains_appendI)
  ultimately show ?thesis by (simp add: classifier_defs Let_def quota_denied_def)
qed

end
