(* ===== verification/Persistence.thy ===== *)
theory Persistence
  imports Pool_Policy
begin

text \<open>
  The providers' state across a restart: \<open>persistProviderState\<close> writes scores and quota usage to the
  storage after every step of progress, and \<open>NewIndexer\<close> restores them into the new pool.
\<close>

section \<open>The stored rows\<close>

text \<open>A \<open>range\<close> over a map visits every key once, in any order.\<close>

definition map_order_ok :: "'w ext \<Rightarrow> bool" where
  "map_order_ok E \<longleftrightarrow> (\<forall>ns w. mset (fst (rt_MapOrder (x_rt E) ns w)) = mset ns)"

definition score_row :: "'w sys \<Rightarrow> string \<Rightarrow> f64 option" where
  "score_row s n = map_option ps_Score (map_of (scores (mem_score (sys_mem s))) n)"

definition quota_row :: "MemoryQuotaStorage \<Rightarrow> string \<Rightarrow> (int \<times> gotime) option" where
  "quota_row m n = map_option (\<lambda>r. (qu_Used r, qu_ResetAt r)) (quota_rows m (n, ''requests''))"

abbreviation sys_quotas :: "'w sys \<Rightarrow> MemoryQuotaStorage" where
  "sys_quotas s \<equiv> mem_quota (sys_mem s)"

section \<open>Saving\<close>

lemma SetProviderScore_row:
  assumes "sys_SetProviderScore E p x y s = (r, s')"
  shows "score_row s' n = (if n = p then Some x else score_row s n)" "sys_pool s' = sys_pool s"
  using assms by (auto simp: sys_SetProviderScore_def SetProviderScore_def score_row_def Let_def update_conv' split: prod.splits option.splits)

lemma save_scores_row:
  assumes "cs_scores (sys_storage_port E) = Some sc" and "\<forall>(n, x) \<in> set xs. x = f n"
  shows "score_row (save_scores sc xs s) n = (if n \<in> fst ` set xs then Some (f n) else score_row s n) \<and>
     sys_pool (save_scores sc xs s) = sys_pool s"
  using assms(2)
proof (induction xs arbitrary: s)
  case (Cons a xs)
  obtain m x where a: "a = (m, x)" "x = f m" using Cons.prems by (cases a) auto
  have sc: "ss_SetProviderScore sc = sys_SetProviderScore E" using assms(1) by (auto simp: sys_storage_port_def)
  obtain r s1 where s1: "sys_SetProviderScore E m x (Fin 0) s = (r, s1)" by (cases "sys_SetProviderScore E m x (Fin 0) s")
  show ?case using Cons.IH [of s1] Cons.prems a sc s1 SetProviderScore_row [OF s1] by auto
qed simp

lemma persist_quotas_row:
  assumes "\<forall>n p. providers pool n = Some p \<longrightarrow> p_name p = n"
    and "persist_quotas (sys_SetQuotaUsage E) ns pool s = (r, s')"
  shows "quota_row (sys_quotas s') n = (case providers pool n of
           Some p \<Rightarrow> if n \<in> set ns then Some (qm_used (p_quota p), qm_resetTime (p_quota p)) else quota_row (sys_quotas s) n
         | None \<Rightarrow> quota_row (sys_quotas s) n)"
  using assms(2)
proof (induction ns arbitrary: s)
  case Nil
  then show ?case by (simp split: option.split)
next
  case (Cons k ns)
  show ?case
  proof (cases "providers pool k")
    case None
    with Cons show ?thesis by (auto split: option.split)
  next
    case (Some p)
    then have k: "p_name p = k" using assms(1) by blast
    obtain e s1 where s1: "sys_SetQuotaUsage E k ''requests'' (qm_used (p_quota p)) (qm_resetTime (p_quota p)) s = (e, s1)"
      by (cases "sys_SetQuotaUsage E k ''requests'' (qm_used (p_quota p)) (qm_resetTime (p_quota p)) s")
    then have e: "e = None"
      and row: "quota_row (sys_quotas s1) n = (if n = k then Some (qm_used (p_quota p), qm_resetTime (p_quota p)) else quota_row (sys_quotas s) n)"
      by (auto simp: sys_SetQuotaUsage_def SetQuotaUsage_def quota_row_def Let_def split: option.splits prod.splits)
    from Cons.prems Some k s1 e have "persist_quotas (sys_SetQuotaUsage E) ns pool s1 = (r, s')"
      by (simp add: p_GetQuotaUsage_def Usage_def p_GetQuotaReset_def ResetTimes_def)
    from Cons.IH [OF this] row Some show ?thesis by (auto split: option.split)
  qed
qed

lemma persist_row:
  fixes s :: "'w sys" and d :: "(Memory \<times> 'w) EventDispatcher" and onExhausted :: "goerr \<Rightarrow> 'w \<Rightarrow> 'w"
  assumes ord: "map_order_ok E" and inv: "pool_inv (sys_pool s)" and p: "providers (sys_pool s) n = Some p"
  defines "s' \<equiv> persistProviderState (sys_ports E d onExhausted) s"
  shows "score_row s' n = Some (adjustedScoreLocked (sys_pool s) p)"
    and "quota_row (sys_quotas s') n = Some (qm_used (p_quota p), qm_resetTime (p_quota p))"
proof -
  obtain sc where sc: "cs_scores (sys_storage_port E) = Some sc" by (simp add: sys_storage_port_def)
  obtain qs where qs: "cs_quotas (sys_storage_port E) = Some qs" "qs_SetQuotaUsage qs = sys_SetQuotaUsage E"
    by (simp add: sys_storage_port_def)
  obtain ns w1 where ns: "rt_MapOrder (x_rt E) (orderedList (sys_pool s)) (sys_world s) = (ns, w1)"
    by (cases "rt_MapOrder (x_rt E) (orderedList (sys_pool s)) (sys_world s)")
  have o: "set (fst (rt_MapOrder (x_rt E) (orderedList (sys_pool s)) w)) = set (orderedList (sys_pool s))" for w
    using ord unfolding map_order_ok_def by (metis set_mset_mset)
  have n: "n \<in> set (orderedList (sys_pool s))" using inv p by (auto simp: pool_inv_def)
  define xs where "xs = List.map_filter (\<lambda>n. map_option (\<lambda>x. (n, x)) (pool_GetScores (sys_pool s) n)) ns"
  define s1 where "s1 = s\<lparr>sys_world := w1\<rparr>"
  have gs: "sys_GetScores E s = (xs, s1)" by (simp add: sys_GetScores_def ns xs_def s1_def)
  let ?f = "\<lambda>n. the (pool_GetScores (sys_pool s) n)"
  have f: "\<forall>(n, x) \<in> set xs. x = ?f n" by (auto simp: xs_def List.map_filter_def)
  have m: "n \<in> fst ` set xs" using n o [of "sys_world s"] ns p by (force simp: xs_def List.map_filter_def pool_GetScores_def)
  define s2 where "s2 = save_scores sc xs s1"
  have s': "s' = snd (sys_PersistQuotaUsage E qs s2)"
    using sc qs gs by (simp add: s'_def persistProviderState_def sys_ports_def sys_pool_port_def Let_def s2_def)
  have row: "score_row s2 n = (if n \<in> fst ` set xs then Some (?f n) else score_row s1 n)" and pool2: "sys_pool s2 = sys_pool s"
    using save_scores_row [OF sc f, of s1 n] by (simp_all add: s2_def s1_def)
  obtain ks w3 where ks: "rt_MapOrder (x_rt E) (orderedList (sys_pool s2)) (sys_world s2) = (ks, w3)"
    by (cases "rt_MapOrder (x_rt E) (orderedList (sys_pool s2)) (sys_world s2)")
  obtain r where q: "persist_quotas (sys_SetQuotaUsage E) ks (sys_pool s2) (s2\<lparr>sys_world := w3\<rparr>) = (r, s')"
    using s' by (cases "persist_quotas (sys_SetQuotaUsage E) ks (sys_pool s2) (s2\<lparr>sys_world := w3\<rparr>)") (simp add: sys_PersistQuotaUsage_def ks qs(2))
  have "score_row s' n = score_row s2 n" using persist_quotas_frame [OF q] by (simp add: score_row_def)
  also have "\<dots> = Some (adjustedScoreLocked (sys_pool s) p)"
    using row m p by (simp add: pool_GetScores_def)
  finally show "score_row s' n = Some (adjustedScoreLocked (sys_pool s) p)" .
  have "n \<in> set ks" using n o [of "sys_world s2"] ks pool2 by simp
  moreover have "\<forall>n p. providers (sys_pool s2) n = Some p \<longrightarrow> p_name p = n" using inv pool2 by (simp add: pool_inv_def)
  ultimately show "quota_row (sys_quotas s') n = Some (qm_used (p_quota p), qm_resetTime (p_quota p))"
    using persist_quotas_row [OF _ q, of n] p pool2 by simp
qed

section \<open>Restoring\<close>

text \<open>What restoring makes of a provider.\<close>

definition restored :: "'w sys \<Rightarrow> string \<Rightarrow> Provider \<Rightarrow> Provider" where
  "restored s n q =
     (let q1 = (case score_row s n of None \<Rightarrow> q | Some x \<Rightarrow> p_SetScore x q)
      in case quota_row (sys_quotas s) n of None \<Rightarrow> q1 | Some (used, reset) \<Rightarrow> p_RestoreQuotaUsage used reset q1)"

lemma on_named_fields [simp]: "sys_mem (on_named n f s) = sys_mem s"
  by (simp add: on_named_def split: option.split)

lemma restore_step:
  fixes E :: "'w ext" and d :: "(Memory \<times> 'w) EventDispatcher" and onExhausted :: "goerr \<Rightarrow> 'w \<Rightarrow> 'w"
  defines "P \<equiv> sys_ports E d onExhausted"
  assumes names: "\<forall>n p. providers (sys_pool s) n = Some p \<longrightarrow> p_name p = n"
  shows "restore_quota P (sys_provider E n) (restore_score P (sys_provider E n) s) = on_named n (restored s n) s"
proof -
  have nm: "rp_Name (sys_provider E n) t = n" if "\<forall>n p. providers (sys_pool t) n = Some p \<longrightarrow> p_name p = n" for t :: "'w sys"
    using that by (simp add: sys_provider_def get_named_def p_Name_def split: option.split)
  have pr: "rp_SetScore (sys_provider E n) = (\<lambda>x. on_named n (p_SetScore x))"
    "rp_RestoreQuotaUsage (sys_provider E n) = Some (\<lambda>used reset. on_named n (p_RestoreQuotaUsage used reset))"
    by (simp_all add: sys_provider_def)
  have sc: "restore_score P (sys_provider E n) s = (case score_row s n of None \<Rightarrow> s | Some x \<Rightarrow> on_named n (p_SetScore x) s)"
    by (simp add: P_def restore_score_def nm [OF names] pr GetProviderScore_def score_row_def split: option.split)
  have nm': "rp_Name (sys_provider E n) (restore_score P (sys_provider E n) s) = n"
    using names by (intro nm) (auto simp: sc on_named_def set_provider_def p_SetScore_def split: option.splits if_splits)
  have qu: "restore_quota P (sys_provider E n) t = (case quota_row (sys_quotas t) n of None \<Rightarrow> t
      | Some (used, reset) \<Rightarrow> on_named n (p_RestoreQuotaUsage used reset) t)" if "rp_Name (sys_provider E n) t = n" for t
    using that by (simp add: P_def restore_quota_def pr GetQuotaUsage_def quota_row_def split: option.split)
  have id: "on_named n (\<lambda>q. q) s = s" by (auto simp: on_named_def set_provider_def map_upd_triv split: option.split)
  have comp: "on_named n g (on_named n f s) = on_named n (\<lambda>q. g (f q)) s" for f g
    by (simp add: on_named_def set_provider_def split: option.split)
  show ?thesis unfolding qu [OF nm'] unfolding sc restored_def Let_def
    by (cases "score_row s n"; cases "quota_row (sys_quotas s) n") (auto simp: id comp)
qed

abbreviation restore_sys :: "'w ext \<Rightarrow> (Memory \<times> 'w) EventDispatcher \<Rightarrow> (goerr \<Rightarrow> 'w \<Rightarrow> 'w) \<Rightarrow> string list \<Rightarrow> 'w sys \<Rightarrow> 'w sys" where
  "restore_sys E d onExhausted ns \<equiv> restore_all (sys_ports E d onExhausted) (map (\<lambda>n. Some (sys_provider E n)) ns)"

lemma restored_name [simp]: "p_name (restored t m x) = p_name x"
  by (simp add: restored_def Let_def p_SetScore_def p_RestoreQuotaUsage_def split: option.split prod.split)

lemma on_named_names:
  "\<forall>n p. providers (sys_pool s) n = Some p \<longrightarrow> p_name p = n \<Longrightarrow>
   \<forall>n p. providers (sys_pool (on_named k (restored s k) s)) n = Some p \<longrightarrow> p_name p = n"
  by (auto simp: on_named_def set_provider_def split: option.splits if_splits)

lemma restore_all_provider:
  assumes "distinct ns" and "\<forall>n p. providers (sys_pool s) n = Some p \<longrightarrow> p_name p = n"
  shows "providers (sys_pool (restore_sys E d onExhausted ns s)) n =
     map_option (if n \<in> set ns then restored s n else id) (providers (sys_pool s) n)"
  using assms
proof (induction ns arbitrary: s)
  case (Cons k ns)
  let ?s = "on_named k (restored s k) s"
  have r: "restored ?s = restored s" by (intro ext) (simp add: restored_def score_row_def)
  have "providers (sys_pool ?s) n = map_option (if n = k then restored s k else id) (providers (sys_pool s) n)"
    by (auto simp: on_named_def set_provider_def option.map_id split: option.split)
  with Cons on_named_names [OF Cons.prems(2), of k] show ?case by (auto simp: restore_step r option.map_comp option.map_id option.map_ident)
qed (simp add: option.map_id)

lemma restored_provider:
  fixes s :: "'w sys"
  assumes "map_order_ok E" and "pool_inv (sys_pool s)" and "pool_inv pool"
    and p: "providers (sys_pool s) n = Some p" and q: "providers pool n = Some q"
  shows "providers (sys_pool (restoreProviderState (sys_ports E d onExhausted)
           ((persistProviderState (sys_ports E d onExhausted) s)\<lparr>sys_pool := pool\<rparr>))) n =
     Some (q\<lparr>p_currentScore := adjustedScoreLocked (sys_pool s) p,
             p_quota := RestoreUsage (qm_used (p_quota p)) (qm_resetTime (p_quota p)) (p_quota q)\<rparr>)"
proof -
  let ?s = "(persistProviderState (sys_ports E d onExhausted) s)\<lparr>sys_pool := pool\<rparr>"
  have "restoreProviderState (sys_ports E d onExhausted) ?s =
      restore_sys E d onExhausted (orderedList pool) ?s"
    by (simp add: restoreProviderState_def sys_ports_def sys_storage_port_def sys_pool_port_def pool_GetAllProviders_def)
  moreover have "\<forall>n p. providers (sys_pool ?s) n = Some p \<longrightarrow> p_name p = n" using assms(3) by (simp add: pool_inv_def)
  moreover have "distinct (orderedList pool)" "n \<in> set (orderedList pool)" using assms(3) q by (auto simp: pool_inv_def)
  moreover have "score_row ?s n = Some (adjustedScoreLocked (sys_pool s) p)"
    "quota_row (sys_quotas ?s) n = Some (qm_used (p_quota p), qm_resetTime (p_quota p))"
    using persist_row [OF assms(1,2) p, of d onExhausted] by (simp_all add: score_row_def)
  then have "restored ?s n q = q\<lparr>p_currentScore := adjustedScoreLocked (sys_pool s) p,
      p_quota := RestoreUsage (qm_used (p_quota p)) (qm_resetTime (p_quota p)) (p_quota q)\<rparr>"
    by (simp add: restored_def p_SetScore_def p_RestoreQuotaUsage_def)
  ultimately show ?thesis using restore_all_provider [of "orderedList pool" ?s E d onExhausted n] q by simp
qed

lemma devnet_map_order: "map_order_ok devnet_ext"
  by (simp add: map_order_ok_def devnet_rt_def)

lemma devnet_alpha: "providers devnet_pool ''alpha'' = Some (devnet_node ''alpha'' 1 1)"
  by (simp add: devnet_pool_explicit)

section \<open>Properties\<close>

text \<open>
  C30: A restart restores the providers' accounts: after a step of progress has persisted the state and
  \<open>NewIndexer\<close> has restored it into a freshly built pool, every provider has the used requests it had before and its reset
  time (unless that was the zero time, which leaves the new one), and as score its score less the penalty it was ranked with; nothing
  else is restored, in particular not the health flag.
\<close>

theorem restart_roundtrip:
  fixes s :: "'w sys"
  assumes "map_order_ok E" and "pool_inv (sys_pool s)" and "pool_inv pool"
    and p: "providers (sys_pool s) n = Some p" and q: "providers pool n = Some q"
  shows "providers (sys_pool (restoreProviderState (sys_ports E d onExhausted)
           ((persistProviderState (sys_ports E d onExhausted) s)\<lparr>sys_pool := pool\<rparr>))) n =
     Some (q\<lparr>p_currentScore := f64_sub (p_currentScore p) (case penalties (sys_pool s) n of None \<Rightarrow> Fin 0 | Some x \<Rightarrow> x),
             p_quota := (p_quota q)\<lparr>qm_used := qm_used (p_quota p),
               qm_resetTime := (if qm_resetTime (p_quota p) = 0 then qm_resetTime (p_quota q) else qm_resetTime (p_quota p))\<rparr>\<rparr>)"
proof -
  have "p_name p = n" using assms(2) p by (simp add: pool_inv_def)
  then show ?thesis
    unfolding restored_provider [OF assms] by (simp add: adjustedScoreLocked_def penalty_of_def RestoreUsage_def Let_def)
qed

text \<open>The preferred provider has made some requests, and its period ends at another time than in a new pool.\<close>

definition devnet_busy :: Pool where
  "devnet_busy = set_provider ''alpha'' (devnet_node ''alpha'' 1 1\<lparr>p_quota :=
     (p_quota (devnet_node ''alpha'' 1 1))\<lparr>qm_used := 12, qm_resetTime := 77\<rparr>\<rparr>) devnet_pool"

theorem restart_roundtrip_witness:
  "\<exists>q. providers (sys_pool (restoreProviderState devnet_ports
         ((persistProviderState devnet_ports (devnet_sys\<lparr>sys_pool := devnet_busy\<rparr>))\<lparr>sys_pool := devnet_pool\<rparr>))) ''alpha'' = Some q \<and>
     qm_used (p_quota q) = 12 \<and> qm_resetTime (p_quota q) = 77 \<and> p_currentScore q = Fin 1"
proof -
  let ?p = "devnet_node ''alpha'' 1 1\<lparr>p_quota := (p_quota (devnet_node ''alpha'' 1 1))\<lparr>qm_used := 12, qm_resetTime := 77\<rparr>\<rparr>"
  have inv: "pool_inv devnet_busy" unfolding devnet_busy_def
    by (rule devnet_degraded) (simp_all add: p_static_def score_ok_def devnet_node_def)
  have p: "providers devnet_busy ''alpha'' = Some ?p" "penalties devnet_busy = Map.empty"
    by (simp_all add: devnet_busy_def set_provider_def devnet_pool_explicit)
  have "f64_of_rat 1 = Fin 1" using f64_of_int_exact [of 1] by (simp add: f64_of_int_def)
  with restart_roundtrip [of devnet_ext "devnet_sys\<lparr>sys_pool := devnet_busy\<rparr>" devnet_pool "''alpha''" ?p _ devnet_dispatcher "\<lambda>e w. w",
      OF devnet_map_order _ devnet_pool_inv _ devnet_alpha] inv p
  show ?thesis by (simp add: devnet_ports_def devnet_node_def f64_sub_def)
qed

lemma restore_all_order:
  "\<forall>n p. providers (sys_pool s) n = Some p \<longrightarrow> p_name p = n \<Longrightarrow>
   orderedList (sys_pool (restore_sys E d onExhausted ns s)) = orderedList (sys_pool s)"
proof (induction ns arbitrary: s)
  case (Cons k ns)
  have "orderedList (sys_pool (on_named k (restored s k) s)) = orderedList (sys_pool s)"
    by (simp add: on_named_def set_provider_def split: option.split)
  with Cons.IH [OF on_named_names [OF Cons.prems]] Cons.prems show ?case by (simp add: restore_step)
qed simp

text \<open>
  C40: The quota penalty is applied twice after a restart: the score that is persisted already contains
  the penalty of a provider with a used-up quota, and the first re-ranking after the restart subtracts
  it again.
\<close>

theorem double_penalty:
  fixes s :: "'w sys"
  assumes "map_order_ok E" and "pool_inv (sys_pool s)" and inv: "pool_inv pool"
    and p: "providers (sys_pool s) n = Some p" and q: "providers pool n = Some q"
    and "penalty_of (sys_pool s) n = Fin 10" and lim: "0 < qm_limit (p_quota q)" "qm_limit (p_quota q) \<le> qm_used (p_quota p)"
    and cred: "qm_creditLimit (p_quota q) \<le> 0"
  shows "pool_GetScores (recalculateScores (sys_pool (restoreProviderState (sys_ports E d onExhausted)
           ((persistProviderState (sys_ports E d onExhausted) s)\<lparr>sys_pool := pool\<rparr>)))) n =
         Some (f64_sub (f64_sub (p_currentScore p) (Fin 10)) (Fin 10))"
proof -
  let ?s = "(persistProviderState (sys_ports E d onExhausted) s)\<lparr>sys_pool := pool\<rparr>"
  let ?pool = "sys_pool (restoreProviderState (sys_ports E d onExhausted) ?s)"
  let ?q = "q\<lparr>p_currentScore := adjustedScoreLocked (sys_pool s) p,
      p_quota := RestoreUsage (qm_used (p_quota p)) (qm_resetTime (p_quota p)) (p_quota q)\<rparr>"
  have eq: "restoreProviderState (sys_ports E d onExhausted) ?s =
      restore_sys E d onExhausted (orderedList pool) ?s"
    by (simp add: restoreProviderState_def sys_ports_def sys_storage_port_def sys_pool_port_def pool_GetAllProviders_def)
  have d: "distinct (orderedList pool)" and n: "n \<in> set (orderedList pool)" using inv q by (auto simp: pool_inv_def)
  have pn0: "\<forall>m x. providers (sys_pool ?s) m = Some x \<longrightarrow> p_name x = m" using inv by (simp add: pool_inv_def)
  then have names: "\<forall>m x. providers ?pool m = Some x \<longrightarrow> p_name x = m"
    unfolding eq restore_all_provider [OF d pn0] by auto
  have pn: "p_name p = n" using assms(2) p by (simp add: pool_inv_def)
  have "providers ?pool n = Some ?q" by (rule restored_provider [OF assms(1,2) inv p q])
  moreover have "n \<in> set (orderedList ?pool)" unfolding eq restore_all_order [OF pn0] using n by simp
  moreover have "adjustedScoreLocked (sys_pool s) p = f64_sub (p_currentScore p) (Fin 10)"
    using assms(6) pn by (simp add: adjustedScoreLocked_def)
  moreover have "quota_penalty ?q = Fin 10" using lim cred by (simp add: quota_penalty_eq RestoreUsage_def Let_def)
  ultimately show ?thesis using recalculate_score [OF names, of n ?q] by simp
qed

theorem double_penalty_witness:
  "\<exists>pool. providers pool ''alpha'' = Some (devnet_node ''alpha'' 1 1\<lparr>p_quota := (p_quota (devnet_node ''alpha'' 1 1))\<lparr>qm_limit := 1000, qm_used := 1000\<rparr>\<rparr>) \<and>
     pool_GetScores (recalculateScores (sys_pool (restoreProviderState devnet_ports
       ((persistProviderState devnet_ports (devnet_sys\<lparr>sys_pool := recalculateScores devnet_exhausted\<rparr>))\<lparr>sys_pool := pool\<rparr>)))) ''alpha'' =
     Some (f64_sub (f64_sub (Fin 1) (Fin 10)) (Fin 10))"
proof -
  let ?p = "devnet_node ''alpha'' 1 1\<lparr>p_quota := (p_quota (devnet_node ''alpha'' 1 1))\<lparr>qm_limit := 1000, qm_used := 1000\<rparr>\<rparr>"
  let ?r = "recalculateScores devnet_exhausted"
  have r: "providers ?r ''alpha'' = Some ?p" "pool_inv ?r" "penalty_of ?r ''alpha'' = Fin 10"
    using recalculate_penalty [OF devnet_degraded_inv(2) devnet_degraded_providers(4)] devnet_degraded_providers(4)
      recalculateScores_inv [OF devnet_degraded_inv(2)]
    by (simp_all add: recalculateScores_def sortOrderedListLocked_def penalty_of_def quota_penalty_eq devnet_node_def newQuotaManager_def)
  have "pool_GetScores (recalculateScores (sys_pool (restoreProviderState (sys_ports devnet_ext devnet_dispatcher (\<lambda>e w. w))
       ((persistProviderState (sys_ports devnet_ext devnet_dispatcher (\<lambda>e w. w)) (devnet_sys\<lparr>sys_pool := ?r\<rparr>))\<lparr>sys_pool := devnet_exhausted\<rparr>)))) ''alpha'' =
     Some (f64_sub (f64_sub (p_currentScore ?p) (Fin 10)) (Fin 10))"
    by (rule double_penalty [where q = ?p])
      (simp_all add: devnet_map_order r devnet_degraded_inv devnet_degraded_providers, simp_all add: devnet_node_def newQuotaManager_def)
  moreover have "p_currentScore ?p = Fin 1" by (simp add: devnet_node_def)
  ultimately show ?thesis using devnet_degraded_providers(4) by (intro exI [of _ devnet_exhausted]) (simp add: devnet_ports_def)
qed

end
