(* ===== verification/Pool_Life.thy ===== *)
theory Pool_Life
  imports Persistence
begin

text \<open>
  The lifecycle of a \<open>Pool\<close>: the goroutine \<open>updateLoop\<close>, which \<open>NewPool\<close> starts, and \<open>Close\<close>, as steps
  that interleave with the calls made through the pool.
\<close>

section \<open>Operations\<close>

text \<open>
  \<open>pl_loop\<close> tells whether \<open>updateLoop\<close> runs (the counter of \<open>wg\<close>), and \<open>pl_phase\<close> how far the function of
  \<open>closeOnce\<close> has got: \<open>cancel()\<close> called, \<open>wg.Wait()\<close> returned, providers closed.
\<close>

datatype pool_phase = PoolOpen | PoolCancelled | PoolWaited | PoolClosed

record pool_life =
  pl_pool :: Pool
  pl_loop :: bool
  pl_phase :: pool_phase

definition launch :: "Pool \<Rightarrow> pool_life" where
  "launch pool = \<lparr>pl_pool = pool, pl_loop = True, pl_phase = PoolOpen\<rparr>"

text \<open>One iteration of \<open>updateLoop\<close>, by the case its \<open>select\<close> takes; \<open>None\<close> when that case is not ready.\<close>

datatype update_event = PoolDone | PoolTick

definition update_step :: "update_event \<Rightarrow> pool_life \<Rightarrow> pool_life option" where
  "update_step ev x = (case ev of
      PoolDone \<Rightarrow> if pl_phase x \<noteq> PoolOpen then Some (x\<lparr>pl_loop := False\<rparr>) else None
    | PoolTick \<Rightarrow> Some (x\<lparr>pl_pool := recalculateScores (pl_pool x)\<rparr>))"

definition close_step :: "'w ext \<Rightarrow> pool_life \<Rightarrow> 'w \<Rightarrow> (pool_life \<times> 'w) option" where
  "close_step E x w = (case pl_phase x of
      PoolOpen \<Rightarrow> Some (x\<lparr>pl_phase := PoolCancelled\<rparr>, w)
    | PoolCancelled \<Rightarrow> if pl_loop x then None else Some (x\<lparr>pl_phase := PoolWaited\<rparr>, w)
    | PoolWaited \<Rightarrow> (case pool_Close E (pl_pool x) w of
        (pan, pool', w') \<Rightarrow> Some (x\<lparr>pl_phase := PoolClosed, pl_pool := pool'\<rparr>, w'))
    | PoolClosed \<Rightarrow> None)"

text \<open>Calls through the pool never re-rank it and do not close it.\<close>

inductive pool_step :: "'w ext \<Rightarrow> pool_life \<times> 'w \<Rightarrow> pool_life \<times> 'w \<Rightarrow> bool" for E where
  update: "pl_loop x \<Longrightarrow> update_step ev x = Some x' \<Longrightarrow> pool_step E (x, w) (x', w)"
| close: "close_step E x w = Some (x', w') \<Longrightarrow> pool_step E (x, w) (x', w')"
| calls: "pool_evolves (pl_pool x) pool' \<Longrightarrow> pool_closed pool' = pool_closed (pl_pool x) \<Longrightarrow>
    pool_step E (x, w) (x\<lparr>pl_pool := pool'\<rparr>, w')"

section \<open>The invariant\<close>

definition pool_life_inv :: "pool_life \<Rightarrow> bool" where
  "pool_life_inv x \<longleftrightarrow> pool_inv (pl_pool x) \<and> (pl_phase x \<in> {PoolWaited, PoolClosed} \<longrightarrow> \<not> pl_loop x) \<and>
     (pl_phase x = PoolOpen \<longrightarrow> pl_loop x) \<and> (pool_closed (pl_pool x) \<longleftrightarrow> pl_phase x = PoolClosed)"

lemma recalculateScores_closed [simp]: "pool_closed (recalculateScores pool) = pool_closed pool"
proof -
  have "pool_closed (set_penalties ns pool) = pool_closed pool" for ns
    by (induction ns arbitrary: pool) (auto split: option.split)
  then show ?thesis by (simp add: recalculateScores_def sortOrderedListLocked_def)
qed

lemma close_all_closed:
  "close_all E ns pool w = (r, pool', w') \<Longrightarrow> pool_closed pool' = pool_closed pool"
  by (induction ns arbitrary: pool w) (auto simp: set_provider_def split: option.splits prod.splits)

lemma pool_step_inv: "pool_step E x y \<Longrightarrow> pool_life_inv (fst x) \<Longrightarrow> pool_life_inv (fst y)"
proof (induction rule: pool_step.induct)
  case (update x ev x' w)
  then show ?case
    by (cases ev) (auto simp: update_step_def pool_life_inv_def recalculateScores_inv split: if_splits)
next
  case (close x w x' w')
  show ?case
  proof (cases "pl_phase x = PoolWaited")
    case True
    obtain r pool' v where c: "pool_Close E (pl_pool x) w = (r, pool', v)" by (metis prod_cases3)
    have "pool_inv pool'" using pool_inv_evolves [OF _ pool_Close_evolves [OF c]] close.prems by (simp add: pool_life_inv_def)
    moreover have "pool_closed pool'" using c by (auto simp: pool_Close_def split: if_splits prod.splits dest: close_all_closed)
    ultimately show ?thesis using close True c by (auto simp: close_step_def pool_life_inv_def)
  qed (use close in \<open>auto simp: close_step_def pool_life_inv_def split: pool_phase.splits if_splits\<close>)
next
  case (calls x pool' w w')
  then show ?case by (auto simp: pool_life_inv_def intro: pool_inv_evolves)
qed

lemma pool_reachable_inv: "(pool_step E)\<^sup>*\<^sup>* x y \<Longrightarrow> pool_life_inv (fst x) \<Longrightarrow> pool_life_inv (fst y)"
  by (induction rule: rtranclp_induct) (auto intro: pool_step_inv)

lemma launch_inv: "NewPool E cfg w = (Inr pool, w') \<Longrightarrow> pool_life_inv (launch pool)"
  using NewPool_inv [of E cfg w pool w'] NewPool_fields [of E cfg w pool w'] by (simp add: pool_life_inv_def launch_def)

text \<open>Once \<open>wg.Wait()\<close> has returned, the ranking does not change any more.\<close>

lemma waited_step:
  assumes "pool_step E x y" and "pool_life_inv (fst x)" and "pl_phase (fst x) \<in> {PoolWaited, PoolClosed}"
  shows "pl_phase (fst y) \<in> {PoolWaited, PoolClosed} \<and> pool_evolves (pl_pool (fst x)) (pl_pool (fst y))"
  using assms
proof (induction rule: pool_step.induct)
  case (close x w x' w')
  obtain r pool' v where c: "pool_Close E (pl_pool x) w = (r, pool', v)" by (metis prod_cases3)
  with close pool_Close_evolves [OF c] show ?case by (auto simp: close_step_def)
qed (auto simp: pool_life_inv_def)

lemma waited_reachable:
  assumes "(pool_step E)\<^sup>*\<^sup>* x y" and "pool_life_inv (fst x)" and "pl_phase (fst x) \<in> {PoolWaited, PoolClosed}"
  shows "pl_phase (fst y) \<in> {PoolWaited, PoolClosed} \<and> pool_evolves (pl_pool (fst x)) (pl_pool (fst y))"
  using assms(1)
proof (induction rule: rtranclp_induct)
  case (step y z)
  have "pool_life_inv (fst y)" by (rule pool_reachable_inv [OF step(1) assms(2)])
  from waited_step [OF step(2) this] step(3) show ?case by (auto intro: pool_evolves_trans)
qed (use assms in simp)

section \<open>Closing\<close>








section \<open>Properties\<close>

text \<open>
  C21: \<open>Close\<close> ends the re-ranking. Whatever interleaving of ticks of \<open>updateLoop\<close>, steps of \<open>Close\<close> and calls
  a new pool goes through, it stays well-formed; once \<open>wg.Wait\<close> has returned, and so when the providers are being closed,
  no \<open>updateLoop\<close> runs, and neither the order nor the penalties change any more.
\<close>

theorem pool_rank_frozen:
  assumes "NewPool E cfg w0 = (Inr pool, w)" and "(pool_step E)\<^sup>*\<^sup>* (launch pool, w) (x, v)"
    and "pl_phase x \<in> {PoolWaited, PoolClosed}" and "(pool_step E)\<^sup>*\<^sup>* (x, v) (y, u)"
  shows "pool_inv (pl_pool y) \<and> \<not> pl_loop y \<and> orderedList (pl_pool y) = orderedList (pl_pool x) \<and>
     penalties (pl_pool y) = penalties (pl_pool x)"
proof -
  have x: "pool_life_inv x" using pool_reachable_inv [OF assms(2)] launch_inv [OF assms(1)] by simp
  then have y: "pool_life_inv y" using pool_reachable_inv [OF assms(4)] by simp
  from waited_reachable [OF assms(4)] x assms(3)
  have "pl_phase y \<in> {PoolWaited, PoolClosed}" "pool_evolves (pl_pool x) (pl_pool y)" by simp_all
  with y show ?thesis by (auto simp: pool_life_inv_def pool_evolves_def)
qed




theorem pool_rank_frozen_witness:
  "\<exists>x y w u. (pool_step devnet_ext)\<^sup>*\<^sup>* (launch devnet_pool, w) (x, w) \<and> pl_phase x = PoolWaited \<and>
     (pool_step devnet_ext)\<^sup>*\<^sup>* (x, w) (y, u) \<and> pl_phase y = PoolClosed \<and> orderedList (pl_pool y) = orderedList (pl_pool x)"
proof -
  obtain w where n: "NewPool devnet_ext devnet_pool_config 0 = (Inr devnet_pool, w)" using devnet_pool_NewPool by blast
  let ?a = "(launch devnet_pool)\<lparr>pl_phase := PoolCancelled\<rparr>"
  let ?b = "?a\<lparr>pl_loop := False\<rparr>"
  let ?x = "?b\<lparr>pl_phase := PoolWaited\<rparr>"
  obtain r pool' u where c: "pool_Close devnet_ext devnet_pool w = (r, pool', u)" by (metis prod_cases3)
  let ?y = "?x\<lparr>pl_phase := PoolClosed, pl_pool := pool'\<rparr>"
  have "pool_step devnet_ext (launch devnet_pool, w) (?a, w)" by (intro pool_step.close) (simp add: close_step_def launch_def)
  also have "(pool_step devnet_ext)\<^sup>*\<^sup>* (?a, w) (?b, w)" by (intro r_into_rtranclp pool_step.update [of _ PoolDone]) (simp_all add: update_step_def launch_def)
  also have "pool_step devnet_ext (?b, w) (?x, w)" by (intro pool_step.close) (simp add: close_step_def launch_def)
  finally have r1: "(pool_step devnet_ext)\<^sup>*\<^sup>* (launch devnet_pool, w) (?x, w)" .
  have "pool_step devnet_ext (?x, w) (?y, u)" using c by (intro pool_step.close) (simp add: close_step_def launch_def)
  then have r2: "(pool_step devnet_ext)\<^sup>*\<^sup>* (?x, w) (?y, u)" by blast
  from pool_rank_frozen [OF n r1 _ r2] r1 r2 show ?thesis by (intro exI [of _ ?x] exI [of _ ?y] exI [of _ w] exI [of _ u]) simp
qed

end
