(* ===== verification/Exhaustion_Report.thy ===== *)
theory Exhaustion_Report
  imports Sync_Relation Devnet
begin

text \<open>
  Exhaustion end to end: from the syncs that found no available provider to the callback of
  \<open>WithOnExhausted\<close>.
\<close>

section \<open>A sync that does not report\<close>

text \<open>The engine behind the exhaustion check does not know the callback.\<close>

lemma ports_runtime:
  "pt_pool (P\<lparr>pt_runtime := x\<rparr>) = pt_pool P" "pt_storage (P\<lparr>pt_runtime := x\<rparr>) = pt_storage P"
  "pt_dispatcher (P\<lparr>pt_runtime := x\<rparr>) = pt_dispatcher P"
  by simp_all

lemma dispatch_logs_runtime: "dispatch_logs (P\<lparr>pt_runtime := x\<rparr>) t ls s = dispatch_logs P t ls s"
  by (induction ls arbitrary: s) (auto split: prod.split option.split)

lemma apply_logs_runtime: "apply_logs (P\<lparr>pt_runtime := x\<rparr>) ls bt s = apply_logs P ls bt s"
  by (induction ls arbitrary: bt s) (auto simp: Let_def split: prod.split option.split sum.split)

lemma engine_runtime:
  "getLastBlock (P\<lparr>pt_runtime := x\<rparr>) i s = getLastBlock P i s" "storeLastBlock (P\<lparr>pt_runtime := x\<rparr>) i n s = storeLastBlock P i n s"
  "persistProviderState (P\<lparr>pt_runtime := x\<rparr>) s = persistProviderState P s" "record_tip (P\<lparr>pt_runtime := x\<rparr>) n i s = record_tip P n i s"
  "idx_isRangeTooLargeError (P\<lparr>pt_runtime := x\<rparr>) e s = idx_isRangeTooLargeError P e s"
  "processBlock (P\<lparr>pt_runtime := x\<rparr>) n i s = processBlock P n i s"
  unfolding getLastBlock_def storeLastBlock_def persistProviderState_def record_tip_def idx_isRangeTooLargeError_def
    processBlock_def dispatch_logs_runtime ports_runtime by (rule refl)+

lemma paths_runtime:
  "applyBatchChunk (P\<lparr>pt_runtime := x\<rparr>) ls n i s = applyBatchChunk P ls n i s" "seq_body (P\<lparr>pt_runtime := x\<rparr>) = seq_body P"
  unfolding applyBatchChunk_def seq_body_def fun_eq_iff apply_logs_runtime engine_runtime by simp_all

lemma batch_runtime: "batch_body (P\<lparr>pt_runtime := x\<rparr>) = batch_body P"
  unfolding batch_body_def parallel_part_def single_part_def fun_eq_iff paths_runtime engine_runtime ports_runtime by simp

lemma sync_from_runtime: "sync_from (P\<lparr>pt_runtime := x\<rparr>) n idx s = sync_from P n idx s"
  unfolding sync_from_def detectReorgRewind_def sync_range_def syncBlocksBatched_def syncBlocksSequential_def batch_runtime
      paths_runtime engine_runtime ports_runtime by (rule refl)

section \<open>Runs of syncs\<close>

text \<open>
  \<open>syncs P idx as idx'\<close>: a series of syncs takes the indexer from \<open>idx\<close> to \<open>idx'\<close>; \<open>as\<close> tells which of them
  found a provider. The state behind the interfaces may change in between.
\<close>

inductive syncs :: "'s ports \<Rightarrow> Indexer \<Rightarrow> bool list \<Rightarrow> Indexer \<Rightarrow> bool" for P where
  none: "syncs P idx [] idx"
| more: "syncs P idx as idx1 \<Longrightarrow> syncBlocks P idx1 s = Some (r, idx2, s') \<Longrightarrow>
    syncs P idx (as @ [fst (pp_GetProvider (pt_pool P) s) \<noteq> None]) idx2"

lemma syncs_exhaustion: "syncs P idx as idx' \<Longrightarrow> ix_exhaustion idx' = observe_all as (ix_exhaustion idx)"
  by (induction rule: syncs.induct) (simp_all add: syncBlocks_exhaustion)

lemma syncs_config: "syncs P idx as idx' \<Longrightarrow> ix_config idx' = ix_config idx"
  by (induction rule: syncs.induct) (auto dest: syncBlocks_settings)

lemma NewIndexer_exhaustion:
  assumes "NewIndexer cfg pool storage dispatcher opts after s = (Inr (P, idx), s')"
  shows "ix_exhaustion idx = NewExhaustionTracker (ic_MaxConsecutiveProviderExhaustion (ix_config idx))"
    and "0 < ic_MaxConsecutiveProviderExhaustion (ix_config idx)"
  using assms by (auto simp: NewIndexer_def Let_def defaultMaxConsecutiveProviderExhaustion_def
      split: option.splits if_splits prod.splits dest!: apply_opts_effect)

section \<open>Properties\<close>

text \<open>
  C35: Exhaustion is reported exactly when due. After any series of syncs of a new indexer, let the streak be the
  number of syncs since the last one that found a provider, the coming one included. If it is at least
  \<open>MaxConsecutiveProviderExhaustion\<close> (so on every sync from that one on, until one finds a provider), the sync waits for the restart delay and then, unless the indexer has been
  stopped meanwhile, calls the callback with an error that is \<open>ErrProviderPoolExhausted\<close> and names the
  streak, and does nothing else; otherwise it does not call the callback: any other one would give the same result.
\<close>

theorem exhaustion_reported:
  assumes new: "NewIndexer cfg pool storage dispatcher opts after s0 = (Inr (P, idx), s1)" and run: "syncs P idx as idx'"
    and len: "length as < 2 ^ 63 - 1" and g: "pp_GetProvider (pt_pool P) s = (g, s2)"
  shows "if ic_MaxConsecutiveProviderExhaustion (ix_config idx) \<le> int (streak (as @ [g \<noteq> None]))
    then \<exists>idx'' err. errors_Is err ErrProviderPoolExhausted \<and>
       err_Error err = ''idx: provider pool exhausted: no provider available for '' @ fmt_d (int (streak (as @ [g \<noteq> None]))) @
         '' consecutive sync attempts'' \<and>
       syncBlocks P idx' s = Some (None, idx'',
         case rs_After (pt_runtime P) (ic_ProviderExhaustionRestartDelay (ix_config idx)) s2 of
           (cancelled, s3) \<Rightarrow> if cancelled then s3 else rs_OnExhausted (pt_runtime P) err s3)
    else syncBlocks (fst (WithOnExhausted (Some f) (P, idx'))) idx' s = syncBlocks P idx' s"
proof -
  let ?N = "ic_MaxConsecutiveProviderExhaustion (ix_config idx)" and ?k = "int (streak (as @ [g \<noteq> None]))"
  note N = NewIndexer_exhaustion [OF new]
  obtain b t where o: "Observe (g \<noteq> None) (ix_exhaustion idx') = (b, t)" by (cases "Observe (g \<noteq> None) (ix_exhaustion idx')")
  have x: "ix_exhaustion idx' = observe_all as (NewExhaustionTracker ?N)" using syncs_exhaustion [OF run] N(1) by simp
  have b: "b \<longleftrightarrow> ?N \<le> ?k"
    using exhaustion_count(2) [OF len, of "g \<noteq> None" ?N] o N(2) unfolding x by simp
  have "t = observe_all (as @ [g \<noteq> None]) (NewExhaustionTracker ?N)" using o unfolding x by simp
  then have k: "Consecutive t = ?k" using exhaustion_count(1) [of "as @ [g \<noteq> None]" ?N] len by simp
  show ?thesis
  proof (cases "?N \<le> ?k")
    case True
    obtain stop s3 where a: "rs_After (pt_runtime P) (ic_ProviderExhaustionRestartDelay (ix_config idx)) s2 = (stop, s3)"
      by (cases "rs_After (pt_runtime P) (ic_ProviderExhaustionRestartDelay (ix_config idx)) s2")
    have "errors_Is (exhausted_error t) ErrProviderPoolExhausted" by (simp add: exhausted_error_def)
    moreover have "err_Error (exhausted_error t) =
      ''idx: provider pool exhausted: no provider available for '' @ fmt_d ?k @ '' consecutive sync attempts''"
      by (simp add: exhausted_error_def k)
    moreover have "syncBlocks P idx' s = Some (None, idx'\<lparr>ix_exhaustion := t\<rparr>,
        if stop then s3 else rs_OnExhausted (pt_runtime P) (exhausted_error t) s3)"
      using g o b True a syncs_config [OF run] by (simp add: syncBlocks_def Let_def split: bool.split)
    ultimately show ?thesis using True a by auto
  next
    case False
    then have "syncBlocks (P\<lparr>pt_runtime := r\<rparr>) idx' s = syncBlocks P idx' s" for r
      using g o b unfolding syncBlocks_def engine_runtime sync_from_runtime by simp
    with False show ?thesis by (simp add: WithOnExhausted_def)
  qed
qed

text \<open>The local network with both providers unhealthy, and a callback that leaves a mark on the world.\<close>

definition dead_sys :: "nat sys" where
  "dead_sys = devnet_sys\<lparr>sys_pool := devnet_pool\<lparr>providers := \<lambda>n. map_option (\<lambda>p. p\<lparr>p_healthy := False\<rparr>) (providers devnet_pool n)\<rparr>\<rparr>"

definition alarm :: "goerr \<Rightarrow> nat sys \<Rightarrow> nat sys" where
  "alarm err s = s\<lparr>sys_world := 42\<rparr>"

definition alarm_ports :: "nat sys ports" where
  "alarm_ports = devnet_ports\<lparr>pt_runtime := (pt_runtime devnet_ports)\<lparr>rs_OnExhausted := alarm\<rparr>\<rparr>"

lemma dead_pool: "lift_pool (pool_GetProvider devnet_ext) dead_sys = (None, dead_sys)"
  "lift_pool (pool_BlockNumber devnet_ext) dead_sys = (Inl (Sentinel ErrNoAvailableProvider), dead_sys)"
  by (simp_all add: lift_pool_def pool_GetProvider_def pool_BlockNumber_def pool_rpc_def dead_sys_def devnet_sys_def devnet_pool_explicit
      p_IsAvailable_def devnet_node_def set_provider_def fun_eq_iff)

lemma dead_provider: "pp_GetProvider (pt_pool alarm_ports) dead_sys = (None, dead_sys)"
  using dead_pool(1) by (simp add: alarm_ports_def devnet_ports_def sys_ports_def sys_pool_port_def)

lemma dead_sync:
  assumes "Observe False (ix_exhaustion idx) = (False, t)" and "idx = devnet_indexer\<lparr>ix_exhaustion := x\<rparr>"
  shows "syncBlocks alarm_ports idx dead_sys =
    Some (Some (errorf_w ''failed to get latest block: '' (Sentinel ErrNoAvailableProvider)), idx\<lparr>ix_exhaustion := t\<rparr>, dead_sys)"
proof -
  have "pp_BlockNumber (pt_pool alarm_ports) dead_sys = (Inl (Sentinel ErrNoAvailableProvider), dead_sys)"
    "cs_GetLastBlock (pt_storage alarm_ports) ''devnet'' dead_sys = (Inr 0, dead_sys)"
    using dead_pool(2)
    by (simp_all add: alarm_ports_def devnet_ports_def sys_ports_def sys_pool_port_def sys_storage_port_def GetLastBlock_def dead_sys_def
        devnet_sys_def NewMemory_def NewMemoryChainStorage_def)
  with assms dead_provider show ?thesis
    by (simp add: syncBlocks_def getLastBlock_def sync_from_def detectReorgRewind_def devnet_indexer_explicit devnet_config_def)
qed

lemma dead_syncs: "k < 5 \<Longrightarrow> syncs alarm_ports devnet_indexer (replicate k False) (devnet_indexer\<lparr>ix_exhaustion := \<lparr>threshold = 5, consecutive = int k\<rparr>\<rparr>)"
proof (induction k)
  case 0
  have "devnet_indexer\<lparr>ix_exhaustion := \<lparr>threshold = 5, consecutive = 0\<rparr>\<rparr> = devnet_indexer"
    by (simp add: devnet_indexer_explicit NewExhaustionTracker_def defaultMaxConsecutiveProviderExhaustion_def)
  then show ?case using syncs.none [of alarm_ports devnet_indexer] by simp
next
  case (Suc k)
  let ?i = "devnet_indexer\<lparr>ix_exhaustion := \<lparr>threshold = 5, consecutive = int k\<rparr>\<rparr>"
  have "Observe False (ix_exhaustion ?i) = (False, \<lparr>threshold = 5, consecutive = int (Suc k)\<rparr>)"
    using Suc.prems by (simp add: Observe_def Let_def in_i64_def)
  from syncs.more [OF Suc.IH dead_sync [OF this refl]] Suc.prems dead_provider show ?case
    by (simp add: replicate_append_same)
qed

theorem exhaustion_reported_witness:
  "\<exists>idx idx' s. syncs alarm_ports devnet_indexer [False, False, False, False] idx \<and>
     syncBlocks alarm_ports idx dead_sys = Some (None, idx', s) \<and> sys_world s = 42"
proof -
  let ?i = "devnet_indexer\<lparr>ix_exhaustion := \<lparr>threshold = 5, consecutive = int 4\<rparr>\<rparr>"
  obtain s where n: "NewIndexer devnet_config (Some (pt_pool devnet_ports)) (Some (pt_storage devnet_ports))
     (Some (pt_dispatcher devnet_ports)) [OptOnExhausted (Some alarm)] (rs_After (pt_runtime devnet_ports)) devnet_sys =
       (Inr (alarm_ports, devnet_indexer), s)"
    by (simp add: NewIndexer_def devnet_config_def WithOnExhausted_def devnet_indexer_explicit alarm_ports_def devnet_ports_def sys_ports_def Let_def)
  have r: "syncs alarm_ports devnet_indexer [False, False, False, False] ?i" using dead_syncs [of 4] by (simp add: eval_nat_numeral)
  have "rs_After (pt_runtime alarm_ports) d dead_sys = (False, dead_sys)" for d
    by (simp add: alarm_ports_def devnet_ports_def sys_ports_def devnet_rt_def dead_sys_def devnet_sys_def)
  moreover have "rs_OnExhausted (pt_runtime alarm_ports) = alarm" "ic_MaxConsecutiveProviderExhaustion (ix_config devnet_indexer) = 5"
    by (simp_all add: alarm_ports_def devnet_indexer_explicit defaultMaxConsecutiveProviderExhaustion_def)
  ultimately obtain idx' err where "syncBlocks alarm_ports ?i dead_sys = Some (None, idx', alarm err dead_sys)"
    using exhaustion_reported [OF n r _ dead_provider] by (auto simp: streak_def)
  with r show ?thesis by (auto simp: alarm_def)
qed

end
