(* ===== verification/Recovery.thy ===== *)
theory Recovery
  imports Deployment_Live Persistence
begin

text \<open>
  What survives: a deployment whose indexer is stopped and built anew, over a fresh pool and the same
  storage, any number of times, and a deployment whose chain is reorganised within \<open>ReorgDepth\<close> blocks.
\<close>

section \<open>Restarts\<close>

text \<open>
  The steps of a deployment over several indexers: those of the current indexer, with what the others do
  to the pool (\<open>I\<close>) before each call of a sync and between its steps (\<open>sys_env\<close>), and, while none of
  its loops runs, its replacement by a new pool and a new indexer over the same storage and dispatcher.
  The configuration may change, but for the chain, \<open>StartBlock\<close> and the log filter; the scores in
  storage have to be numbers.
\<close>

definition stored_numbers :: "'w sys \<Rightarrow> bool" where
  "stored_numbers s \<longleftrightarrow> (\<forall>n. score_row s n \<noteq> Some NaN)"

inductive era_step :: "'w ext \<Rightarrow> (Memory \<times> 'w) EventDispatcher \<Rightarrow> (goerr \<Rightarrow> 'w \<Rightarrow> 'w) \<Rightarrow> ('w sys \<Rightarrow> 'w sys) \<Rightarrow>
    Indexer \<times> 'w sys \<Rightarrow> Indexer \<times> 'w sys \<Rightarrow> bool" for E d onExhausted I where
  life: "life_step (disturbed I (sys_ports E d onExhausted)) sys_env x y \<Longrightarrow> era_step E d onExhausted I x y"
| restart: "ix_running_loops idx = 0 \<Longrightarrow> NewPool E pcfg (sys_world s) = (Inr pool, w) \<Longrightarrow>
    limits_ok pool \<Longrightarrow> plan_ok pool \<Longrightarrow> stored_numbers s \<Longrightarrow>
    plc_LogAddresses pcfg = pool_logAddresses (sys_pool s) \<Longrightarrow> plc_LogTopics pcfg = pool_logTopics (sys_pool s) \<Longrightarrow>
    ic_Chain cfg = ic_Chain (ix_config idx) \<Longrightarrow> ic_StartBlock cfg = ic_StartBlock (ix_config idx) \<Longrightarrow> \<not> ic_DebugMode cfg \<Longrightarrow>
    NewIndexer cfg (Some (sys_pool_port E)) (Some (sys_storage_port E)) (Some (pt_dispatcher (sys_ports E d onExhausted)))
      [OptOnExhausted (Some (rs_OnExhausted (pt_runtime (sys_ports E d onExhausted))))]
      (rs_After (pt_runtime (sys_ports E d onExhausted))) (s\<lparr>sys_pool := pool, sys_world := w\<rparr>) =
      (Inr (sys_ports E d onExhausted, idx'), s') \<Longrightarrow>
    era_step E d onExhausted I (idx, s) (idx', s')"

lemma life_era:
  "life_reachable (disturbed I (sys_ports E d onExhausted)) sys_env x y \<Longrightarrow> (era_step E d onExhausted I)\<^sup>*\<^sup>* x y"
  by (erule rtranclp_mono [THEN predicate2D, rotated]) (auto intro: era_step.life)

lemma restored_evolves:
  assumes "providers pool n = Some p" and "score_row s n \<noteq> Some NaN"
  shows "pool_evolves pool (set_provider n (restored s n p) pool)"
  using assms
  by (intro set_provider_evolves [OF assms(1)])
    (auto simp: restored_def p_static_def score_ok_def p_SetScore_def p_RestoreQuotaUsage_def Let_def split: option.splits)

lemma restore_sys_same:
  assumes "sys_ok A T s" and "stored_numbers s"
  shows "sys_same A T chain s (restore_sys E d onExhausted ns s)"
  using assms
proof (induction ns arbitrary: s)
  case (Cons n ns)
  let ?s = "on_named n (restored s n) s"
  have names: "\<forall>n p. providers (sys_pool s) n = Some p \<longrightarrow> p_name p = n" using Cons.prems(1) by (simp add: sys_ok_def pool_inv_def)
  have "pool_evolves (sys_pool s) (sys_pool ?s)"
    using Cons.prems(2) by (auto simp: on_named_def stored_numbers_def split: option.split intro!: restored_evolves)
  from sys_ok_evolves [OF Cons.prems(1) this] have f: "sys_same A T chain s ?s"
    by (simp add: frame_def) (simp add: sys_last_def on_named_def split: option.split)
  moreover have "stored_numbers ?s" using Cons.prems(2) by (simp add: stored_numbers_def score_row_def)
  ultimately have "sys_same A T chain ?s (restore_sys E d onExhausted ns ?s)" using Cons.IH by (simp add: frame_def)
  with f show ?case by (auto simp: restore_step [OF names] intro: frame_trans)
qed (simp add: frame_refl)

lemma restart_same:
  assumes ok: "sys_ok A T s" and np: "NewPool E pcfg (sys_world s) = (Inr pool, w)" and lim: "limits_ok pool" "plan_ok pool"
    and num: "stored_numbers s" and flt: "plc_LogAddresses pcfg = A" "plc_LogTopics pcfg = T"
    and ni: "NewIndexer cfg (Some (sys_pool_port E)) (Some (sys_storage_port E)) disp opts after
      (s\<lparr>sys_pool := pool, sys_world := w\<rparr>) = (Inr (sys_ports E d onExhausted, idx'), s')"
  shows "sys_same A T chain s s'"
proof -
  let ?s = "s\<lparr>sys_pool := pool, sys_world := w\<rparr>"
  have "sys_ok A T ?s" using lim flt NewPool_inv [OF np] NewPool_fields [OF np] by (simp add: sys_ok_def)
  then have "sys_same A T chain ?s (restore_sys E d onExhausted (orderedList pool) ?s)"
    using num by (intro restore_sys_same) (simp_all add: stored_numbers_def score_row_def)
  moreover have "s' = restoreProviderState (sys_ports E d onExhausted) ?s"
    using ni by (auto simp: NewIndexer_def Let_def split: option.splits if_splits prod.splits)
  then have "s' = restore_sys E d onExhausted (orderedList pool) ?s"
    by (simp add: restoreProviderState_def sys_ports_def sys_storage_port_def sys_pool_port_def pool_GetAllProviders_def)
  ultimately show ?thesis by (simp add: frame_def sys_last_def)
qed

lemma NewIndexer_config:
  assumes "NewIndexer cfg pool storage disp opts after s = (Inr (P, idx), s')"
  shows "ic_Chain (ix_config idx) = ic_Chain cfg" "ic_StartBlock (ix_config idx) = ic_StartBlock cfg"
    "ic_DebugMode (ix_config idx) = ic_DebugMode cfg"
  using assms by (auto simp: NewIndexer_def Let_def split: option.splits if_splits prod.splits dest!: apply_opts_effect)

context shared_deployment
begin

lemma era_step_walk: "era_step E d onExhausted I x y \<Longrightarrow> life_ok A T chain start x \<Longrightarrow> shared.life_walk start x y"
proof (induction rule: era_step.induct)
  case (life x y)
  then show ?case by (rule shared.life_step_walk)
next
  case (restart idx pcfg s pool w cfg idx' s')
  have ok: "sys_ok A T s" using restart.prems by (auto simp: life_ok_def)
  have f: "sys_same A T chain s s'"
    using restart_same [OF ok restart.hyps(2,3,4,5) _ _ restart.hyps(11)] restart.hyps(6,7) ok by (simp add: sys_ok_def)
  with same_walks [OF f] NewIndexer_config [OF restart.hyps(11)] restart.hyps(8,9,10) restart.prems
  show ?case by (simp add: life_ok_def frame_def)
qed

lemma era_reachable_walk:
  "(era_step E d onExhausted I)\<^sup>*\<^sup>* x y \<Longrightarrow> life_ok A T chain start x \<Longrightarrow> shared.life_walk start x y"
proof (induction rule: rtranclp_induct)
  case (step y z)
  then show ?case using era_step_walk [of y z start] by (auto intro: rtranclp_trans)
qed simp

end

lemma shared_deploymentI:
  assumes "honest_clients E A T logs time" and "quiet_listeners d chain" and "\<And>s. sys_env\<^sup>*\<^sup>* s (I s)"
  shows "shared_deployment E d chain A T logs time I"
  using assms by (auto intro!: shared_deployment.intro deployment.intro shared_deployment_axioms.intro)

section \<open>Reorganisations\<close>

text \<open>
  A sync that starts from a base up to which two chains agree turns coverage of the one into coverage
  of the other.
\<close>

lemma complete_covered:
  assumes c: "covered old_logs old_time chain start s" and sk: "sys_skipped s = {}"
    and agree: "\<And>n. n \<le> base \<Longrightarrow> old_logs n = logs n \<and> old_time n = time n"
    and base: "base \<le> max (sys_last chain s) start" and cur: "sys_last chain s' = cur"
    and d: "sys_deliv s' = sys_deliv s @ concat (map (deliveries logs time) (new_blocks base cur))"
  shows "covered logs time chain start s'"
  unfolding covered_def
proof (intro allI impI)
  fix n
  assume n: "start < n" "n \<le> sys_last chain s'" "time n \<noteq> 0"
  show "set (deliveries logs time n) \<subseteq> set (sys_deliv s')"
  proof (cases "n \<le> base")
    case True
    then have "n \<le> sys_last chain s" using base n(1) by (auto simp: max_def split: if_splits)
    with c n sk agree [OF True] have "set (deliveries old_logs old_time n) \<subseteq> set (sys_deliv s)" by (auto simp: covered_def)
    with agree [OF True] d show ?thesis by (auto simp: deliveries_def)
  next
    case False
    then have "base < cur" using n(2) cur by simp
    moreover have "unat (base + 1) = Suc (unat base)" by (rule unat_u64_Suc [OF \<open>base < cur\<close>])
    then have "base + 1 \<le> n" using False by (simp add: u64_le u64_less)
    ultimately have "n \<in> set (new_blocks base cur)" using n(2) cur by (simp add: new_blocks_def)
    with d show ?thesis by auto
  qed
qed

text \<open>The clients report another hash than the remembered one for the last processed block.\<close>

definition reorged :: "'w ext \<Rightarrow> Indexer \<Rightarrow> u64 \<Rightarrow> bool" where
  "reorged E idx n \<longleftrightarrow> 0 < ix_reorgDepth idx \<and> n \<noteq> 0 \<and>
     (\<exists>want. ix_recentHashes idx n = Some want \<and> (\<forall>h. reported_header E n h \<longrightarrow> hdr_Hash h \<noteq> want))"

lemma reorged_base:
  assumes "reorged E idx n" and "reorg_base (reported_header E) idx n b"
  shows "b = rewind_target (ic_StartBlock (ix_config idx)) (ix_reorgDepth idx) n"
  using assms by (auto simp: reorged_def reorg_base_def split: if_splits)

context live_shared
begin

lemma reorg_completes:
  fixes idx :: Indexer and s :: "'w sys"
  defines "base \<equiv> rewind_target (ic_StartBlock (ix_config idx)) (ix_reorgDepth idx) (sys_last chain s)"
  assumes good: "sys_good A T s" and cfg: "ic_Chain (ix_config idx) = chain" "\<not> ic_DebugMode (ix_config idx)"
    and time: "\<forall>n. unat n < 2 ^ 63 \<longrightarrow> chain_time n \<noteq> 0"
    and re: "reorged E idx (sys_last chain s)" and head: "\<forall>c. reported_head E c \<longrightarrow> base \<le> c"
  shows "\<exists>idx' s' cur. syncBlocks (disturbed I (sys_ports E d onExhausted)) idx s = Some (None, idx', s') \<and> sys_good A T s' \<and>
     reported_head E cur \<and> sys_deliv s' = sys_deliv s @ concat (map (deliveries chain_logs chain_time) (new_blocks base cur)) \<and>
     sys_last chain s' = cur"
proof -
  have n0: "sys_last chain s \<noteq> 0" using re by (simp add: reorged_def)
  then have fb: "first_base (ix_config idx) (sys_last chain s) = sys_last chain s" using cfg(2) by (simp add: first_base_def)
  obtain idx' s' b cur where run: "syncBlocks (disturbed I (sys_ports E d onExhausted)) idx s = Some (None, idx', s')" "sys_good A T s'"
    "reported_head E cur" and sb: "sync_base (reported_header E) idx (sys_last chain s) cur b"
    and d: "sys_deliv s' = sys_deliv s @ concat (map (deliveries chain_logs chain_time) (new_blocks b cur))"
    and l: "if b < cur then sys_last chain s' = cur
      else sys_last chain s' = b \<or> b = sys_last chain s \<and> sys_last chain s' = sys_last chain s"
    using sync_completes [OF good cfg(1) time] cfg(2) unfolding fb by auto
  have "base \<le> cur" using head run(3) by blast
  with sb have "b = base" using reorged_base [OF re] by (fastforce simp: sync_base_def base_def)
  with l \<open>base \<le> cur\<close> have "sys_last chain s' = cur" by (auto split: if_splits)
  with run d \<open>b = base\<close> show ?thesis by blast
qed

end

section \<open>Properties\<close>

text \<open>
  C1: No block is lost, across restarts. In every state a deployment can reach, under any interleaving of
  \<open>Start\<close>, \<open>Stop\<close>, \<open>Nudge\<close>, ticks, sync errors, reorg rewinds, chain resets, re-rankings and calls of the
  application (also in the middle of a sync), and replacements of the indexer and its pool over the same storage, all logs of every
  block above \<open>StartBlock\<close> and up to the persisted block have been delivered, unless a call reported
  the block as undecodable or its header has time 0.
\<close>

theorem no_block_lost:
  assumes "honest_clients E A T logs time" and "quiet_listeners d chain" and "sys_ok A T s"
    and "ic_Chain (ix_config idx) = chain" and "\<not> ic_DebugMode (ix_config idx)" and "sys_last chain s = 0"
    and "\<And>s. sys_env\<^sup>*\<^sup>* s (I s)" and "(era_step E d onExhausted I)\<^sup>*\<^sup>* (idx, s) (idx', s')"
  shows "covered logs time chain (ic_StartBlock (ix_config idx)) s'"
proof -
  let ?st = "ic_StartBlock (ix_config idx)"
  have "life_ok A T chain ?st (idx, s)" using assms(3-5) by (simp add: life_ok_def)
  from shared_deployment.era_reachable_walk [OF shared_deploymentI [OF assms(1,2,7)] assms(8) this]
  have w: "walks logs time ?st (walker_of chain ?st s) (walker_of chain ?st s')" by simp
  have "walk_complete logs time ?st (walker_of chain ?st s)"
    using assms(6) by (auto simp: walk_complete_def resume_def u64_le u64_less unat_sub_if_size split: if_splits)
  from walk_covered [OF walks_complete [OF w this]] show ?thesis .
qed

lemma devnet_pool_again:
  obtains pool w' where "NewPool devnet_ext devnet_pool_config w = (Inr pool, w')" "limits_ok pool" "plan_ok pool"
proof
  let ?pool = "\<lparr>providers = Map.empty(''beta'' \<mapsto> devnet_node ''beta'' 2 (int w), ''alpha'' \<mapsto> devnet_node ''alpha'' 1 (int (Suc w))),
     orderedList = [''alpha'', ''beta''],
     penalties = Map.empty, pool_updateInterval = defaultPoolUpdateInterval, pool_maxLogBlockRange = 1, pool_maxParallelJobAttempts = 0,
     pool_rangeTooLargeFilters = [], pool_logAddresses = [], pool_logTopics = [], pool_closed = False\<rparr>"
  show "NewPool devnet_ext devnet_pool_config w = (Inr ?pool, Suc (Suc w))"
    by (simp add: NewPool_def devnet_pool_config_def devnet_NewProvider devnet_provider_name set_provider_def
     DefaultMaxLogBlockRange_def sortOrderedListLocked_def sort_Slice_def rank_less_def rank_of_def devnet_node_def)
  show "limits_ok ?pool" "plan_ok ?pool"
    by (auto simp: limits_ok_def plan_ok_def in_i64_def limit_of_def effectiveMaxLogBlockRange_def devnet_node_def
      split: option.splits if_splits)
qed

definition shared_ports :: "nat sys ports" where
  "shared_ports = disturbed devnet_rerank (sys_ports devnet_ext devnet_dispatcher (\<lambda>e w. w))"

lemma devnet_stopped:
  defines "x \<equiv> Stop shared_ports devnet_indexer devnet_sys"
  shows "ix_stopped (fst x)" "ix_running_loops (fst x) = 0" "ix_config (fst x) = ix_config devnet_indexer" "sys_mem (snd x) = NewMemory"
  by (simp_all add: x_def Stop_def devnet_indexer_explicit shared_ports_def sys_ports_def sys_pool_port_def dispatcher_Close_def
      lift_pool_def devnet_rerank_def devnet_sys_def split: prod.split)

lemma devnet_life_ok: "life_ok [] [] ''devnet'' 1 (devnet_indexer, devnet_sys)"
  using devnet_sys_ok
  by (simp add: life_ok_def devnet_indexer_explicit devnet_config_def)

lemma devnet_restart:
  defines "x \<equiv> Stop shared_ports devnet_indexer devnet_sys"
  obtains idx s where "era_step devnet_ext devnet_dispatcher (\<lambda>e w. w) devnet_rerank x (idx, s)" "\<not> ix_isRunning idx" "\<not> ix_stopped idx"
proof -
  have "life_reachable shared_ports sys_env (devnet_indexer, devnet_sys) x"
    unfolding x_def by (intro Stop_reachable) (simp add: life_inv_def devnet_indexer_explicit)
  then have "life_ok [] [] ''devnet'' 1 x"
    unfolding shared_ports_def by (rule devnet_shared.shared.life_reachable_ok) (rule devnet_life_ok)
  then have f: "pool_logAddresses (sys_pool (snd x)) = []" "pool_logTopics (sys_pool (snd x)) = []" by (simp_all add: life_ok_def sys_ok_def)
  obtain pool w where p: "NewPool devnet_ext devnet_pool_config (sys_world (snd x)) = (Inr pool, w)" "limits_ok pool" "plan_ok pool"
    by (rule devnet_pool_again)
  let ?P = "sys_ports devnet_ext devnet_dispatcher (\<lambda>e w. w)" and ?s = "(snd x)\<lparr>sys_pool := pool, sys_world := w\<rparr>"
  obtain idx s where i: "NewIndexer devnet_config (Some (sys_pool_port devnet_ext)) (Some (sys_storage_port devnet_ext)) (Some (pt_dispatcher ?P))
      [OptOnExhausted (Some (rs_OnExhausted (pt_runtime ?P)))] (rs_After (pt_runtime ?P)) ?s = (Inr (?P, idx), s)"
    "\<not> ix_isRunning idx" "\<not> ix_stopped idx"
    by (simp add: NewIndexer_def devnet_config_def WithOnExhausted_def sys_ports_def Let_def)
  have n: "stored_numbers (snd x)"
    using devnet_stopped(4) by (simp add: x_def stored_numbers_def score_row_def NewMemory_def NewMemoryScoreStorage_def)
  have "era_step devnet_ext devnet_dispatcher (\<lambda>e w. w) devnet_rerank (fst x, snd x) (idx, s)"
    by (rule era_step.restart [OF _ p n _ _ _ _ _ i(1)])
      (use f devnet_stopped in \<open>simp_all add: x_def devnet_pool_config_def devnet_config_def devnet_indexer_explicit\<close>)
  with i(2,3) that show ?thesis by simp
qed

text \<open>A life of the local network: its indexer is stopped, replaced and started again, and syncs.\<close>

lemma devnet_era:
  obtains idx s r idx' s' where
    "era_step devnet_ext devnet_dispatcher (\<lambda>e w. w) devnet_rerank (Stop shared_ports devnet_indexer devnet_sys) (idx, s)"
    "syncBlocks shared_ports (snd (Start idx)) s = Some (r, idx', s')"
    "(era_step devnet_ext devnet_dispatcher (\<lambda>e w. w) devnet_rerank)\<^sup>*\<^sup>* (devnet_indexer, devnet_sys) (idx', s')"
proof -
  let ?R = "(era_step devnet_ext devnet_dispatcher (\<lambda>e w. w) devnet_rerank)\<^sup>*\<^sup>*" and ?x = "Stop shared_ports devnet_indexer devnet_sys"
  have lift: "life_reachable shared_ports sys_env x y \<Longrightarrow> ?R x y" for x y unfolding shared_ports_def by (rule life_era)
  obtain idx s where st: "era_step devnet_ext devnet_dispatcher (\<lambda>e w. w) devnet_rerank ?x (idx, s)" "\<not> ix_isRunning idx" "\<not> ix_stopped idx"
    by (rule devnet_restart)
  have "?R (devnet_indexer, devnet_sys) ?x" by (intro lift Stop_reachable) (simp add: life_inv_def devnet_indexer_explicit)
  also note st(1)
  also have "life_step shared_ports sys_env (idx, s) (snd (Start idx), s)" using st by (intro life_step.start [of _ None]) (simp add: Start_def)
  then have "era_step devnet_ext devnet_dispatcher (\<lambda>e w. w) devnet_rerank (idx, s) (snd (Start idx), s)" unfolding shared_ports_def by (rule era_step.life)
  finally have r1: "?R (devnet_indexer, devnet_sys) (snd (Start idx), s)" .
  have ok: "life_ok [] [] ''devnet'' 1 (snd (Start idx), s)"
    using devnet_shared.era_reachable_walk [OF r1 devnet_life_ok] by simp
  then obtain r idx' s' where run: "syncBlocks shared_ports (snd (Start idx)) s = Some (r, idx', s')"
    using devnet_shared.shared.sync_delivers [of s "snd (Start idx)"] unfolding shared_ports_def life_ok_def by auto
  have "0 < ix_running_loops (snd (Start idx))" using st by (simp add: Start_def)
  then have "life_step shared_ports sys_env (snd (Start idx), s) (idx', s')"
    using run by (intro life_step.loop [of _ _ Tick]) (simp_all add: loop_step_def run_sync_def)
  with r1 have "?R (devnet_indexer, devnet_sys) (idx', s')" using lift [OF r_into_rtranclp] by (meson rtranclp_trans)
  with st(1) run that show ?thesis by blast
qed

lemma devnet_fresh:
  "ic_Chain (ix_config devnet_indexer) = ''devnet''" "\<not> ic_DebugMode (ix_config devnet_indexer)"
  "sys_last ''devnet'' devnet_sys = 0" "ic_StartBlock (ix_config devnet_indexer) = 1" "sys_deliv devnet_sys = []"
  by (simp_all add: devnet_indexer_explicit devnet_config_def sys_last_def devnet_sys_def NewMemory_def NewMemoryChainStorage_def)

theorem no_block_lost_witness:
  "\<exists>idx s r idx' s'. era_step devnet_ext devnet_dispatcher (\<lambda>e w. w) devnet_rerank (Stop shared_ports devnet_indexer devnet_sys) (idx, s) \<and>
     syncBlocks shared_ports (snd (Start idx)) s = Some (r, idx', s') \<and> covered devnet_logs devnet_time ''devnet'' 1 s'"
proof (rule devnet_era)
  fix idx s r idx' s'
  assume run: "era_step devnet_ext devnet_dispatcher (\<lambda>e w. w) devnet_rerank (Stop shared_ports devnet_indexer devnet_sys) (idx, s)"
    "syncBlocks shared_ports (snd (Start idx)) s = Some (r, idx', s')"
    "(era_step devnet_ext devnet_dispatcher (\<lambda>e w. w) devnet_rerank)\<^sup>*\<^sup>* (devnet_indexer, devnet_sys) (idx', s')"
  from no_block_lost [OF devnet_honest devnet_quiet devnet_sys_ok devnet_fresh(1-3) devnet_rerank_env run(3)] run(1,2)
  show ?thesis unfolding devnet_fresh(4) by blast
qed

text \<open>
  C2: A deployment refines the walker. Whatever its life, with interference, errors, rewinds, resets and restarts, every state
  it reaches is one an abstract walker reaches: a machine that moves on by delivering the next block completely, may
  deliver, in order, a part of what lies ahead when it fails, and may be set back to an earlier block above \<open>StartBlock\<close>
  or to \<open>StartBlock\<close>. The walker stands on the block the next sync counts as processed.
\<close>

theorem deployment_refines_walker:
  assumes "honest_clients E A T logs time" and "quiet_listeners d chain" and "sys_ok A T s"
    and "ic_Chain (ix_config idx) = chain" and "\<not> ic_DebugMode (ix_config idx)" and start: "ic_StartBlock (ix_config idx) = start"
    and "\<And>s. sys_env\<^sup>*\<^sup>* s (I s)" and "(era_step E d onExhausted I)\<^sup>*\<^sup>* (idx, s) (idx', s')"
  shows "walks logs time start (walker_of chain start s) (walker_of chain start s')"
proof -
  have "life_ok A T chain start (idx, s)" using assms(3-5) start by (simp add: life_ok_def)
  from shared_deployment.era_reachable_walk [OF shared_deploymentI [OF assms(1,2,7)] assms(8) this] show ?thesis by simp
qed

theorem deployment_refines_walker_witness:
  "\<exists>idx s r idx' s'. era_step devnet_ext devnet_dispatcher (\<lambda>e w. w) devnet_rerank (Stop shared_ports devnet_indexer devnet_sys) (idx, s) \<and>
     syncBlocks shared_ports (snd (Start idx)) s = Some (r, idx', s') \<and>
     walks devnet_logs devnet_time 1 (walker_of ''devnet'' 1 devnet_sys) (walker_of ''devnet'' 1 s')"
proof (rule devnet_era)
  fix idx s r idx' s'
  assume run: "era_step devnet_ext devnet_dispatcher (\<lambda>e w. w) devnet_rerank (Stop shared_ports devnet_indexer devnet_sys) (idx, s)"
    "syncBlocks shared_ports (snd (Start idx)) s = Some (r, idx', s')"
    "(era_step devnet_ext devnet_dispatcher (\<lambda>e w. w) devnet_rerank)\<^sup>*\<^sup>* (devnet_indexer, devnet_sys) (idx', s')"
  from deployment_refines_walker [OF devnet_honest devnet_quiet devnet_sys_ok devnet_fresh(1,2,4) devnet_rerank_env run(3)] run(1,2)
  show ?thesis by blast
qed

text \<open>
  C3: Nothing is made up. Over the whole life of a deployment, restarts included, every delivery is a log of a block of the chain, not
  below \<open>StartBlock\<close>, handed over with the time of that block.
\<close>

theorem deliveries_genuine:
  assumes "honest_clients E A T logs time" and "quiet_listeners d chain" and "sys_ok A T s"
    and "ic_Chain (ix_config idx) = chain" and "\<not> ic_DebugMode (ix_config idx)" and fresh: "sys_last chain s = 0" "sys_deliv s = []"
    and "\<And>s. sys_env\<^sup>*\<^sup>* s (I s)" and "(era_step E d onExhausted I)\<^sup>*\<^sup>* (idx, s) (idx', s')" and mem: "(l, t) \<in> set (sys_deliv s')"
  shows "\<exists>n. ic_StartBlock (ix_config idx) \<le> n \<and> 0 < n \<and> l \<in> set (logs n) \<and> t = time n"
proof -
  let ?st = "ic_StartBlock (ix_config idx)"
  have "life_ok A T chain ?st (idx, s)" using assms(3-5) by (simp add: life_ok_def)
  from shared_deployment.era_reachable_walk [OF shared_deploymentI [OF assms(1,2,8)] assms(9) this]
  have w: "walks logs time ?st (walker_of chain ?st s) (walker_of chain ?st s')" by simp
  have "walk_sound logs time ?st {} (walker_of chain ?st s)"
    using fresh by (auto simp: walk_sound_def resume_def u64_less unat_sub_if_size)
  from walks_sound [OF w this] mem show ?thesis by (auto simp: walk_sound_def on_chain_def deliveries_def)
qed

theorem deliveries_genuine_witness:
  "\<exists>idx' s'. (era_step devnet_ext devnet_dispatcher (\<lambda>e w. w) devnet_rerank)\<^sup>*\<^sup>* (devnet_indexer, devnet_sys) (idx', s') \<and>
     (\<lparr>log_BlockNumber = 4, log_Data = ''b''\<rparr>, 104) \<in> set (sys_deliv s') \<and>
     (\<exists>n. 1 \<le> n \<and> 0 < n \<and> \<lparr>log_BlockNumber = 4, log_Data = ''b''\<rparr> \<in> set (devnet_logs n) \<and> 104 = devnet_time n)"
proof -
  let ?i = "snd (Start devnet_indexer)"
  have i: "Start devnet_indexer = (None, ?i)" "0 < ix_running_loops ?i" "ic_Chain (ix_config ?i) = ''devnet''" "\<not> ic_DebugMode (ix_config ?i)"
    "ic_StartBlock (ix_config ?i) = 1" "ix_recentHashes ?i = Map.empty" by (simp_all add: Start_def devnet_indexer_explicit devnet_config_def)
  obtain idx' s' base cur where r: "syncBlocks shared_ports ?i devnet_sys = Some (None, idx', s')" "reported_head devnet_ext cur"
    "sync_base (reported_header devnet_ext) ?i 0 cur base" "sys_deliv s' = concat (map (deliveries devnet_logs devnet_time) (new_blocks base cur))"
    using devnet_live_shared.sync_completes [OF devnet_good i(3) devnet_time_nonzero] i(4,5) devnet_fresh
    by (auto simp: shared_ports_def first_base_def)
  have "cur = 5" using r(2) by (auto simp: reported_head_def devnet_eth_def)
  moreover have "base = 0" using r(3) i(6) \<open>cur = 5\<close> by (auto simp: sync_base_def reorg_base_def)
  moreover have "blocks 1 5 = [1, 2, 3, 4, 5]" by (simp add: blocks_def upt_rec)
  ultimately have m: "(\<lparr>log_BlockNumber = 4, log_Data = ''b''\<rparr>, 104) \<in> set (sys_deliv s')"
    using r(4) by (simp add: new_blocks_def deliveries_def devnet_logs_def devnet_time_def)
  have "life_reachable shared_ports sys_env (devnet_indexer, devnet_sys) (?i, devnet_sys)" by (rule r_into_rtranclp) (rule life_step.start [OF i(1)])
  also have "life_step shared_ports sys_env (?i, devnet_sys) (idx', s')"
    using r(1) by (intro life_step.loop [OF i(2), of _ Tick]) (simp add: loop_step_def run_sync_def)
  finally have era: "(era_step devnet_ext devnet_dispatcher (\<lambda>e w. w) devnet_rerank)\<^sup>*\<^sup>* (devnet_indexer, devnet_sys) (idx', s')"
    unfolding shared_ports_def by (rule life_era)
  from deliveries_genuine [OF devnet_honest devnet_quiet devnet_sys_ok devnet_fresh(1,2,3,5) devnet_rerank_env era m] era m
  show ?thesis unfolding devnet_fresh(4) by blast
qed

text \<open>
  C6: A reorganisation within \<open>ReorgDepth\<close> is repaired by the next sync. Suppose everything the indexer has
  processed was delivered on an old chain, and the clients now answer from a chain that agrees with it
  up to \<open>ReorgDepth\<close> blocks below the last processed one (or up to \<open>StartBlock\<close>), and report another hash for that
  block. In good weather the next sync then delivers, in order, exactly the blocks of the new chain above that position
  up to its head, whatever others do to the pool meanwhile, records the head, and every block above \<open>StartBlock\<close> has been delivered as it is on the new chain.
\<close>

theorem reorg_recovered:
  assumes "honest_clients E A T logs time" and "quiet_listeners d chain" and "reliable E" and "willing_listeners d"
    and "sys_good A T s" and "ic_Chain (ix_config idx) = chain" and "\<not> ic_DebugMode (ix_config idx)"
    and "\<forall>n. unat n < 2 ^ 63 \<longrightarrow> time n \<noteq> 0" and "reorged E idx (sys_last chain s)"
    and base: "base = rewind_target (ic_StartBlock (ix_config idx)) (ix_reorgDepth idx) (sys_last chain s)"
    and "\<forall>c. reported_head E c \<longrightarrow> base \<le> c" and cov: "covered old_logs old_time chain (ic_StartBlock (ix_config idx)) s"
    and agree: "\<And>n. n \<le> base \<Longrightarrow> old_logs n = logs n \<and> old_time n = time n"
    and env: "\<And>s. sys_env\<^sup>*\<^sup>* s (I s)" "\<And>s. sys_good A T s \<Longrightarrow> sys_good A T (I s)"
  shows "\<exists>idx' s' cur. syncBlocks (disturbed I (sys_ports E d onExhausted)) idx s = Some (None, idx', s') \<and> reported_head E cur \<and>
     sys_deliv s' = sys_deliv s @ concat (map (deliveries logs time) (new_blocks base cur)) \<and> sys_last chain s' = cur \<and>
     covered logs time chain (ic_StartBlock (ix_config idx)) s'"
proof -
  have "live_shared E d chain A T logs time I" by (rule live_sharedI [OF assms(1-4) env])
  from live_shared.reorg_completes [OF this assms(5-9), folded base, OF assms(11)]
  obtain idx' s' cur where run: "syncBlocks (disturbed I (sys_ports E d onExhausted)) idx s = Some (None, idx', s')" "reported_head E cur"
    "sys_deliv s' = sys_deliv s @ concat (map (deliveries logs time) (new_blocks base cur))" "sys_last chain s' = cur" by blast
  have sk: "sys_skipped s = {}" using assms(5) by (simp add: sys_good_def)
  have "base \<le> max (sys_last chain s) (ic_StartBlock (ix_config idx))" unfolding base by (rule rewind_target_bound)
  from complete_covered [OF cov sk agree this run(4,3)] run show ?thesis by blast
qed

text \<open>The local network after blocks 1 to 5 of another chain.\<close>

definition forked_sys :: "nat sys" where
  "forked_sys = devnet_sys\<lparr>sys_mem := NewMemory\<lparr>mem_chain := NewMemoryChainStorage\<lparr>lastBlocks := [''devnet'' \<mapsto> 5]\<rparr>\<rparr>\<rparr>"

definition forked_indexer :: Indexer where
  "forked_indexer = devnet_indexer\<lparr>ix_recentHashes := [5 \<mapsto> 77], ix_hashOrder := [5]\<rparr>"

theorem reorg_recovered_witness:
  "\<exists>idx' s'. syncBlocks shared_ports forked_indexer forked_sys = Some (None, idx', s') \<and> sys_last ''devnet'' s' = 5 \<and>
     sys_deliv s' = concat (map (deliveries devnet_logs devnet_time) [2, 3, 4, 5]) \<and> covered devnet_logs devnet_time ''devnet'' 1 s'"
proof -
  have c: "ic_Chain (ix_config forked_indexer) = ''devnet''" "\<not> ic_DebugMode (ix_config forked_indexer)" "sys_last ''devnet'' forked_sys = 5"
    "ic_StartBlock (ix_config forked_indexer) = 1" "ix_reorgDepth forked_indexer = 4" "sys_deliv forked_sys = []"
    by (simp_all add: forked_indexer_def devnet_indexer_explicit devnet_config_def sys_last_def forked_sys_def devnet_sys_def)
  have g: "sys_good [] [] forked_sys" using devnet_good by (simp add: sys_good_def sys_ok_def forked_sys_def)
  have re: "reorged devnet_ext forked_indexer (sys_last ''devnet'' forked_sys)"
    unfolding c(3) by (auto simp: reorged_def forked_indexer_def devnet_indexer_explicit reported_header_def devnet_eth_def big_SetUint64_def)
  have b: "(1 :: u64) = rewind_target (ic_StartBlock (ix_config forked_indexer)) (ix_reorgDepth forked_indexer) (sys_last ''devnet'' forked_sys)"
    unfolding c by (simp add: rewind_target_def to_u64_def)
  have h: "\<forall>c. reported_head devnet_ext c \<longrightarrow> 1 \<le> c" by (auto simp: reported_head_def devnet_eth_def)
  let ?old = "\<lambda>n. if n \<le> 1 then devnet_logs n else []"
  have cov: "covered ?old devnet_time ''devnet'' (ic_StartBlock (ix_config forked_indexer)) forked_sys"
    unfolding c(4) by (auto simp: covered_def deliveries_def)
  obtain idx' s' cur where r: "syncBlocks shared_ports forked_indexer forked_sys = Some (None, idx', s')" "reported_head devnet_ext cur"
    "sys_deliv s' = concat (map (deliveries devnet_logs devnet_time) (new_blocks 1 cur))" "sys_last ''devnet'' s' = cur"
    "covered devnet_logs devnet_time ''devnet'' 1 s'"
    using reorg_recovered [OF devnet_honest devnet_quiet devnet_reliable devnet_willing g c(1,2) devnet_time_nonzero re b h cov _ devnet_rerank_env rerank_good, of "\<lambda>e w. w"]
    unfolding c(4,6) shared_ports_def by auto
  have "cur = 5" using r(2) by (auto simp: reported_head_def devnet_eth_def)
  moreover have "new_blocks 1 5 = [2, 3, 4, 5]" by (simp add: new_blocks_def blocks_def upt_rec)
  ultimately show ?thesis using r by simp
qed

end
