(* ===== verification/Debug_Mode.thy ===== *)
theory Debug_Mode
  imports Recovery
begin

text \<open>
  \<open>DebugMode\<close>: the persisted block is neither read nor written, so every sync starts over. What the
  listeners receive from a series of syncs.
\<close>

section \<open>A series of syncs\<close>

fun sync_times :: "'s ports \<Rightarrow> nat \<Rightarrow> Indexer \<Rightarrow> 's \<Rightarrow> (Indexer \<times> 's) option" where
  "sync_times P 0 idx s = Some (idx, s)"
| "sync_times P (Suc k) idx s = (case run_sync P idx s of None \<Rightarrow> None | Some (idx', s') \<Rightarrow> sync_times P k idx' s')"

text \<open>The blocks one sync in \<open>DebugMode\<close> goes through when the head is \<open>cur\<close>.\<close>

definition debug_blocks :: "IndexerConfig \<Rightarrow> u64 \<Rightarrow> u64 list" where
  "debug_blocks cfg cur = blocks (max 1 (ic_StartBlock cfg)) cur"

text \<open>The base of a sync in \<open>DebugMode\<close> that nothing rewinds: just below the first block, or a chain reset with nothing to do.\<close>

lemma debug_new_blocks:
  assumes sb: "sync_base headers idx (first_base (ix_config idx) n) cur base" and dbg: "ic_DebugMode (ix_config idx)"
    and depth: "ix_reorgDepth idx \<le> 0 \<or> ic_StartBlock (ix_config idx) \<le> 1"
  shows "new_blocks base cur = debug_blocks (ix_config idx) cur"
proof -
  let ?st = "ic_StartBlock (ix_config idx)"
  let ?b = "first_base (ix_config idx) n"
  have ub: "unat ?b = unat ?st - 1" using dbg by (auto simp: first_base_def unat_sub_if_size u64_less)
  have "?b = 0" if "?st \<le> 1" using ub that by (auto simp: u64_le simp flip: unat_eq_0)
  with sb depth have base: "base = (if cur < ?b then ?st else ?b)" by (auto simp: sync_base_def reorg_base_def)
  have um: "unat (max 1 ?st) = max 1 (unat ?st)" by (auto simp: max_def u64_le)
  show ?thesis
  proof (cases "?b < cur")
    case True
    from unat_u64_Suc [OF True] have "unat (?b + 1) = unat (max 1 ?st)" unfolding ub um by auto
    then have "?b + 1 = max 1 ?st" by (simp only: word_unat_eq_iff)
    moreover have "\<not> cur < ?b" using True by simp
    ultimately show ?thesis using True base unfolding new_blocks_def debug_blocks_def by simp
  next
    case False
    then have "unat cur < unat (max 1 ?st)" unfolding um u64_less ub by auto
    with False base show ?thesis using ub by (auto simp: new_blocks_def debug_blocks_def blocks_def u64_less)
  qed
qed

context live_shared
begin

lemma debug_syncs:
  assumes "sys_good A T s" and "ic_Chain (ix_config idx) = chain" and "ic_DebugMode (ix_config idx)"
    and "ix_reorgDepth idx \<le> 0 \<or> ic_StartBlock (ix_config idx) \<le> 1"
    and time: "\<forall>n. unat n < 2 ^ 63 \<longrightarrow> chain_time n \<noteq> 0"
  shows "\<exists>idx' s' curs. sync_times (disturbed I (sys_ports E d onExhausted)) k idx s = Some (idx', s') \<and>
     length curs = k \<and> list_all (reported_head E) curs \<and> sys_last chain s' = sys_last chain s \<and>
     sys_deliv s' = sys_deliv s @
       concat (map (\<lambda>cur. concat (map (deliveries chain_logs chain_time) (debug_blocks (ix_config idx) cur))) curs)"
  using assms(1-4)
proof (induction k arbitrary: idx s)
  case (Suc k)
  obtain idx1 s1 base cur where run: "syncBlocks (disturbed I (sys_ports E d onExhausted)) idx s = Some (None, idx1, s1)" "sys_good A T s1"
    "reported_head E cur" "sys_last chain s1 = sys_last chain s"
    and sb: "sync_base (reported_header E) idx (first_base (ix_config idx) (sys_last chain s)) cur base"
    and dv: "sys_deliv s1 = sys_deliv s @ concat (map (deliveries chain_logs chain_time) (new_blocks base cur))"
    using sync_completes [OF Suc.prems(1,2) time] Suc.prems(3) by auto
  have st: "ix_config idx1 = ix_config idx" "ix_reorgDepth idx1 = ix_reorgDepth idx" using syncBlocks_settings [OF run(1)] by simp_all
  from Suc.IH [OF run(2), of idx1] Suc.prems(2-4) obtain idx' s' curs
    where ih: "sync_times (disturbed I (sys_ports E d onExhausted)) k idx1 s1 = Some (idx', s')" "length curs = k"
      "list_all (reported_head E) curs" "sys_last chain s' = sys_last chain s1"
      "sys_deliv s' = sys_deliv s1 @
        concat (map (\<lambda>cur. concat (map (deliveries chain_logs chain_time) (debug_blocks (ix_config idx) cur))) curs)"
    unfolding st by auto
  have "sync_times (disturbed I (sys_ports E d onExhausted)) (Suc k) idx s = Some (idx', s')" using run(1) ih(1) by (simp add: run_sync_def)
  with ih run(3,4) dv debug_new_blocks [OF sb Suc.prems(3,4)] show ?case by (intro exI [of _ idx'] exI [of _ s'] exI [of _ "cur # curs"]) simp
qed simp

end

section \<open>Properties\<close>

text \<open>
  C12: In \<open>DebugMode\<close> every sync replays the chain. In good weather, with reorg detection off or nothing to rewind to, a series of
  \<open>k\<close> syncs delivers, each time, all logs of all blocks from \<open>StartBlock\<close> on (from block 1 if that is 0: the genesis
  block is never among them) up to the head reported to that sync, in order, and leaves the persisted block as it was.
\<close>

theorem debug_mode_replays:
  assumes "honest_clients E A T logs time" and "quiet_listeners d chain" and "reliable E" and "willing_listeners d"
    and "sys_good A T s" and "ic_Chain (ix_config idx) = chain" and "ic_DebugMode (ix_config idx)"
    and "ix_reorgDepth idx \<le> 0 \<or> ic_StartBlock (ix_config idx) \<le> 1" and "\<forall>n. unat n < 2 ^ 63 \<longrightarrow> time n \<noteq> 0"
    and "\<And>s. sys_env\<^sup>*\<^sup>* s (I s)" and "\<And>s. sys_good A T s \<Longrightarrow> sys_good A T (I s)"
  shows "\<exists>idx' s' curs. sync_times (disturbed I (sys_ports E d onExhausted)) k idx s = Some (idx', s') \<and>
     length curs = k \<and> list_all (reported_head E) curs \<and> sys_last chain s' = sys_last chain s \<and>
     sys_deliv s' = sys_deliv s @
       concat (map (\<lambda>cur. concat (map (deliveries logs time) (blocks (max 1 (ic_StartBlock (ix_config idx))) cur))) curs)"
  by (rule live_shared.debug_syncs [OF live_sharedI, unfolded debug_blocks_def]) (use assms in auto)

text \<open>The local network in \<open>DebugMode\<close>: two syncs deliver everything twice.\<close>

definition debug_indexer :: Indexer where
  "debug_indexer = devnet_indexer\<lparr>ix_config := (ix_config devnet_indexer)\<lparr>ic_DebugMode := True\<rparr>\<rparr>"

theorem debug_mode_replays_witness:
  "\<exists>idx' s'. sync_times shared_ports 2 debug_indexer devnet_sys = Some (idx', s') \<and> sys_last ''devnet'' s' = 0 \<and>
     sys_deliv s' = concat (replicate 2
       [(\<lparr>log_BlockNumber = 2, log_Data = ''a''\<rparr>, 102), (\<lparr>log_BlockNumber = 2, log_Data = ''b''\<rparr>, 102),
        (\<lparr>log_BlockNumber = 4, log_Data = ''a''\<rparr>, 104), (\<lparr>log_BlockNumber = 4, log_Data = ''b''\<rparr>, 104)])"
proof -
  have c: "ic_Chain (ix_config debug_indexer) = ''devnet''" "ic_DebugMode (ix_config debug_indexer)" "ic_StartBlock (ix_config debug_indexer) = 1"
    by (simp_all add: debug_indexer_def devnet_indexer_explicit devnet_config_def)
  have "ix_reorgDepth debug_indexer \<le> 0 \<or> ic_StartBlock (ix_config debug_indexer) \<le> 1" unfolding c(3) by simp
  from debug_mode_replays [OF devnet_honest devnet_quiet devnet_reliable devnet_willing devnet_good c(1,2) this devnet_time_nonzero
      devnet_rerank_env rerank_good, of "\<lambda>e w. w" 2]
  obtain idx' s' and curs :: "u64 list" where r: "sync_times shared_ports 2 debug_indexer devnet_sys = Some (idx', s')" "length curs = 2"
    "list_all (reported_head devnet_ext) curs" "sys_last ''devnet'' s' = sys_last ''devnet'' devnet_sys"
    "sys_deliv s' = sys_deliv devnet_sys @
       concat (map (\<lambda>cur. concat (map (deliveries devnet_logs devnet_time) (blocks (max 1 1) cur))) curs)"
    unfolding c(3) shared_ports_def by blast
  have "set curs \<subseteq> {5}" using r(3) by (auto simp: list_all_iff reported_head_def devnet_eth_def)
  then have "curs = replicate 2 5" using r(2) by (metis replicate_length_same singletonD subsetD)
  moreover have "blocks 1 5 = [1, 2, 3, 4, 5]" by (simp add: blocks_def upt_rec)
  moreover have "sys_last ''devnet'' devnet_sys = 0" "sys_deliv devnet_sys = []" by (simp_all add: sys_last_def devnet_sys_def NewMemory_def NewMemoryChainStorage_def)
  moreover have "replicate 2 x = [x, x]" for x :: 'x by (simp add: numeral_2_eq_2)
  ultimately show ?thesis using r(1,4,5) by (simp add: deliveries_def devnet_logs_def devnet_time_def)
qed

end
