(* ===== verification/Findings.thy ===== *)
theory Findings
  imports Recovery
begin

text \<open>
  Where the code does not do what its comments say, or surprises: each finding as a theorem about the
  model.
\<close>

section \<open>The start of the chain\<close>

text \<open>
  C39: A fresh start on a chain whose head is still below \<open>StartBlock - 1\<close> is taken for a chain reset: the sync
  delivers nothing and records \<open>StartBlock\<close> as processed, so that block is never delivered.
\<close>

theorem fresh_start_below_start_block:
  assumes "honest_clients E A T logs time" and "quiet_listeners d chain" and "reliable E" and "willing_listeners d"
    and good: "sys_good A T s" and cfg: "ic_Chain (ix_config idx) = chain" "\<not> ic_DebugMode (ix_config idx)"
    and time: "\<forall>n. unat n < 2 ^ 63 \<longrightarrow> time n \<noteq> 0" and env: "\<And>s. sys_env\<^sup>*\<^sup>* s (I s)" "\<And>s. sys_good A T s \<Longrightarrow> sys_good A T (I s)"
    and fresh: "sys_last chain s = 0" "ix_recentHashes idx = Map.empty"
    and start: "0 < ic_StartBlock (ix_config idx)" and head: "\<And>c. reported_head E c \<Longrightarrow> c < ic_StartBlock (ix_config idx) - 1"
  shows "\<exists>idx' s'. syncBlocks (disturbed I (sys_ports E d onExhausted)) idx s = Some (None, idx', s') \<and>
     sys_deliv s' = sys_deliv s \<and> sys_last chain s' = ic_StartBlock (ix_config idx)"
proof -
  let ?st = "ic_StartBlock (ix_config idx)"
  have fb: "first_base (ix_config idx) (sys_last chain s) = ?st - 1" using fresh(1) start cfg(2) by (simp add: first_base_def)
  have live: "live_shared E d chain A T logs time I" by (rule live_sharedI [OF assms(1-4) env])
  obtain idx' s' base cur where run: "syncBlocks (disturbed I (sys_ports E d onExhausted)) idx s = Some (None, idx', s')"
    "reported_head E cur" "sync_base (reported_header E) idx (?st - 1) cur base"
    "sys_deliv s' = sys_deliv s @ concat (map (deliveries logs time) (new_blocks base cur))"
    and l: "if base < cur then sys_last chain s' = cur
      else sys_last chain s' = base \<or> base = ?st - 1 \<and> sys_last chain s' = sys_last chain s"
    using live_shared.sync_completes [OF live good cfg(1) time, of onExhausted] cfg(2) unfolding fb by auto
  have c: "cur < ?st - 1" using head run(2) by blast
  have "unat (?st - 1) = unat ?st - 1" using start by (simp add: unat_sub_if_size word_less_nat_alt)
  then have st: "?st - 1 < ?st" using start by (simp add: u64_less)
  have "base = ?st" using run(3) c fresh(2) by (auto simp: sync_base_def reorg_base_def split: if_splits)
  with c st have "\<not> base < cur" "base \<noteq> ?st - 1" by auto
  with l run \<open>base = ?st\<close> show ?thesis by (simp add: new_blocks_def)
qed

text \<open>The local network, whose head is block 5, indexed from block 20 on.\<close>

definition early_indexer :: Indexer where
  "early_indexer = devnet_indexer\<lparr>ix_config := (ix_config devnet_indexer)\<lparr>ic_StartBlock := 20\<rparr>\<rparr>"

theorem fresh_start_below_start_block_witness:
  "\<exists>idx' s'. syncBlocks shared_ports early_indexer devnet_sys = Some (None, idx', s') \<and> sys_deliv s' = [] \<and> sys_last ''devnet'' s' = 20"
proof -
  have c: "ic_Chain (ix_config early_indexer) = ''devnet''" "\<not> ic_DebugMode (ix_config early_indexer)" "ic_StartBlock (ix_config early_indexer) = 20"
    "ix_recentHashes early_indexer = Map.empty" "sys_last ''devnet'' devnet_sys = 0" "sys_deliv devnet_sys = []"
    by (simp_all add: early_indexer_def devnet_indexer_explicit devnet_config_def sys_last_def devnet_sys_def NewMemory_def NewMemoryChainStorage_def)
  have h: "reported_head devnet_ext c \<Longrightarrow> c < ic_StartBlock (ix_config early_indexer) - 1" for c
    unfolding c(3) by (auto simp: reported_head_def devnet_eth_def)
  show ?thesis
    using fresh_start_below_start_block [OF devnet_honest devnet_quiet devnet_reliable devnet_willing devnet_good c(1,2) devnet_time_nonzero
        devnet_rerank_env rerank_good c(5,4) _ h, of "\<lambda>e w. w"]
    unfolding c(3,6) shared_ports_def by simp
qed

section \<open>Rewinding\<close>

text \<open>A rewind from a block below \<open>StartBlock\<close> moves the position forward.\<close>

theorem reorg_rewind_forward:
  assumes "0 < ix_reorgDepth idx" and "0 < n" and "n < ic_StartBlock (ix_config idx)" and "ix_recentHashes idx n = Some want"
    and "pp_HeaderByNumber (pt_pool P) (big_SetUint64 n) s = (Inr h, s1)" and "hdr_Hash h \<noteq> want"
    and "storeLastBlock P idx (ic_StartBlock (ix_config idx)) s1 = (None, s2)"
  shows "fst (detectReorgRewind P n idx s) = Inr (ic_StartBlock (ix_config idx))"
proof -
  let ?st = "ic_StartBlock (ix_config idx)"
  have "rewind_target ?st (ix_reorgDepth idx) n = ?st"
    using assms(3) by (auto simp: rewind_target_def word_less_nat_alt unat_sub_if_size)
  with assms show ?thesis by (auto simp: detectReorgRewind_def Let_def)
qed

section \<open>Undecodable blocks\<close>

text \<open>
  The batched path drops the logs of a block whose header has time 0; the sequential path delivers
  them.
\<close>

theorem time_zero_dropped:
  assumes "pp_HeaderByNumber (pt_pool P) (big_SetUint64 n) s = (Inr h, s1)" and "hdr_Time h = 0"
    and "log_BlockNumber l = n" and "pp_LogsByBlockNumber (pt_pool P) n s1 = (Inr [l], s2)"
    and "bd_Dispatch (pt_dispatcher P) l 0 s2 = (None, s3)"
  shows "apply_logs P [l] Map.empty s = (None, s1) \<and> processBlock P n idx s = (None, recordBlockHash n (hdr_Hash h) idx, s3)"
  using assms by (simp add: processBlock_def Let_def)

text \<open>
  A listener's error that mentions an unsupported transaction type makes the sequential path skip the
  rest of the block for good; the batched path returns the error.
\<close>

theorem listener_error_skips_block:
  assumes "pp_HeaderByNumber (pt_pool P) (big_SetUint64 n) s = (Inr h, s1)" and "pp_LogsByBlockNumber (pt_pool P) n s1 = (Inr (l # ls), s2)"
    and "bd_Dispatch (pt_dispatcher P) l (hdr_Time h) s2 = (Some e, s3)" and "isLocalDecodeError (Some e)"
    and "storeLastBlock P (recordBlockHash n (hdr_Hash h) idx) n s3 = (None, s4)" and "n \<le> cur"
    and "log_BlockNumber l = n" and "hdr_Time h \<noteq> 0"
  shows "seq_body P cur (n, idx, s) = Inr (n + 1, recordBlockHash n (hdr_Hash h) idx, persistProviderState P s4) \<and>
     apply_logs P (l # ls) [n \<mapsto> hdr_Time h] s2 = (Some (block_error ''failed to dispatch log for block '' n e), s3)"
proof -
  have "isLocalDecodeError (Some (block_error x n e))" for x
    unfolding block_error_def by (rule isLocalDecodeError_wrap [OF assms(4)])
  with assms show ?thesis by (simp add: seq_body_def processBlock_def Let_def)
qed

section \<open>Chunk sizes\<close>

text \<open>
  A parallel round that succeeds after a split leaves the mark \<open>retrying\<close> set, so the next
  single-provider chunk is cut by the halved size and not by the pool's limit.
\<close>

theorem split_size_survives_round:
  assumes "a \<le> cur" and "parallel_part P cur a idx s = Continue (b, idx1, s1)" and "b \<le> cur"
    and "parallel_part P cur b idx1 s1 = Fallthrough (b, idx1, s2)" and "b + c - 1 \<le> cur"
    and "pp_LogsByBlockRange (pt_pool P) b (b + c - 1) s2 = (Inr logs, s3)"
    and "applyBatchChunk P logs (b + c - 1) idx1 s3 = (None, idx2, s4)"
  shows "batch_body P cur (a, c, True, idx, s) = Inr (b, c, True, idx1, s1) \<and>
     batch_body P cur (b, c, True, idx1, s1) = Inr (b + c, c, False, idx2, s4)"
  using assms leD [OF assms(5)] by (simp add: batch_body_def single_part_def Let_def)

section \<open>Availability\<close>

text \<open>\<open>IsAvailable\<close> rolls an expired quota period over: asking changes the provider.\<close>

theorem available_has_effect:
  assumes "p_dialErr p = None" and "p_client p \<noteq> NilIface" and "p_healthy p" and "cb_IsAvailable (x_gb E) (p_circuitBreaker p) w = (True, w1)"
    and "rt_Now (x_rt E) w1 = (now, w2)"
  shows "fst (snd (p_IsAvailable E p w)) = p\<lparr>p_quota := rolloverLocked now (p_quota p)\<rparr>"
  using assms Remaining_state [of now "p_quota p"] by (auto simp: p_IsAvailable_def Remaining_def Let_def split: prod.split option.splits if_splits)

end
