(* ===== verification/Spec2Isabelle.thy ===== *)
theory Spec2Isabelle
  imports Indexer_Properties Parallel_Properties Pool_Life Exhaustion_Report Debug_Mode Findings
begin

text \<open>
  Verification of go-block-walk, a Go package that indexes the event logs of an EVM chain.

  \<^bold>\<open>The program.\<close> An \<open>Indexer\<close> (\<^verbatim>\<open>src/indexer.go\<close>) walks the chain block by block: on every tick or nudge it
  asks the pool for the head, fetches the logs of the new blocks, hands each log to the dispatcher and
  records the last completed block in the storage. A \<open>Pool\<close> (\<^verbatim>\<open>src/pool.go\<close>) ranks several RPC
  \<open>Provider\<close>s (\<^verbatim>\<open>src/provider.go\<close>), routes every call to the best available one, feeds the outcome back
  into its health score, and can fan a long range out over all of them at once. A provider call passes a
  quota (\<^verbatim>\<open>provider.go\<close>), a retry loop (\<^verbatim>\<open>retry.go\<close>), a rate limiter (\<^verbatim>\<open>ratelimit.go\<close>) and a circuit
  breaker (\<^verbatim>\<open>breaker.go\<close>). The in-memory storages (\<^verbatim>\<open>memory*.go\<close>) hold progress, events, scores and quotas.

  \<^bold>\<open>The model.\<close> Each Go struct is a record, each method a function of the same name (prefixed \<open>p_\<close>,
  \<open>pool_\<close>, \<open>idx_\<close>, \<open>rl_\<close>, \<open>cb_\<close> where names repeat). Effects are explicit: a method takes and returns the
  state it works on and the world \<open>'w\<close>, which stands for the network, the clock, the random source and the
  state inside third-party packages. An error is a value with its message and the errors it wraps; a call
  through a nil pointer is the error \<open>nil_deref\<close>. \<open>uint64\<close> is \<open>64 word\<close>, \<open>int64\<close> is \<open>int\<close> with \<open>i64\<close> where the
  code can overflow, \<open>float64\<close> is the type \<open>f64\<close> with IEEE rounding. A \<open>for\<close> loop is \<open>go_for\<close>, a partial
  function whose value \<open>None\<close> means that it runs for ever; termination is always proved, no fuel is used.

  \<^bold>\<open>Theories.\<close>
  \<^item> \<open>Go_Prelude\<close>: integers, \<open>go_for\<close> with its rules for total, partial and relational correctness, strings,
    \<open>sort.Slice\<close> (the locale \<open>slice_order\<close>), ranges of blocks. \<open>Go_Float\<close>: double precision.
  \<^item> \<open>Errors\<close> (\<^verbatim>\<open>errors.go\<close>), \<open>Config\<close> (\<^verbatim>\<open>config.go\<close>), \<open>Eth_Types\<close>, \<open>Ports\<close> (\<^verbatim>\<open>ports.go\<close>): error values and their
    classifiers, configuration, all interfaces, each as the record of its methods.
  \<^item> \<open>Exhaustion\<close>, \<open>Nudge\<close>, \<open>Dispatcher\<close>, \<open>Memory_Chain\<close>, \<open>Memory_Rows\<close> (\<^verbatim>\<open>exhaustion.go\<close>, \<^verbatim>\<open>nudge.go\<close>,
    \<^verbatim>\<open>dispatcher.go\<close>, \<^verbatim>\<open>memorychain.go\<close>, \<^verbatim>\<open>memoryscore.go\<close>, \<^verbatim>\<open>memoryquota.go\<close>): the small components, each with
    the property that makes it correct. \<open>Memory_Rows\<close> states the contract of both tables as a locale.
  \<^item> \<open>Quota\<close>, \<open>Rate_Limiter\<close>, \<open>Circuit_Breaker\<close>, \<open>Retry\<close>: the budget invariant and the rate bound of a quota;
    the exact meaning of the breaker's floating-point trip condition; the outcomes of the retry loop and
    the bounds of the backoff. \<open>Provider\<close>, \<open>Pool\<close>: the calls through all of them.
  \<^item> \<open>Pool_Invariant\<close>: what every operation keeps of a pool. \<open>Pool_Policy\<close>: construction, ranking, selection,
    health feedback, charges. \<open>Pool_Live\<close>: in good weather every call succeeds. \<open>Pool_Life\<close>: \<open>updateLoop\<close>
    and \<open>Close\<close> as interleaving steps; \<open>Close\<close> can always complete and the ranking then stays as it is.
  \<^item> \<open>Parallel_Backfill\<close>: the fan-out of \<open>LogsByBlockRangeParallel\<close>, its goroutines as workers with a program
    counter over the shared variables and the job channel; a step relation over all interleavings and
    an executable scheduler. \<open>Parallel_Plan\<close>, \<open>Parallel_Round\<close>, \<open>Parallel_Correct\<close>: the partition into
    jobs, the invariant of a round (every job is queued, held or done; the counters agree with that),
    and a measure that every step of a worker decreases. \<open>Parallel_Properties\<close>: correctness, absence of
    deadlock, termination.
  \<^item> \<open>Indexer\<close>: the constructor with its options, and the sync engine. \<open>Sync_Env\<close>, \<open>Sync_Chain\<close>, \<open>Sync_Paths\<close>: its contract with the ports as the
    locales \<open>sync_env\<close>, \<open>sync_chain\<close>, \<open>sync_limits\<close>, and the specification of both sync paths, of the reorg
    rewind and of a whole sync, proved against it. \<open>Interference\<close>: other goroutines work on the pool while
    a sync is under way; \<open>disturbed I P\<close> are the ports where \<open>I\<close> acts before each call, and the locale
    \<open>disturbed_sync\<close> shows that they meet the same contract. \<open>Sync_Live\<close>: under the contract \<open>sync_live\<close>
    no sync fails, also when disturbed (\<open>disturbed_live\<close>). \<open>Sync_Relation\<close>: relations between runs that the
    sync paths (\<open>engine_relation\<close>) and a whole sync (\<open>sync_relation\<close>) respect; \<open>Reorg\<close>: the hash window as one
    of them. \<open>Exhaustion_Report\<close>: from the syncs that found no provider to the callback of \<open>WithOnExhausted\<close>.
  \<^item> \<open>Walker\<close>: the abstract specification of the whole program, a machine that stands on a block, moves on by
    delivering the next block completely, may deliver in order a part of what lies ahead, and may be set back. Its
    runs lose no block and make nothing up.
  \<^item> \<open>Lifecycle\<close>: \<open>Start\<close>, \<open>Stop\<close>, \<open>Nudge\<close> and \<open>syncLoop\<close> as interleaving steps.
  \<^item> \<open>System\<close> (\<^verbatim>\<open>memory.go\<close> and the composition): pool, storage and dispatcher behind the indexer's ports;
    the locale \<open>deployment\<close> names what is assumed outside the package (clients answer from one chain,
    listeners leave the indexer's progress alone) and is shown to meet \<open>sync_limits\<close>, so that the
    contracts of the sync engine are discharged by the model of the pool itself. \<open>Deployment_Life\<close>: what
    a sync leaves behind, and that a sync, and every life of an indexer, is a run of the walker, whatever the others
    do to the pool in between (\<open>sys_life\<close>, \<open>shared_deployment\<close>). \<open>Deployment_Live\<close>: good weather gives progress to the
    head (\<open>live_shared\<close>). \<open>Persistence\<close>: the providers' state across a restart. \<open>Recovery\<close>: the refinement
    of the walker over any number of restarts, and with it that no block is lost and every delivery is genuine;
    the blocks a reorganisation replaces are delivered anew. \<open>Debug_Mode\<close>: every sync replays the chain.
    \<open>Indexer_Properties\<close>: lifecycle, reorg and the agreement of the two sync paths. \<open>Findings\<close>: where
    the code does not do what its comments say, as theorems.
  \<^item> \<open>Devnet\<close>: a small concrete network with two providers, on which all witnesses run.

  \<^bold>\<open>Bounds.\<close> Block numbers reported by clients are below \<open>2^63\<close>; a provider's limit times the number of
  providers is below \<open>2^31 - 1\<close>, so that the 32-bit counters of a round cannot wrap around; a round takes at
  most six steps per job and allowed attempt. Quota and backoff theorems state their ranges.

  \<^bold>\<open>Assumptions on the outside.\<close> The clients are honest (\<open>honest_clients\<close>): a successful answer to a log
  query or header request describes one fixed chain. A reorganisation is the change from one such chain to
  another between two syncs; one during a sync is not covered. \<open>range\<close> over a Go map visits
  every key once in any order (\<open>map_order_ok\<close>, and an order parameter elsewhere). gobreaker, x/time/rate
  and go-ethereum are parameters.

  \<^bold>\<open>Not modelled.\<close> Logging has no effect on the state. The declarations that assert that a type implements
  an interface (\<^verbatim>\<open>var _ I = (*T)(nil)\<close>) are checked by the Go compiler. A ticker fires at arbitrary
  moments, so its reset after a nudge has no counterpart. Locks are the atomicity of the steps; the order of memory accesses
  below that level is Go's race-freedom and is not modelled. The indexer's context is part of the world: that a call fails because
  \<open>Stop\<close> has cancelled it is one of the outcomes the interfaces may give at any time, not tied to the moment of the cancellation.
  The verb \<^verbatim>\<open>%q\<close> of an error message quotes a provider's name without escaping. A panic is an error value that ends the
  call. Several providers with the same name are rejected by \<open>NewPool\<close>, so names stand for providers.
\<close>

end
